(* ===== verification/Prelude.thy ===== *)
theory Prelude
  imports Main "HOL-Library.Multiset" "HOL-Library.Word"
begin

text \<open>
  Shared vocabulary of the development: gRPC and HTTP outcomes as values, the contract of
  the standard library's \<^verbatim>\<open>sort.Slice\<close> and of ranging over a Go map, the
  "keep the best so far" loop several services use, and small facts about lists and maps.
\<close>

named_theorems go_simps \<open>evaluation rules of the Go library functions\<close>
named_theorems rpc_simps \<open>case analysis of remote call results\<close>

section \<open>Outcomes of remote calls and of HTTP handlers\<close>

datatype grpc_code =
    InvalidArgument | NotFound | AlreadyExists | PermissionDenied | ResourceExhausted
  | Internal | Unauthenticated | Unimplemented | Unavailable | DeadlineExceeded | UnknownCode

text \<open>A gRPC status error: its code and its message.\<close>

datatype rpc_error = Status (code_of: grpc_code) (message_of: string)

type_synonym 'a rpc = "rpc_error + 'a"

definition is_err :: "'a rpc \<Rightarrow> bool" where
  "is_err r = (case r of Inl _ \<Rightarrow> True | Inr _ \<Rightarrow> False)"

lemma is_err_simps [simp, rpc_simps]: "is_err (Inl e)" "\<not> is_err (Inr v)"
  by (simp_all add: is_err_def)

lemma is_err_iff: "is_err r \<longleftrightarrow> (\<exists>e. r = Inl e)"
  by (cases r) auto

section \<open>Sorting with a less function\<close>

text \<open>
  \<^verbatim>\<open>sort.Slice(xs, less)\<close> permutes the slice so that it is ordered by
  \<^verbatim>\<open>less\<close>, provided \<^verbatim>\<open>less\<close> is a strict weak order on the elements; it
  is not stable. The documented contract is the locale \<open>slice_sort\<close>; every definition
  that sorts takes the routine as an argument and the theorems hold for each one that
  keeps the contract.
\<close>

definition strict_weak_on :: "'a set \<Rightarrow> ('a \<Rightarrow> 'a \<Rightarrow> bool) \<Rightarrow> bool" where
  "strict_weak_on A lt \<longleftrightarrow>
     (\<forall>x\<in>A. \<not> lt x x) \<and>
     (\<forall>x\<in>A. \<forall>y\<in>A. \<forall>z\<in>A. lt x y \<longrightarrow> lt y z \<longrightarrow> lt x z) \<and>
     (\<forall>x\<in>A. \<forall>y\<in>A. \<forall>z\<in>A. lt x z \<longrightarrow> lt x y \<or> lt y z)"

lemma strict_weak_onI:
  assumes "\<And>x. x \<in> A \<Longrightarrow> \<not> lt x x"
    and "\<And>x y z. x \<in> A \<Longrightarrow> y \<in> A \<Longrightarrow> z \<in> A \<Longrightarrow> lt x y \<Longrightarrow> lt y z \<Longrightarrow> lt x z"
    and "\<And>x y z. x \<in> A \<Longrightarrow> y \<in> A \<Longrightarrow> z \<in> A \<Longrightarrow> lt x z \<Longrightarrow> lt x y \<or> lt y z"
  shows "strict_weak_on A lt"
  using assms unfolding strict_weak_on_def by blast

lemma strict_weak_on_key:
  fixes f :: "'a \<Rightarrow> 'b::linorder"
  shows "strict_weak_on A (\<lambda>x y. f x < f y)"
  by (rule strict_weak_onI) (auto intro: less_trans)

lemma strict_weak_on_subset: "strict_weak_on A lt \<Longrightarrow> B \<subseteq> A \<Longrightarrow> strict_weak_on B lt"
  unfolding strict_weak_on_def by blast

lemma strict_weak_asym:
  "strict_weak_on A lt \<Longrightarrow> x \<in> A \<Longrightarrow> y \<in> A \<Longrightarrow> lt x y \<Longrightarrow> \<not> lt y x"
  unfolding strict_weak_on_def by blast

lemma strict_weak_not_less_trans:
  "strict_weak_on A lt \<Longrightarrow> x \<in> A \<Longrightarrow> y \<in> A \<Longrightarrow> z \<in> A \<Longrightarrow>
   \<not> lt x y \<Longrightarrow> \<not> lt y z \<Longrightarrow> \<not> lt x z"
  unfolding strict_weak_on_def by blast

locale slice_sort =
  fixes srt :: "('a \<Rightarrow> 'a \<Rightarrow> bool) \<Rightarrow> 'a list \<Rightarrow> 'a list"
  assumes srt_mset: "mset (srt lt xs) = mset xs"
    and srt_ordered:
      "strict_weak_on (set xs) lt \<Longrightarrow> sorted_wrt (\<lambda>x y. \<not> lt y x) (srt lt xs)"
begin

lemma srt_set [simp]: "set (srt lt xs) = set xs"
  by (metis srt_mset set_mset_mset)

lemma srt_length [simp]: "length (srt lt xs) = length xs"
  by (metis srt_mset size_mset)

lemma srt_Nil_iff [simp]: "srt lt xs = [] \<longleftrightarrow> xs = []"
  by (metis srt_length length_0_conv)

lemma srt_distinct [simp]: "distinct (srt lt xs) = distinct xs"
  by (metis srt_mset mset_eq_imp_distinct_iff)

text \<open>The head of the sorted slice beats or ties every element.\<close>

lemma srt_hd:
  assumes "strict_weak_on (set xs) lt" and "xs \<noteq> []" and "x \<in> set xs"
  shows "hd (srt lt xs) \<in> set xs \<and> \<not> lt x (hd (srt lt xs))"
proof -
  obtain h t where ht: "srt lt xs = h # t"
    using assms(2) by (cases "srt lt xs") auto
  then have "h \<in> set xs" by (metis srt_set list.set_intros(1))
  moreover have "x \<in> set (h # t)" using assms(3) ht by (metis srt_set)
  moreover have "sorted_wrt (\<lambda>x y. \<not> lt y x) (h # t)"
    using srt_ordered [OF assms(1)] ht by simp
  moreover have "\<not> lt h h" using assms(1) \<open>h \<in> set xs\<close> by (simp add: strict_weak_on_def)
  ultimately show ?thesis by (auto simp: ht)
qed

text \<open>The first elements beat or tie every element left out.\<close>

lemma srt_take_best:
  assumes "strict_weak_on (set xs) lt" and "r \<in> set (take k (srt lt xs))"
    and "x \<in># mset xs - mset (take k (srt lt xs))"
  shows "\<not> lt x r"
proof -
  have "mset xs = mset (take k (srt lt xs)) + mset (drop k (srt lt xs))"
    by (metis append_take_drop_id mset_append srt_mset)
  then have "x \<in> set (drop k (srt lt xs))" using assms(3) by simp
  moreover have "sorted_wrt (\<lambda>x y. \<not> lt y x) (take k (srt lt xs) @ drop k (srt lt xs))"
    using srt_ordered [OF assms(1)] by simp
  ultimately show ?thesis using assms(2) by (auto simp: sorted_wrt_append simp del: append_take_drop_id)
qed

lemma srt_take_sorted:
  "strict_weak_on (set xs) lt \<Longrightarrow> sorted_wrt (\<lambda>x y. \<not> lt y x) (take k (srt lt xs))"
  by (rule sorted_wrt_take [OF srt_ordered])

lemma srt_take_subset: "mset (take k (srt lt xs)) \<subseteq># mset xs"
  by (metis append_take_drop_id mset_append mset_subset_eq_add_left srt_mset)

text \<open>
  With an injective key the result does not depend on the routine: it is the sorted
  arrangement of the elements.
\<close>

lemma srt_key_unique:
  fixes f :: "'a \<Rightarrow> 'b::linorder"
  assumes "inj_on f (set xs)"
  shows "srt (\<lambda>x y. f x < f y) xs = sort_key f xs"
proof -
  have "sorted (map f (srt (\<lambda>x y. f x < f y) xs))"
    using srt_ordered [OF strict_weak_on_key [of "set xs" f]]
    by (simp add: sorted_wrt_map not_less)
  moreover have "mset (srt (\<lambda>x y. f x < f y) xs) = mset xs" by (rule srt_mset)
  ultimately show ?thesis
    using sort_key_inj_key_eq [of xs "srt (\<lambda>x y. f x < f y) xs" f] assms by metis
qed

end

text \<open>
  The routine the runtime itself uses for slices of at most twelve elements: insertion of
  each element, from the right, into the sorted prefix. The prefix is kept reversed.
\<close>

fun isort_insert :: "('a \<Rightarrow> 'a \<Rightarrow> bool) \<Rightarrow> 'a \<Rightarrow> 'a list \<Rightarrow> 'a list" where
  "isort_insert lt x [] = [x]"
| "isort_insert lt x (y # ys) = (if lt x y then y # isort_insert lt x ys else x # y # ys)"

fun isort_loop :: "('a \<Rightarrow> 'a \<Rightarrow> bool) \<Rightarrow> 'a list \<Rightarrow> 'a list \<Rightarrow> 'a list" where
  "isort_loop lt acc [] = rev acc"
| "isort_loop lt acc (x # xs) = isort_loop lt (isort_insert lt x acc) xs"

definition go_isort :: "('a \<Rightarrow> 'a \<Rightarrow> bool) \<Rightarrow> 'a list \<Rightarrow> 'a list" where
  "go_isort lt xs = isort_loop lt [] xs"

lemma mset_isort_insert: "mset (isort_insert lt x ys) = add_mset x (mset ys)"
  by (induction ys) auto

lemma set_isort_insert: "set (isort_insert lt x ys) = insert x (set ys)"
  by (metis mset_isort_insert set_mset_mset set_mset_add_mset_insert)

lemma isort_insert_ordered:
  assumes "strict_weak_on (insert x (set ys)) lt" and "sorted_wrt (\<lambda>a b. \<not> lt a b) ys"
  shows "sorted_wrt (\<lambda>a b. \<not> lt a b) (isort_insert lt x ys)"
  using assms
proof (induction ys)
  case (Cons y ys)
  have sw: "strict_weak_on (insert x (set ys)) lt"
    using Cons.prems(1) by (rule strict_weak_on_subset) auto
  have IH: "sorted_wrt (\<lambda>a b. \<not> lt a b) (isort_insert lt x ys)"
    using Cons.IH [OF sw] Cons.prems(2) by simp
  show ?case
  proof (cases "lt x y")
    case True
    then have "\<not> lt y x" using strict_weak_asym [OF Cons.prems(1)] by simp
    with IH True Cons.prems(2) show ?thesis by (simp add: set_isort_insert)
  next
    case False
    have "\<not> lt x b" if "b \<in> set ys" for b
      using strict_weak_not_less_trans [OF Cons.prems(1), of x y b] False that Cons.prems(2)
      by simp
    with False Cons.prems(2) show ?thesis by simp
  qed
qed simp

lemma isort_loop_spec:
  assumes "strict_weak_on (set acc \<union> set xs) lt" and "sorted_wrt (\<lambda>a b. \<not> lt a b) acc"
  shows "sorted_wrt (\<lambda>a b. \<not> lt b a) (isort_loop lt acc xs)"
  using assms
proof (induction xs arbitrary: acc)
  case Nil
  then show ?case by (simp add: sorted_wrt_rev)
next
  case (Cons x xs)
  have "strict_weak_on (insert x (set acc)) lt"
    using Cons.prems(1) by (rule strict_weak_on_subset) auto
  then have "sorted_wrt (\<lambda>a b. \<not> lt a b) (isort_insert lt x acc)"
    using Cons.prems(2) by (rule isort_insert_ordered)
  with Cons.IH Cons.prems(1) show ?case by (simp add: set_isort_insert)
qed

lemma mset_isort_loop: "mset (isort_loop lt acc xs) = mset acc + mset xs"
  by (induction xs arbitrary: acc) (auto simp: mset_isort_insert)

interpretation isort: slice_sort go_isort
  by unfold_locales (simp_all add: go_isort_def mset_isort_loop isort_loop_spec)

section \<open>Ranging over a Go map\<close>

text \<open>
  \<^verbatim>\<open>for k, v := range m\<close> visits every entry once, in an unspecified order. A
  definition that ranges over a map takes the visiting order as an argument.
\<close>

locale map_range =
  fixes rng :: "'a list \<Rightarrow> 'a list"
  assumes rng_mset: "mset (rng xs) = mset xs"
begin

lemma rng_set [simp]: "set (rng xs) = set xs"
  by (metis rng_mset set_mset_mset)

lemma rng_length [simp]: "length (rng xs) = length xs"
  by (metis rng_mset size_mset)

end

text \<open>The runtime starts at a random slot of the bucket and wraps around.\<close>

definition go_range :: "nat \<Rightarrow> 'a list \<Rightarrow> 'a list" where
  "go_range start xs = rotate start xs"

interpretation ranged: map_range "go_range start"
  by unfold_locales (metis append_take_drop_id go_range_def mset_append rotate_drop_take
      union_commute)

section \<open>Keep the best so far\<close>

text \<open>
  \<^verbatim>\<open>best := xs[0]; for _, n := range xs[1:] { if better(n, best) { best = n } }\<close>
\<close>

fun best_loop :: "('a \<Rightarrow> 'a \<Rightarrow> bool) \<Rightarrow> 'a \<Rightarrow> 'a list \<Rightarrow> 'a" where
  "best_loop better b [] = b"
| "best_loop better b (n # ns) = best_loop better (if better n b then n else b) ns"

lemma best_loop_in: "best_loop better b ns \<in> insert b (set ns)"
  by (induction ns arbitrary: b) (auto split: if_splits)

lemma best_loop_unbeaten:
  assumes "strict_weak_on (insert b (set ns)) better" and "x \<in> insert b (set ns)"
  shows "\<not> better x (best_loop better b ns)"
  using assms
proof (induction ns arbitrary: b x)
  case Nil
  then show ?case by (simp add: strict_weak_on_def)
next
  case (Cons n ns)
  let ?b = "if better n b then n else b"
  have sw: "strict_weak_on (insert ?b (set ns)) better"
    using Cons.prems(1) by (rule strict_weak_on_subset) auto
  let ?r = "best_loop better ?b ns"
  have r: "?r \<in> insert b (set (n # ns))" using best_loop_in [of better ?b ns] by auto
  have b: "\<not> better ?b ?r" using Cons.IH [OF sw] by simp
  have "\<not> better n ?b \<and> \<not> better b ?b"
    using Cons.prems(1) by (auto simp: strict_weak_on_def)
  moreover have "\<not> better y ?r" if "y \<in> {n, b}" "\<not> better y ?b" for y
    by (rule strict_weak_not_less_trans [OF Cons.prems(1) _ _ r that(2) b]) (use that in auto)
  ultimately have "\<not> better n ?r" and "\<not> better b ?r" by auto
  then show ?case using Cons.IH [OF sw] Cons.prems(2) by auto
qed

end
