(* ===== verification/Go_Strings.thy ===== *)
theory Go_Strings
  imports Prelude
begin

text \<open>
  The functions of Go's packages \<^verbatim>\<open>strings\<close>, \<^verbatim>\<open>strconv\<close> and
  \<^verbatim>\<open>fmt\<close> the services use. A Go string is a sequence of bytes, here a
  \<open>char list\<close>. Case mapping and white space are those of the ASCII range; the names
  the services compare (regions, statuses, roles, host names) are ASCII.
\<close>

section \<open>Case\<close>

definition lower_char :: "char \<Rightarrow> char" where
  "lower_char c = (let n = (of_char c :: nat) in if 65 \<le> n \<and> n \<le> 90 then char_of (n + 32) else c)"

definition upper_char :: "char \<Rightarrow> char" where
  "upper_char c = (let n = (of_char c :: nat) in if 97 \<le> n \<and> n \<le> 122 then char_of (n - 32) else c)"

definition to_lower :: "string \<Rightarrow> string" where
  "to_lower s = map lower_char s"

definition to_upper :: "string \<Rightarrow> string" where
  "to_upper s = map upper_char s"

definition equal_fold :: "string \<Rightarrow> string \<Rightarrow> bool" where
  "equal_fold s t \<longleftrightarrow> to_lower s = to_lower t"

lemma lower_char_idem [simp]: "lower_char (lower_char c) = lower_char c"
proof (cases "65 \<le> (of_char c :: nat) \<and> (of_char c :: nat) \<le> 90")
  case True
  then have "(of_char (lower_char c) :: nat) = of_char c + 32"
    by (simp add: lower_char_def Let_def)
  with True show ?thesis by (simp add: lower_char_def [of "lower_char c"] Let_def)
next
  case False
  then have "lower_char c = c" by (auto simp: lower_char_def Let_def)
  then show ?thesis by simp
qed

lemma to_lower_idem [simp]: "to_lower (to_lower s) = to_lower s"
  by (simp add: to_lower_def)

lemma to_lower_Nil_iff [simp]: "to_lower s = [] \<longleftrightarrow> s = []"
  by (simp add: to_lower_def)

lemma to_lower_Nil [simp]: "to_lower [] = []"
  by (simp add: to_lower_def)

lemma equal_fold_refl [simp]: "equal_fold s s"
  by (simp add: equal_fold_def)

lemma equal_fold_sym: "equal_fold s t \<longleftrightarrow> equal_fold t s"
  by (auto simp: equal_fold_def)

lemma equal_fold_lower [simp]:
  "equal_fold (to_lower s) t \<longleftrightarrow> equal_fold s t" "equal_fold s (to_lower t) \<longleftrightarrow> equal_fold s t"
  by (simp_all add: equal_fold_def)

section \<open>Prefixes, search and splitting\<close>

fun has_prefix :: "string \<Rightarrow> string \<Rightarrow> bool" where
  "has_prefix s [] = True"
| "has_prefix [] (p # ps) = False"
| "has_prefix (c # cs) (p # ps) = (c = p \<and> has_prefix cs ps)"

lemma has_prefix_iff: "has_prefix s p \<longleftrightarrow> (\<exists>t. s = p @ t)"
  by (induction s p rule: has_prefix.induct) auto

lemma has_prefix_append [simp]: "has_prefix (p @ t) p"
  by (auto simp: has_prefix_iff)

definition trim_prefix :: "string \<Rightarrow> string \<Rightarrow> string" where
  "trim_prefix s p = (if has_prefix s p then drop (length p) s else s)"

lemma trim_prefix_append [simp]: "trim_prefix (p @ t) p = t"
  by (simp add: trim_prefix_def)

text \<open>\<open>str_cut sep s\<close> is \<^verbatim>\<open>strings.Cut\<close>: the text around the first separator.\<close>

fun str_cut :: "string \<Rightarrow> string \<Rightarrow> (string \<times> string) option" where
  "str_cut sep [] = (if sep = [] then Some ([], []) else None)"
| "str_cut sep (c # cs) =
     (if has_prefix (c # cs) sep then Some ([], drop (length sep) (c # cs))
      else map_option (\<lambda>(a, b). (c # a, b)) (str_cut sep cs))"

definition str_contains :: "string \<Rightarrow> string \<Rightarrow> bool" where
  "str_contains s sub \<longleftrightarrow> str_cut sub s \<noteq> None"

lemma str_cut_Some: "str_cut sep s = Some (a, b) \<Longrightarrow> s = a @ sep @ b"
  by (induction sep s arbitrary: a b rule: str_cut.induct)
    (auto simp: has_prefix_iff split: if_splits)

lemma str_contains_iff: "str_contains s sub \<longleftrightarrow> (\<exists>a b. s = a @ sub @ b)"
proof
  assume "str_contains s sub"
  then obtain a b where "str_cut sub s = Some (a, b)" by (auto simp: str_contains_def)
  then show "\<exists>a b. s = a @ sub @ b" by (blast dest: str_cut_Some)
next
  have "str_cut sub (a @ sub @ b) \<noteq> None" for a b
  proof (induction a)
    case Nil
    have "has_prefix (sub @ b) sub" by simp
    then show ?case by (cases "sub @ b") (auto simp del: has_prefix_append)
  qed auto
  then show "\<exists>a b. s = a @ sub @ b \<Longrightarrow> str_contains s sub" by (auto simp: str_contains_def)
qed

text \<open>\<^verbatim>\<open>strings.SplitN(s, sep, 2)\<close>.\<close>

definition split_two :: "string \<Rightarrow> string \<Rightarrow> string list" where
  "split_two s sep = (case str_cut sep s of None \<Rightarrow> [s] | Some (a, b) \<Rightarrow> [a, b])"

text \<open>\<^verbatim>\<open>strings.Split(s, sep)\<close>; an empty separator splits after every character.\<close>

function str_split :: "string \<Rightarrow> string \<Rightarrow> string list" where
  "str_split sep s =
     (if sep = [] then map (\<lambda>c. [c]) s
      else case str_cut sep s of None \<Rightarrow> [s] | Some (a, b) \<Rightarrow> a # str_split sep b)"
  by pat_completeness auto
termination
  by (relation "measure (\<lambda>(sep, s). length s)") (auto dest!: str_cut_Some)

declare str_split.simps [simp del]

lemma str_split_no_sep: "sep \<noteq> [] \<Longrightarrow> \<not> str_contains s sep \<Longrightarrow> str_split sep s = [s]"
  by (cases "str_cut sep s") (auto simp: str_split.simps [of sep s] str_contains_def)

lemma str_cut_char: "c \<notin> set a \<Longrightarrow> str_cut [c] (a @ c # b) = Some (a, b)"
  by (induction a) auto

lemma str_cut_char_None: "c \<notin> set a \<Longrightarrow> str_cut [c] a = None"
  by (induction a) auto

lemma str_split_char:
  assumes "c \<notin> set a"
  shows "str_split [c] (a @ c # b) = a # str_split [c] b" and "str_split [c] a = [a]"
  using str_cut_char [OF assms, of b] str_cut_char_None [OF assms]
  by (simp_all add: str_split.simps [of "[c]" "a @ c # b"] str_split.simps [of "[c]" a])

lemma str_split_nonempty: "sep \<noteq> [] \<Longrightarrow> str_split sep s \<noteq> []"
  by (subst str_split.simps) (auto split: option.splits)

lemma str_cut_first_char: "str_cut [c] s = Some (a, b) \<Longrightarrow> c \<notin> set a"
  by (induction "[c]" s arbitrary: a b rule: str_cut.induct) (auto split: if_splits)

text \<open>Joining the pieces with the separator gives the string back.\<close>

fun str_join :: "string \<Rightarrow> string list \<Rightarrow> string" where
  "str_join sep [] = []"
| "str_join sep [s] = s"
| "str_join sep (s # t # ts) = s @ sep @ str_join sep (t # ts)"

lemma str_join_Cons: "ts \<noteq> [] \<Longrightarrow> str_join sep (s # ts) = s @ sep @ str_join sep ts"
  by (cases ts) auto

lemma str_join_split: "sep \<noteq> [] \<Longrightarrow> str_join sep (str_split sep s) = s"
proof (induction sep s rule: str_split.induct)
  case (1 sep s)
  show ?case
  proof (cases "str_cut sep s")
    case None
    with 1 show ?thesis by (simp add: str_split.simps [of sep s])
  next
    case (Some ab)
    then obtain a b where ab: "str_cut sep s = Some (a, b)" by (cases ab) auto
    with 1 have "str_join sep (str_split sep b) = b" by auto
    moreover have "str_split sep s = a # str_split sep b"
      using ab 1(2) by (simp add: str_split.simps [of sep s])
    ultimately show ?thesis
      using 1(2) str_cut_Some [OF ab] by (simp add: str_join_Cons str_split_nonempty)
  qed
qed

section \<open>Trimming\<close>

definition is_space :: "char \<Rightarrow> bool" where
  "is_space c \<longleftrightarrow> (of_char c :: nat) \<in> {9, 10, 11, 12, 13, 32}"

definition trim_by :: "(char \<Rightarrow> bool) \<Rightarrow> string \<Rightarrow> string" where
  "trim_by p s = rev (dropWhile p (rev (dropWhile p s)))"

definition trim_space :: "string \<Rightarrow> string" where
  "trim_space s = trim_by is_space s"

text \<open>\<^verbatim>\<open>strings.Trim(s, cutset)\<close>.\<close>

definition trim_set :: "string \<Rightarrow> string \<Rightarrow> string" where
  "trim_set s cutset = trim_by (\<lambda>c. c \<in> set cutset) s"

lemma trim_by_Nil [simp]: "trim_by p [] = []"
  by (simp add: trim_by_def)

lemma trim_space_Nil [simp]: "trim_space [] = []"
  by (simp add: trim_space_def)

lemma trim_by_id:
  assumes "s \<noteq> [] \<Longrightarrow> \<not> p (hd s) \<and> \<not> p (last s)"
  shows "trim_by p s = s"
proof (cases "s = []")
  case False
  with assms have "\<not> p (hd s)" and "\<not> p (hd (rev s))" by (simp_all add: hd_rev)
  moreover have "dropWhile p xs = xs" if "\<not> p (hd xs)" for xs
    using that by (cases xs) auto
  ultimately show ?thesis by (simp add: trim_by_def)
qed simp

section \<open>Formatting\<close>

definition digit_char :: "nat \<Rightarrow> char" where
  "digit_char d = char_of (48 + d)"

fun nat_digits :: "nat \<Rightarrow> string" where
  "nat_digits n = (if n < 10 then [digit_char n] else nat_digits (n div 10) @ [digit_char (n mod 10)])"

declare nat_digits.simps [simp del]

definition itoa :: "int \<Rightarrow> string" where
  "itoa i = (if i < 0 then ''-'' @ nat_digits (nat (- i)) else nat_digits (nat i))"

text \<open>\<^verbatim>\<open>%q\<close> of an ASCII string.\<close>

definition hex_char :: "nat \<Rightarrow> char" where
  "hex_char d = (if d < 10 then char_of (48 + d) else char_of (87 + d))"

definition bslash :: char where
  "bslash = char_of (92 :: nat)"

definition dquote :: char where
  "dquote = char_of (34 :: nat)"

definition quote_char :: "char \<Rightarrow> string" where
  "quote_char c =
     (let n = (of_char c :: nat) in
      if n = 34 then [bslash, dquote] else if n = 92 then [bslash, bslash]
      else if n = 7 then [bslash, CHR ''a''] else if n = 8 then [bslash, CHR ''b'']
      else if n = 9 then [bslash, CHR ''t''] else if n = 10 then [bslash, CHR ''n'']
      else if n = 11 then [bslash, CHR ''v''] else if n = 12 then [bslash, CHR ''f'']
      else if n = 13 then [bslash, CHR ''r'']
      else if n < 32 \<or> n = 127 then [bslash, CHR ''x'', hex_char (n div 16), hex_char (n mod 16)]
      else [c])"

definition quoted :: "string \<Rightarrow> string" where
  "quoted s = [dquote] @ concat (map quote_char s) @ [dquote]"

lemma nat_digits_nonempty [simp]: "nat_digits n \<noteq> []"
  by (subst nat_digits.simps) simp

end
