(* ===== verification/Region.thy ===== *)
theory Region
  imports Prelude Go_Strings
begin

text \<open>
  \<^verbatim>\<open>services/metadata-service/region/region.go\<close>: the simulated regions, their
  latency matrix, the roll-up of node states to a region's health and the fallback order of
  the regions. Ranging over the latency row and sorting it take the visiting order and the
  sort routine as arguments.
\<close>

section \<open>Regions and their latencies\<close>

abbreviation RegionIndia :: string where "RegionIndia \<equiv> ''india''"
abbreviation RegionUSEast :: string where "RegionUSEast \<equiv> ''us-east''"
abbreviation RegionUSWest :: string where "RegionUSWest \<equiv> ''us-west''"
abbreviation RegionEurope :: string where "RegionEurope \<equiv> ''europe''"
abbreviation RegionJapan :: string where "RegionJapan \<equiv> ''japan''"

datatype region_status = StatusHealthy | StatusDegraded | StatusDown

definition SupportedRegions :: "string list" where
  "SupportedRegions = [RegionIndia, RegionUSEast, RegionUSWest, RegionEurope, RegionJapan]"

definition LatencyMatrix :: "(string \<times> (string \<times> int) list) list" where
  "LatencyMatrix =
     [(RegionIndia,
        [(RegionIndia, 0), (RegionUSEast, 180), (RegionUSWest, 220), (RegionEurope, 110), (RegionJapan, 130)]),
      (RegionUSEast,
        [(RegionIndia, 180), (RegionUSEast, 0), (RegionUSWest, 60), (RegionEurope, 90), (RegionJapan, 160)]),
      (RegionUSWest,
        [(RegionIndia, 220), (RegionUSEast, 60), (RegionUSWest, 0), (RegionEurope, 140), (RegionJapan, 110)]),
      (RegionEurope,
        [(RegionIndia, 110), (RegionUSEast, 90), (RegionUSWest, 140), (RegionEurope, 0), (RegionJapan, 210)]),
      (RegionJapan,
        [(RegionIndia, 130), (RegionUSEast, 160), (RegionUSWest, 110), (RegionEurope, 210), (RegionJapan, 0)])]"

section \<open>Rolling node states up to a region\<close>

record node_state =
  ns_id :: string
  ns_region :: string
  ns_status :: string

record region_health_info =
  ri_region :: string
  ri_status :: region_status
  ri_total :: nat
  ri_healthy :: nat
  ri_unhealthy :: nat
  ri_dead :: nat

text \<open>One iteration of the counting loop.\<close>

definition rollup_node :: "string \<Rightarrow> region_health_info \<Rightarrow> node_state \<Rightarrow> region_health_info" where
  "rollup_node region_name info n =
     (if \<not> equal_fold (ns_region n) region_name then info
      else
        let info1 = info\<lparr>ri_total := ri_total info + 1\<rparr>;
            st = to_lower (ns_status n)
        in if st = ''healthy'' then info1\<lparr>ri_healthy := ri_healthy info1 + 1\<rparr>
           else if st = ''unhealthy'' then info1\<lparr>ri_unhealthy := ri_unhealthy info1 + 1\<rparr>
           else if st = ''dead'' then info1\<lparr>ri_dead := ri_dead info1 + 1\<rparr>
           else info1\<lparr>ri_unhealthy := ri_unhealthy info1 + 1\<rparr>)"

definition RollupRegionHealth :: "string \<Rightarrow> node_state list \<Rightarrow> region_health_info" where
  "RollupRegionHealth region_name nodes =
     (let info = foldl (rollup_node region_name)
            \<lparr>ri_region = region_name, ri_status = StatusDown, ri_total = 0, ri_healthy = 0,
             ri_unhealthy = 0, ri_dead = 0\<rparr> nodes
      in if ri_total info = 0 \<or> ri_healthy info = 0 then info\<lparr>ri_status := StatusDown\<rparr>
         else if ri_unhealthy info > 0 \<or> ri_dead info > 0 then info\<lparr>ri_status := StatusDegraded\<rparr>
         else info\<lparr>ri_status := StatusHealthy\<rparr>)"

text \<open>What the counters count.\<close>

definition in_region :: "string \<Rightarrow> node_state \<Rightarrow> bool" where
  "in_region r n \<longleftrightarrow> equal_fold (ns_region n) r"

definition state_healthy :: "node_state \<Rightarrow> bool" where
  "state_healthy n \<longleftrightarrow> to_lower (ns_status n) = ''healthy''"

definition state_dead :: "node_state \<Rightarrow> bool" where
  "state_dead n \<longleftrightarrow> to_lower (ns_status n) = ''dead''"

lemma rollup_foldl_counts:
  fixes r :: string
  defines "F \<equiv> foldl (rollup_node r)"
  shows "ri_total (F info ns) = ri_total info + length (filter (in_region r) ns)"
    and "ri_healthy (F info ns) = ri_healthy info + length (filter (\<lambda>n. in_region r n \<and> state_healthy n) ns)"
    and "ri_dead (F info ns) = ri_dead info + length (filter (\<lambda>n. in_region r n \<and> state_dead n) ns)"
    and "ri_unhealthy (F info ns) =
      ri_unhealthy info + length (filter (\<lambda>n. in_region r n \<and> \<not> state_healthy n \<and> \<not> state_dead n) ns)"
    and "ri_region (F info ns) = ri_region info"
  unfolding F_def
  by (induction ns arbitrary: info)
    (auto simp: rollup_node_def Let_def in_region_def state_healthy_def state_dead_def)

lemma RollupRegionHealth_counts:
  "ri_total (RollupRegionHealth r ns) = length (filter (in_region r) ns)"
  "ri_healthy (RollupRegionHealth r ns) = length (filter (\<lambda>n. in_region r n \<and> state_healthy n) ns)"
  "ri_dead (RollupRegionHealth r ns) = length (filter (\<lambda>n. in_region r n \<and> state_dead n) ns)"
  "ri_unhealthy (RollupRegionHealth r ns) =
     length (filter (\<lambda>n. in_region r n \<and> \<not> state_healthy n \<and> \<not> state_dead n) ns)"
  "ri_region (RollupRegionHealth r ns) = r"
  by (simp_all add: RollupRegionHealth_def Let_def rollup_foldl_counts)

lemma RollupRegionHealth_status:
  "ri_status (RollupRegionHealth r ns) =
     (if ri_healthy (RollupRegionHealth r ns) = 0 then StatusDown
      else if ri_unhealthy (RollupRegionHealth r ns) > 0 \<or> ri_dead (RollupRegionHealth r ns) > 0
      then StatusDegraded else StatusHealthy)"
proof -
  let ?I = "foldl (rollup_node r) \<lparr>ri_region = r, ri_status = StatusDown, ri_total = 0, ri_healthy = 0,
             ri_unhealthy = 0, ri_dead = 0\<rparr> ns"
  have "length (filter (\<lambda>n. in_region r n \<and> state_healthy n) ns) \<le> length (filter (in_region r) ns)"
    by (induction ns) auto
  then have "ri_healthy ?I \<le> ri_total ?I" by (simp add: rollup_foldl_counts)
  then show ?thesis by (simp add: RollupRegionHealth_def Let_def)
qed

lemma length_filter_eq_0: "length (filter P xs) = 0 \<longleftrightarrow> (\<forall>x\<in>set xs. \<not> P x)"
  by (simp add: filter_empty_conv)

section \<open>The fallback order\<close>

definition GetFallbackRegions ::
  "((string \<times> int \<Rightarrow> string \<times> int \<Rightarrow> bool) \<Rightarrow> (string \<times> int) list \<Rightarrow> (string \<times> int) list) \<Rightarrow>
   ((string \<times> int) list \<Rightarrow> (string \<times> int) list) \<Rightarrow> string \<Rightarrow> string list" where
  "GetFallbackRegions srt rng preferred =
     (let pref = to_lower preferred;
          latencies = (case map_of LatencyMatrix pref of
                         None \<Rightarrow> the (map_of LatencyMatrix RegionIndia) | Some l \<Rightarrow> l);
          candidates = rng latencies
      in map fst (srt (\<lambda>a b. snd a < snd b) candidates))"

text \<open>The row a request uses, and the order the row determines.\<close>

definition fallback_row :: "string \<Rightarrow> (string \<times> int) list" where
  "fallback_row p = (case map_of LatencyMatrix p of
     None \<Rightarrow> the (map_of LatencyMatrix RegionIndia) | Some l \<Rightarrow> l)"

definition fallback_order :: "string \<Rightarrow> string list" where
  "fallback_order p = map fst (sort_key snd (fallback_row p))"

text \<open>The region the row belongs to: the preferred one when it is known, else india.\<close>

definition home_region :: "string \<Rightarrow> string" where
  "home_region p = (if p \<in> set SupportedRegions then p else RegionIndia)"

lemma fallback_row_cases:
  "fallback_row p \<in> set (map snd LatencyMatrix)"
  by (auto simp: fallback_row_def LatencyMatrix_def split: if_splits)

lemma LatencyMatrix_rows:
  assumes "row \<in> set (map snd LatencyMatrix)"
  shows "inj_on snd (set row)" and "distinct row" and "map fst row = SupportedRegions"
  using assms by (auto simp: LatencyMatrix_def SupportedRegions_def)

lemmas fallback_row_props = LatencyMatrix_rows [OF fallback_row_cases]

lemma fallback_order_home: "fallback_order p = fallback_order (home_region p)"
  by (auto simp: fallback_order_def fallback_row_def home_region_def LatencyMatrix_def SupportedRegions_def)

lemma fallback_order_table:
  "fallback_order RegionIndia = [RegionIndia, RegionEurope, RegionJapan, RegionUSEast, RegionUSWest]"
  "fallback_order RegionUSEast = [RegionUSEast, RegionUSWest, RegionEurope, RegionJapan, RegionIndia]"
  "fallback_order RegionUSWest = [RegionUSWest, RegionUSEast, RegionJapan, RegionEurope, RegionIndia]"
  "fallback_order RegionEurope = [RegionEurope, RegionUSEast, RegionIndia, RegionUSWest, RegionJapan]"
  "fallback_order RegionJapan = [RegionJapan, RegionUSWest, RegionIndia, RegionUSEast, RegionEurope]"
  by (simp_all add: fallback_order_def fallback_row_def LatencyMatrix_def)

lemma home_region_supported: "home_region p \<in> set SupportedRegions"
  by (simp add: home_region_def SupportedRegions_def)

lemma home_region_cases:
  obtains "home_region p = RegionIndia" | "home_region p = RegionUSEast" | "home_region p = RegionUSWest"
  | "home_region p = RegionEurope" | "home_region p = RegionJapan"
  using home_region_supported [of p] by (fastforce simp: SupportedRegions_def)

lemma fallback_order_props:
  "set (fallback_order p) = set SupportedRegions"
  "distinct (fallback_order p)"
  "length (fallback_order p) = 5"
  "fallback_order p = home_region p # tl (fallback_order p)"
  by (subst fallback_order_home, rule home_region_cases [of p];
      auto simp: fallback_order_table SupportedRegions_def)+

lemma fallback_order_nonempty [simp]: "fallback_order p \<noteq> []"
  using fallback_order_props(3) [of p] by auto

text \<open>Every conforming sort and every visiting order give the same list.\<close>

lemma GetFallbackRegions_eq:
  assumes "slice_sort srt" and "map_range rng"
  shows "GetFallbackRegions srt rng p = fallback_order (to_lower p)"
proof -
  let ?row = "fallback_row (to_lower p)"
  have m: "mset (rng ?row) = mset ?row" by (rule map_range.rng_mset [OF assms(2)])
  then have set: "set (rng ?row) = set ?row" by (metis set_mset_mset)
  have "srt (\<lambda>a b. snd a < snd b) (rng ?row) = sort_key snd (rng ?row)"
    by (rule slice_sort.srt_key_unique [OF assms(1)]) (simp add: set fallback_row_props(1))
  also have "\<dots> = sort_key snd ?row"
    by (rule sort_key_inj_key_eq) (simp_all add: m set fallback_row_props(1))
  finally show ?thesis
    by (simp add: GetFallbackRegions_def fallback_order_def fallback_row_def [symmetric] Let_def)
qed

section \<open>Properties\<close>

text \<open>The fallback list does not depend on the order in which the runtime visits the
  latency map nor on the (unstable) sort: every call returns all supported regions, each
  once, by increasing latency from the home region (the requested one, or india for a name
  the matrix does not know), which comes first.\<close>

theorem GetFallbackRegions_deterministic:
  assumes "slice_sort srt" and "map_range rng"
  shows "set (GetFallbackRegions srt rng p) = set SupportedRegions \<and>
     distinct (GetFallbackRegions srt rng p) \<and>
     hd (GetFallbackRegions srt rng p) = home_region (to_lower p) \<and>
     sorted (map (\<lambda>r. the (map_of (the (map_of LatencyMatrix (home_region (to_lower p)))) r))
       (GetFallbackRegions srt rng p)) \<and>
     GetFallbackRegions srt rng p = GetFallbackRegions go_isort id p"
proof -
  have id: "map_range (id :: (string \<times> int) list \<Rightarrow> _)" by unfold_locales simp
  note eq = GetFallbackRegions_eq [OF assms, of p]
    GetFallbackRegions_eq [OF isort.slice_sort_axioms id, of p]
  have "sorted (map (\<lambda>r. the (map_of (the (map_of LatencyMatrix (home_region q))) r)) (fallback_order q))" for q
    by (subst fallback_order_home, rule home_region_cases [of q])
      (simp_all add: fallback_order_table LatencyMatrix_def)
  moreover have "hd (fallback_order q) = home_region q" for q
    by (metis fallback_order_props(4) list.sel(1))
  ultimately show ?thesis by (simp add: eq fallback_order_props(1-3))
qed

theorem GetFallbackRegions_deterministic_witness:
  "GetFallbackRegions go_isort (go_range 2) ''US-West'' =
     [RegionUSWest, RegionUSEast, RegionJapan, RegionEurope, RegionIndia] \<and>
   hd (GetFallbackRegions go_isort (go_range 2) ''US-West'') = home_region (to_lower ''US-West'')"
proof -
  note c = GetFallbackRegions_deterministic [OF isort.slice_sort_axioms ranged.map_range_axioms,
    of 2 "''US-West''"]
  have "GetFallbackRegions go_isort (go_range 2) ''US-West'' =
     [RegionUSWest, RegionUSEast, RegionJapan, RegionEurope, RegionIndia]"
    by code_simp
  with c show ?thesis by simp
qed

text \<open>The roll-up counts every node of the region exactly once, and its verdict is
  exact: down iff no node of the region is healthy, healthy iff there is a node and all are
  healthy, degraded in between.\<close>

theorem RollupRegionHealth_correct:
  "ri_healthy (RollupRegionHealth r ns) + ri_unhealthy (RollupRegionHealth r ns)
     + ri_dead (RollupRegionHealth r ns) = ri_total (RollupRegionHealth r ns) \<and>
   ri_total (RollupRegionHealth r ns) = length (filter (in_region r) ns) \<and>
   (ri_status (RollupRegionHealth r ns) = StatusDown \<longleftrightarrow>
      \<not> (\<exists>n. n \<in> set ns \<and> in_region r n \<and> state_healthy n)) \<and>
   (ri_status (RollupRegionHealth r ns) = StatusHealthy \<longleftrightarrow>
      filter (in_region r) ns \<noteq> [] \<and> list_all state_healthy (filter (in_region r) ns))"
proof -
  let ?R = "RollupRegionHealth r ns"
  have sum: "ri_healthy ?R + ri_unhealthy ?R + ri_dead ?R = ri_total ?R"
    unfolding RollupRegionHealth_counts
    by (induction ns) (auto simp: state_healthy_def state_dead_def)
  have z: "ri_healthy ?R = 0 \<longleftrightarrow> \<not> (\<exists>n. n \<in> set ns \<and> in_region r n \<and> state_healthy n)"
    unfolding RollupRegionHealth_counts length_filter_eq_0 by blast
  have "ri_unhealthy ?R = 0 \<and> ri_dead ?R = 0 \<longleftrightarrow> list_all state_healthy (filter (in_region r) ns)"
    unfolding RollupRegionHealth_counts length_filter_eq_0 list_all_iff
    by (auto simp: state_healthy_def state_dead_def)
  then have h: "ri_status ?R = StatusHealthy \<longleftrightarrow>
      ri_healthy ?R \<noteq> 0 \<and> list_all state_healthy (filter (in_region r) ns)"
    unfolding RollupRegionHealth_status [of r ns] by auto
  have "ri_status ?R = StatusHealthy \<longleftrightarrow>
      filter (in_region r) ns \<noteq> [] \<and> list_all state_healthy (filter (in_region r) ns)"
    unfolding h z by (auto simp: list_all_iff filter_empty_conv)
  then show ?thesis
    using sum z by (simp add: RollupRegionHealth_status RollupRegionHealth_counts(1))
qed

end
