(* ===== verification/Router.thy ===== *)
theory Router
  imports Region
begin

text \<open>
  \<^verbatim>\<open>services/gateway/router/router.go\<close>: the choice of the region that serves a
  request, from the preferred region and the health of every region. A region missing from
  the health map counts as down.
\<close>

datatype route_error = ErrNoHealthyRegions

record route_result =
  PreferredRegion :: string
  ServedRegion :: string
  FallbackRerouted :: bool
  Reason :: string

text \<open>A region takes traffic when it is healthy or degraded.\<close>

definition serves :: "(string \<rightharpoonup> region_status) \<Rightarrow> string \<Rightarrow> bool" where
  "serves health r = (let status = (case health r of None \<Rightarrow> StatusDown | Some st \<Rightarrow> st)
     in status = StatusHealthy \<or> status = StatusDegraded)"

text \<open>The loop over the fallback list; \<open>i\<close> is the index of the head of the rest.\<close>

fun select_loop ::
  "string \<Rightarrow> (string \<rightharpoonup> region_status) \<Rightarrow> nat \<Rightarrow> string list \<Rightarrow> route_error + route_result" where
  "select_loop pref health i [] = Inl ErrNoHealthyRegions"
| "select_loop pref health i (r # rs) =
     (if serves health r then
        let rerouted = (i > 0);
            reason = (if rerouted
              then ''Preferred region '' @ quoted pref @
                   '' is DOWN; rerouted to next nearest healthy region '' @ quoted r
              else ''Routed directly to preferred region '' @ quoted pref)
        in Inr \<lparr>PreferredRegion = pref, ServedRegion = r, FallbackRerouted = rerouted, Reason = reason\<rparr>
      else select_loop pref health (Suc i) rs)"

definition SelectRegion ::
  "((string \<times> int \<Rightarrow> string \<times> int \<Rightarrow> bool) \<Rightarrow> (string \<times> int) list \<Rightarrow> (string \<times> int) list) \<Rightarrow>
   ((string \<times> int) list \<Rightarrow> (string \<times> int) list) \<Rightarrow>
   string \<Rightarrow> (string \<rightharpoonup> region_status) \<Rightarrow> route_error + route_result" where
  "SelectRegion srt rng preferred health =
     (let pref0 = to_lower preferred;
          pref = (if pref0 = [] then RegionIndia else pref0)
      in select_loop pref health 0 (GetFallbackRegions srt rng pref))"

section \<open>The loop finds the first region that serves\<close>

lemma select_loop_Inl: "select_loop pref health i rs = Inl e \<longleftrightarrow> (\<forall>r\<in>set rs. \<not> serves health r)"
  by (cases e, induction rs arbitrary: i) (auto simp: Let_def)

lemma select_loop_Inr:
  assumes "select_loop pref health i rs = Inr res"
  shows "\<exists>xs ys. rs = xs @ ServedRegion res # ys \<and> (\<forall>r\<in>set xs. \<not> serves health r) \<and>
     serves health (ServedRegion res) \<and> PreferredRegion res = pref \<and>
     (FallbackRerouted res \<longleftrightarrow> i > 0 \<or> xs \<noteq> [])"
  using assms
proof (induction rs arbitrary: i)
  case (Cons r rs)
  show ?case
  proof (cases "serves health r")
    case True
    with Cons.prems show ?thesis 
      by (intro exI [of _ "[]"] exI [of _ rs] conjI) (auto simp: Let_def)
  next
    case False
    with Cons.prems have "select_loop pref health (Suc i) rs = Inr res" by simp
    from Cons.IH [OF this] obtain xs ys where
      "rs = xs @ ServedRegion res # ys" "\<forall>r\<in>set xs. \<not> serves health r"
      "serves health (ServedRegion res)" "PreferredRegion res = pref" "FallbackRerouted res" by auto
    with False show ?thesis by (intro exI [of _ "r # xs"] exI [of _ ys]) auto
  qed
qed simp

definition effective_pref :: "string \<Rightarrow> string" where
  "effective_pref preferred = (if preferred = [] then RegionIndia else to_lower preferred)"

lemma SelectRegion_eq:
  assumes "slice_sort srt" and "map_range rng"
  shows "SelectRegion srt rng p health =
    select_loop (effective_pref p) health 0 (fallback_order (effective_pref p))"
proof -
  have "to_lower (effective_pref p) = effective_pref p"
    by (simp add: effective_pref_def) (simp add: to_lower_def lower_char_def)
  then show ?thesis
    by (simp add: SelectRegion_def GetFallbackRegions_eq [OF assms] Let_def
        flip: effective_pref_def)
qed

lemma SelectRegion_Inr:
  assumes "slice_sort srt" and "map_range rng" and "SelectRegion srt rng p health = Inr res"
  obtains xs ys where "fallback_order (effective_pref p) = xs @ ServedRegion res # ys"
    and "\<forall>r\<in>set xs. \<not> serves health r" and "serves health (ServedRegion res)"
    and "PreferredRegion res = effective_pref p" and "FallbackRerouted res \<longleftrightarrow> xs \<noteq> []"
  using select_loop_Inr [OF assms(3) [unfolded SelectRegion_eq [OF assms(1,2)]]] that by auto

section \<open>Properties\<close>

text \<open>C35. Routing is available and nearest-first: a request fails exactly when none of
  the supported regions serves; otherwise it goes to a serving region and every region
  nearer to the home region is down.\<close>

theorem SelectRegion_nearest:
  assumes "slice_sort srt" and "map_range rng"
  shows "(SelectRegion srt rng p health = Inl ErrNoHealthyRegions \<longleftrightarrow>
       (\<forall>r\<in>set SupportedRegions. \<not> serves health r)) \<and>
     (\<forall>res. SelectRegion srt rng p health = Inr res \<longrightarrow>
        ServedRegion res \<in> set SupportedRegions \<and> serves health (ServedRegion res) \<and>
        (\<exists>xs ys. fallback_order (effective_pref p) = xs @ ServedRegion res # ys \<and>
           (\<forall>r\<in>set xs. \<not> serves health r)))"
proof (intro conjI allI impI)
  show "SelectRegion srt rng p health = Inl ErrNoHealthyRegions \<longleftrightarrow>
       (\<forall>r\<in>set SupportedRegions. \<not> serves health r)"
    by (simp add: SelectRegion_eq [OF assms] select_loop_Inl fallback_order_props(1))
  fix res assume res: "SelectRegion srt rng p health = Inr res"
  obtain xs ys where *: "fallback_order (effective_pref p) = xs @ ServedRegion res # ys"
    "\<forall>r\<in>set xs. \<not> serves health r" "serves health (ServedRegion res)"
    "PreferredRegion res = effective_pref p" "FallbackRerouted res \<longleftrightarrow> xs \<noteq> []"
    using SelectRegion_Inr [OF assms res] .
  then show "\<exists>xs ys. fallback_order (effective_pref p) = xs @ ServedRegion res # ys \<and>
           (\<forall>r\<in>set xs. \<not> serves health r)" by blast
  show "serves health (ServedRegion res)" by fact
  have "ServedRegion res \<in> set (fallback_order (effective_pref p))" by (simp add: *(1))
  then show "ServedRegion res \<in> set SupportedRegions" by (simp add: fallback_order_props(1))
qed

theorem SelectRegion_nearest_witness:
  "SelectRegion go_isort (go_range 3) ''us-east'' [''us-east'' \<mapsto> StatusDown, ''japan'' \<mapsto> StatusHealthy, ''us-west'' \<mapsto> StatusDegraded]
     = Inr \<lparr>PreferredRegion = ''us-east'', ServedRegion = ''us-west'', FallbackRerouted = True,
         Reason = ''Preferred region '' @ quoted ''us-east'' @
           '' is DOWN; rerouted to next nearest healthy region '' @ quoted ''us-west''\<rparr> \<and>
   serves [''us-east'' \<mapsto> StatusDown, ''japan'' \<mapsto> StatusHealthy, ''us-west'' \<mapsto> StatusDegraded] ''us-west''"
proof -
  let ?h = "[''us-east'' \<mapsto> StatusDown, ''japan'' \<mapsto> StatusHealthy, ''us-west'' \<mapsto> StatusDegraded]"
  note c = SelectRegion_nearest [OF isort.slice_sort_axioms ranged.map_range_axioms, of 3 "''us-east''" ?h]
  have e: "effective_pref ''us-east'' = ''us-east''" by code_simp
  have eq: "SelectRegion go_isort (go_range 3) ''us-east'' ?h
     = Inr \<lparr>PreferredRegion = ''us-east'', ServedRegion = ''us-west'', FallbackRerouted = True,
         Reason = ''Preferred region '' @ quoted ''us-east'' @
           '' is DOWN; rerouted to next nearest healthy region '' @ quoted ''us-west''\<rparr>"
    by (simp add: SelectRegion_eq [OF isort.slice_sort_axioms ranged.map_range_axioms] e
        fallback_order_table serves_def)
  moreover have "serves ?h ''us-west''"
    using conjunct2 [OF c, rule_format, OF eq] by simp
  ultimately show ?thesis by blast
qed

text \<open>For a region the matrix knows, the result says it was rerouted exactly when
  another region than the preferred one serves the request, and that happens only when the
  preferred region does not serve.\<close>

theorem SelectRegion_rerouted_iff:
  assumes "slice_sort srt" and "map_range rng" and "SelectRegion srt rng p health = Inr res"
    and "effective_pref p \<in> set SupportedRegions"
  shows "PreferredRegion res = effective_pref p \<and>
     (FallbackRerouted res \<longleftrightarrow> ServedRegion res \<noteq> PreferredRegion res) \<and>
     (FallbackRerouted res \<longleftrightarrow> \<not> serves health (PreferredRegion res))"
proof -
  obtain xs ys where *: "fallback_order (effective_pref p) = xs @ ServedRegion res # ys"
    "\<forall>r\<in>set xs. \<not> serves health r" "serves health (ServedRegion res)"
    "PreferredRegion res = effective_pref p" "FallbackRerouted res \<longleftrightarrow> xs \<noteq> []"
    using SelectRegion_Inr [OF assms(1-3)] .
  have hd: "fallback_order (effective_pref p) = effective_pref p # tl (fallback_order (effective_pref p))"
    using fallback_order_props(4) [of "effective_pref p"] assms(4) by (simp add: home_region_def)
  have d: "distinct (fallback_order (effective_pref p))" by (rule fallback_order_props(2))
  show ?thesis
  proof (cases xs)
    case Nil
    with * hd show ?thesis by (metis append_Nil list.inject)
  next
    case (Cons x xs')
    with hd *(1) have "x = effective_pref p" by (metis append_Cons list.inject)
    with Cons * d show ?thesis by auto
  qed
qed

theorem SelectRegion_rerouted_iff_witness:
  "\<exists>res. SelectRegion go_isort (go_range 1) ''Europe'' [''india'' \<mapsto> StatusHealthy] = Inr res \<and>
     FallbackRerouted res \<and> ServedRegion res = ''india'' \<and> PreferredRegion res = ''europe''"
proof -
  let ?h = "[''india'' \<mapsto> StatusHealthy]"
  have e: "effective_pref ''Europe'' = ''europe''" by code_simp
  obtain res where res: "SelectRegion go_isort (go_range 1) ''Europe'' ?h = Inr res"
    and s: "ServedRegion res = ''india''"
    by (simp add: SelectRegion_eq [OF isort.slice_sort_axioms ranged.map_range_axioms] e
        fallback_order_table serves_def)
  have m: "effective_pref ''Europe'' \<in> set SupportedRegions" by (simp add: e SupportedRegions_def)
  have "PreferredRegion res = ''europe'' \<and> FallbackRerouted res"
    using SelectRegion_rerouted_iff [OF isort.slice_sort_axioms ranged.map_range_axioms res m] s e
    by simp
  with res s show ?thesis by blast
qed

text \<open>For a region the matrix does not know, the flag and the reason are wrong: a
  healthy india serves the request, yet the result claims a direct route to the requested
  region.\<close>

theorem SelectRegion_unknown_region:
  "SelectRegion go_isort (go_range k) ''mars'' [''india'' \<mapsto> StatusHealthy] =
     Inr \<lparr>PreferredRegion = ''mars'', ServedRegion = ''india'', FallbackRerouted = False,
        Reason = ''Routed directly to preferred region '' @ quoted ''mars''\<rparr>"
proof -
  have e: "effective_pref ''mars'' = ''mars''" by code_simp
  have "fallback_order ''mars'' = fallback_order RegionIndia"
    by (subst fallback_order_home) (simp add: home_region_def SupportedRegions_def)
  then show ?thesis
    by (simp add: SelectRegion_eq [OF isort.slice_sort_axioms ranged.map_range_axioms] e
        fallback_order_table serves_def)
qed

end
