(* ===== verification/Election.thy ===== *)
theory Election
  imports Region
begin

text \<open>
  \<^verbatim>\<open>services/control-plane/election/election.go\<close>: the choice of the follower that
  is promoted when the leader's region fails. Log sequence numbers are 64-bit unsigned.
\<close>

type_synonym lsn = "64 word"

datatype election_error = ErrNoEligibleFollower

record follower_candidate =
  fc_region :: string
  fc_node :: string
  fc_lsn :: lsn

record election_result =
  ElectedLeaderRegion :: string
  ElectedNodeID :: string
  AppliedLSN :: lsn
  ElectionReason :: string

definition RegionPriority :: "(string \<times> nat) list" where
  "RegionPriority = [(RegionIndia, 1), (RegionUSEast, 2), (RegionUSWest, 3), (RegionEurope, 4), (RegionJapan, 5)]"

text \<open>The priority as the comparison uses it: a region missing from the map reads 0,
  which is replaced by 99.\<close>

definition priority_of :: "string \<Rightarrow> nat" where
  "priority_of r =
     (let p = (case map_of RegionPriority (to_lower r) of None \<Rightarrow> 0 | Some n \<Rightarrow> n)
      in if p = 0 then 99 else p)"

definition candidate_eligible :: "(string \<rightharpoonup> region_status) \<Rightarrow> follower_candidate \<Rightarrow> bool" where
  "candidate_eligible health c =
     (let status = (case health (to_lower (fc_region c)) of None \<Rightarrow> StatusDown | Some st \<Rightarrow> st)
      in status = StatusHealthy \<or> status = StatusDegraded)"

definition election_less :: "follower_candidate \<Rightarrow> follower_candidate \<Rightarrow> bool" where
  "election_less a b =
     (if fc_lsn a \<noteq> fc_lsn b then fc_lsn a > fc_lsn b
      else priority_of (fc_region a) < priority_of (fc_region b))"

definition ElectNewLeaderRegion ::
  "((follower_candidate \<Rightarrow> follower_candidate \<Rightarrow> bool) \<Rightarrow> follower_candidate list \<Rightarrow> follower_candidate list) \<Rightarrow>
   follower_candidate list \<Rightarrow> (string \<rightharpoonup> region_status) \<Rightarrow> election_error + election_result" where
  "ElectNewLeaderRegion srt candidates health =
     (let eligible = filter (candidate_eligible health) candidates
      in if length eligible = 0 then Inl ErrNoEligibleFollower
         else
           let best = hd (srt election_less eligible)
           in Inr \<lparr>ElectedLeaderRegion = to_lower (fc_region best), ElectedNodeID = fc_node best,
                AppliedLSN = fc_lsn best,
                ElectionReason = ''Promoted candidate with highest LSN and region priority tie-breaker''\<rparr>)"

section \<open>The comparison\<close>

lemma election_less_strict_weak: "strict_weak_on A election_less"
  by (rule strict_weak_onI) (auto simp: election_less_def split: if_splits)

lemma not_election_less:
  "\<not> election_less x b \<longleftrightarrow>
     fc_lsn x < fc_lsn b \<or> fc_lsn x = fc_lsn b \<and> priority_of (fc_region b) \<le> priority_of (fc_region x)"
  by (auto simp: election_less_def)

text \<open>The winner of an election, characterised without the sort.\<close>

definition wins_election :: "(string \<rightharpoonup> region_status) \<Rightarrow> follower_candidate list \<Rightarrow> follower_candidate \<Rightarrow> bool" where
  "wins_election health cs b \<longleftrightarrow> b \<in> set cs \<and> candidate_eligible health b \<and>
     (\<forall>c\<in>set cs. candidate_eligible health c \<longrightarrow> \<not> election_less c b)"

lemma Elect_Inr:
  assumes "slice_sort srt" and "ElectNewLeaderRegion srt cs health = Inr res"
  obtains b where "wins_election health cs b" and "ElectedLeaderRegion res = to_lower (fc_region b)"
    and "ElectedNodeID res = fc_node b" and "AppliedLSN res = fc_lsn b"
proof -
  let ?el = "filter (candidate_eligible health) cs"
  let ?b = "hd (srt election_less ?el)"
  have ne: "?el \<noteq> []" using assms(2) by (auto simp: ElectNewLeaderRegion_def Let_def split: if_splits)
  have "?b \<in> set ?el" and "\<not> election_less c ?b" if "c \<in> set ?el" for c
    using slice_sort.srt_hd [OF assms(1) election_less_strict_weak ne] that ne
    by (blast intro: hd_in_set)+
  then have "wins_election health cs ?b"
    using ne hd_in_set [OF ne] by (auto simp: wins_election_def)
  moreover have "ElectedLeaderRegion res = to_lower (fc_region ?b)" "ElectedNodeID res = fc_node ?b"
    "AppliedLSN res = fc_lsn ?b"
    using assms(2) ne by (auto simp: ElectNewLeaderRegion_def Let_def)
  ultimately show thesis by (rule that)
qed

lemma Elect_Inl_iff:
  "ElectNewLeaderRegion srt cs health = Inl e \<longleftrightarrow> (\<forall>c\<in>set cs. \<not> candidate_eligible health c)"
  by (cases e) (auto simp: ElectNewLeaderRegion_def Let_def filter_empty_conv)

lemma Elect_eligible_Inr:
  "c \<in> set cs \<Longrightarrow> candidate_eligible health c \<Longrightarrow> \<exists>res. ElectNewLeaderRegion srt cs health = Inr res"
  using Elect_Inl_iff [of srt cs health] by (cases "ElectNewLeaderRegion srt cs health") auto

section \<open>Properties\<close>

text \<open>C37. The promoted follower is a candidate of a serving region, no candidate of a
  serving region has applied more of the log, and among those that applied as much its
  region has the best priority; the election fails only when no candidate is eligible.\<close>

theorem ElectNewLeaderRegion_best:
  assumes "slice_sort srt"
  shows "(ElectNewLeaderRegion srt cs health = Inl ErrNoEligibleFollower \<longleftrightarrow>
       (\<forall>c\<in>set cs. \<not> candidate_eligible health c)) \<and>
     (\<forall>res. ElectNewLeaderRegion srt cs health = Inr res \<longrightarrow>
        (\<exists>b\<in>set cs. candidate_eligible health b \<and> ElectedNodeID res = fc_node b \<and>
           ElectedLeaderRegion res = to_lower (fc_region b) \<and> AppliedLSN res = fc_lsn b \<and>
           (\<forall>c\<in>set cs. candidate_eligible health c \<longrightarrow>
              fc_lsn c < fc_lsn b \<or>
              fc_lsn c = fc_lsn b \<and> priority_of (fc_region b) \<le> priority_of (fc_region c))))"
proof (intro conjI allI impI)
  show "ElectNewLeaderRegion srt cs health = Inl ErrNoEligibleFollower \<longleftrightarrow>
       (\<forall>c\<in>set cs. \<not> candidate_eligible health c)" by (rule Elect_Inl_iff)
  fix res assume "ElectNewLeaderRegion srt cs health = Inr res"
  from Elect_Inr [OF assms this] obtain b where
    "wins_election health cs b" "ElectedLeaderRegion res = to_lower (fc_region b)"
    "ElectedNodeID res = fc_node b" "AppliedLSN res = fc_lsn b" .
  then show "\<exists>b\<in>set cs. candidate_eligible health b \<and> ElectedNodeID res = fc_node b \<and>
           ElectedLeaderRegion res = to_lower (fc_region b) \<and> AppliedLSN res = fc_lsn b \<and>
           (\<forall>c\<in>set cs. candidate_eligible health c \<longrightarrow>
              fc_lsn c < fc_lsn b \<or>
              fc_lsn c = fc_lsn b \<and> priority_of (fc_region b) \<le> priority_of (fc_region c))"
    unfolding wins_election_def not_election_less by blast
qed

theorem ElectNewLeaderRegion_best_witness:
  "\<exists>res. ElectNewLeaderRegion go_isort
      [\<lparr>fc_region = ''Japan'', fc_node = ''n1'', fc_lsn = 7\<rparr>, \<lparr>fc_region = ''us-west'', fc_node = ''n2'', fc_lsn = 7\<rparr>,
       \<lparr>fc_region = ''india'', fc_node = ''n3'', fc_lsn = 9\<rparr>]
      [''japan'' \<mapsto> StatusHealthy, ''us-west'' \<mapsto> StatusDegraded, ''india'' \<mapsto> StatusDown] = Inr res \<and>
    ElectedNodeID res = ''n2''"
proof -
  let ?cs = "[\<lparr>fc_region = ''Japan'', fc_node = ''n1'', fc_lsn = 7\<rparr>, \<lparr>fc_region = ''us-west'', fc_node = ''n2'', fc_lsn = 7\<rparr>,
       \<lparr>fc_region = ''india'', fc_node = ''n3'', fc_lsn = 9\<rparr>] :: follower_candidate list"
  let ?h = "[''japan'' \<mapsto> StatusHealthy, ''us-west'' \<mapsto> StatusDegraded, ''india'' \<mapsto> StatusDown]"
  have low: "to_lower ''Japan'' = ''japan''" "to_lower ''us-west'' = ''us-west''" "to_lower ''india'' = ''india''"
    by code_simp+
  let ?c1 = "?cs ! 0" and ?c2 = "?cs ! 1" and ?c3 = "?cs ! 2"
  have e: "candidate_eligible ?h ?c1" "candidate_eligible ?h ?c2" "\<not> candidate_eligible ?h ?c3"
    using low by (simp_all add: candidate_eligible_def Let_def)
  have p: "priority_of ''us-west'' = 3" "priority_of ''Japan'' = 5" by code_simp+
  obtain res where res: "ElectNewLeaderRegion go_isort ?cs ?h = Inr res"
    using Elect_eligible_Inr [OF _ e(1), of ?cs go_isort] by auto
  from conjunct2 [OF ElectNewLeaderRegion_best [OF isort.slice_sort_axioms], THEN spec, THEN mp, OF res]
  obtain b where b: "b \<in> set ?cs" "candidate_eligible ?h b" "ElectedNodeID res = fc_node b" and
    best: "\<forall>c\<in>set ?cs. candidate_eligible ?h c \<longrightarrow> fc_lsn c < fc_lsn b \<or>
        fc_lsn c = fc_lsn b \<and> priority_of (fc_region b) \<le> priority_of (fc_region c)"
    by (elim bexE conjE)
  have "?c2 \<in> set ?cs" by simp
  with best e(2) have "fc_lsn ?c2 < fc_lsn b \<or>
      fc_lsn ?c2 = fc_lsn b \<and> priority_of (fc_region b) \<le> priority_of (fc_region ?c2)" by blast
  then have "b \<noteq> ?c1" by (auto simp: p)
  moreover have "b \<noteq> ?c3" using b(2) e(3) by blast
  ultimately have "b = ?c2" using b(1) by simp
  with res b(3) show ?thesis by auto
qed

text \<open>The election is deterministic, whatever the sort routine and the order in which
  the followers are listed, as soon as no two eligible followers share both log position
  and region priority.\<close>

theorem ElectNewLeaderRegion_deterministic:
  assumes "slice_sort srt1" and "slice_sort srt2" and "mset cs1 = mset cs2"
    and "inj_on (\<lambda>c. (fc_lsn c, priority_of (fc_region c))) {c \<in> set cs1. candidate_eligible health c}"
  shows "ElectNewLeaderRegion srt1 cs1 health = ElectNewLeaderRegion srt2 cs2 health"
proof -
  let ?W = "wins_election health"
  have set: "set cs1 = set cs2" using assms(3) by (metis set_mset_mset)
  then have W: "?W cs1 = ?W cs2" by (auto simp: wins_election_def fun_eq_iff)
  have uniq: "b = c" if "?W cs1 b" "?W cs1 c" for b c
  proof -
    have "\<not> election_less b c" "\<not> election_less c b" using that by (auto simp: wins_election_def)
    then have "(fc_lsn b, priority_of (fc_region b)) = (fc_lsn c, priority_of (fc_region c))"
      by (auto simp: not_election_less)
    then show "b = c" using that assms(4) by (auto simp: wins_election_def dest: inj_onD)
  qed
  show ?thesis
  proof (cases "ElectNewLeaderRegion srt1 cs1 health")
    case (Inl e)
    then have "ElectNewLeaderRegion srt2 cs2 health = Inl e" by (simp add: Elect_Inl_iff set)
    with Inl show ?thesis by simp
  next
    case (Inr r1)
    then obtain r2 where r2: "ElectNewLeaderRegion srt2 cs2 health = Inr r2"
      by (cases "ElectNewLeaderRegion srt2 cs2 health")
        (metis Elect_Inl_iff set sum.distinct(1), blast)
    from Elect_Inr [OF assms(1) Inr] obtain b where b: "?W cs1 b" "ElectedLeaderRegion r1 = to_lower (fc_region b)"
      "ElectedNodeID r1 = fc_node b" "AppliedLSN r1 = fc_lsn b" .
    from Elect_Inr [OF assms(2) r2] obtain c where c: "?W cs2 c" "ElectedLeaderRegion r2 = to_lower (fc_region c)"
      "ElectedNodeID r2 = fc_node c" "AppliedLSN r2 = fc_lsn c" .
    have "b = c" using uniq b(1) c(1) W by simp
    moreover have "ElectionReason r1 = ElectionReason r2"
      using Inr r2 by (auto simp: ElectNewLeaderRegion_def Let_def split: if_splits)
    ultimately have "r1 = r2" using b c by (intro election_result.equality) auto
    with Inr r2 show ?thesis by simp
  qed
qed

theorem ElectNewLeaderRegion_deterministic_witness:
  "ElectNewLeaderRegion go_isort
      [\<lparr>fc_region = ''japan'', fc_node = ''a'', fc_lsn = 5\<rparr>, \<lparr>fc_region = ''europe'', fc_node = ''b'', fc_lsn = 5\<rparr>]
      [''japan'' \<mapsto> StatusHealthy, ''europe'' \<mapsto> StatusHealthy] =
   ElectNewLeaderRegion go_isort
      [\<lparr>fc_region = ''europe'', fc_node = ''b'', fc_lsn = 5\<rparr>, \<lparr>fc_region = ''japan'', fc_node = ''a'', fc_lsn = 5\<rparr>]
      [''japan'' \<mapsto> StatusHealthy, ''europe'' \<mapsto> StatusHealthy]"
proof (rule ElectNewLeaderRegion_deterministic [OF isort.slice_sort_axioms isort.slice_sort_axioms])
  have p: "priority_of ''japan'' = 5" "priority_of ''europe'' = 4" by code_simp+
  let ?cs = "[\<lparr>fc_region = ''japan'', fc_node = ''a'', fc_lsn = 5\<rparr>,
      \<lparr>fc_region = ''europe'', fc_node = ''b'', fc_lsn = 5\<rparr>] :: follower_candidate list"
  have "inj_on (\<lambda>c. (fc_lsn c, priority_of (fc_region c))) (set ?cs)"
    by (simp add: p)
  then show "inj_on (\<lambda>c. (fc_lsn c, priority_of (fc_region c))) {c \<in> set ?cs. candidate_eligible
     [''japan'' \<mapsto> StatusHealthy, ''europe'' \<mapsto> StatusHealthy] c}"
    by (rule inj_on_subset) auto
qed simp

end
