(* ===== verification/Go_Float.thy ===== *)
theory Go_Float
  imports Prelude Complex_Main
begin

text \<open>
  IEEE 754 arithmetic of Go's \<^verbatim>\<open>float32\<close> and \<^verbatim>\<open>float64\<close>, executable
  over the rationals. A value is a finite rational, an infinity or NaN; every operation
  rounds its exact result to nearest, ties to even, in its own format, as the language
  prescribes when operations are not fused. The sign of zero is not represented: the only
  operation that could observe it is a division by zero, and a zero divisor is taken as
  positive, which is the only zero the services divide by.
\<close>

datatype go_float = Fin rat | PInf | NInf | NaN

section \<open>Rounding\<close>

text \<open>Round to the nearest integer, ties to even.\<close>

definition round_even :: "rat \<Rightarrow> int" where
  "round_even x =
     (let f = \<lfloor>x\<rfloor>; d = x - of_int f in
      if d < 1/2 then f else if d > 1/2 then f + 1 else if even f then f else f + 1)"

definition pow2 :: "int \<Rightarrow> rat" where
  "pow2 e = (if 0 \<le> e then 2 ^ nat e else 1 / 2 ^ nat (- e))"

text \<open>\<open>int_log2 n\<close> is the position of the leading bit of a positive \<open>n\<close>.\<close>

function int_log2 :: "int \<Rightarrow> int" where
  "int_log2 n = (if n \<le> 1 then 0 else 1 + int_log2 (n div 2))"
  by pat_completeness auto
termination
  by (relation "measure nat") auto

declare int_log2.simps [simp del]

text \<open>The binary exponent of a positive rational.\<close>

definition rat_log2 :: "rat \<Rightarrow> int" where
  "rat_log2 x =
     (let (n, d) = quotient_of x;
          k = int_log2 n - int_log2 d
      in if pow2 k \<le> x then k else k - 1)"

text \<open>
  A format: precision in bits, exponent of the least positive value, and exponent of the
  first power of two that is out of range.
\<close>

record float_format =
  prec :: nat
  emin :: int
  emax :: int

definition ulp_exp :: "float_format \<Rightarrow> rat \<Rightarrow> int" where
  "ulp_exp F x = max (rat_log2 \<bar>x\<bar> - (int (prec F) - 1)) (emin F)"

definition round_rat :: "float_format \<Rightarrow> rat \<Rightarrow> rat" where
  "round_rat F x =
     (if x = 0 then 0
      else let u = pow2 (ulp_exp F x) in of_int (round_even (x / u)) * u)"

definition fround :: "float_format \<Rightarrow> rat \<Rightarrow> go_float" where
  "fround F x =
     (let r = round_rat F x in
      if pow2 (emax F) \<le> r then PInf else if r \<le> - pow2 (emax F) then NInf else Fin r)"

definition F32 :: float_format where
  "F32 = \<lparr>prec = 24, emin = -149, emax = 128\<rparr>"

definition F64 :: float_format where
  "F64 = \<lparr>prec = 53, emin = -1074, emax = 1024\<rparr>"

section \<open>Operations\<close>

fun fneg :: "go_float \<Rightarrow> go_float" where
  "fneg (Fin a) = Fin (- a)"
| "fneg PInf = NInf"
| "fneg NInf = PInf"
| "fneg NaN = NaN"

fun fadd :: "float_format \<Rightarrow> go_float \<Rightarrow> go_float \<Rightarrow> go_float" where
  "fadd F (Fin a) (Fin b) = fround F (a + b)"
| "fadd F NaN _ = NaN"
| "fadd F _ NaN = NaN"
| "fadd F PInf NInf = NaN"
| "fadd F NInf PInf = NaN"
| "fadd F PInf _ = PInf"
| "fadd F _ PInf = PInf"
| "fadd F NInf _ = NInf"
| "fadd F _ NInf = NInf"

definition fsub :: "float_format \<Rightarrow> go_float \<Rightarrow> go_float \<Rightarrow> go_float" where
  "fsub F x y = fadd F x (fneg y)"

text \<open>An infinity with the sign of a nonzero rational.\<close>

definition inf_sgn :: "rat \<Rightarrow> go_float" where
  "inf_sgn a = (if 0 < a then PInf else if a < 0 then NInf else NaN)"

fun fmul :: "float_format \<Rightarrow> go_float \<Rightarrow> go_float \<Rightarrow> go_float" where
  "fmul F (Fin a) (Fin b) = fround F (a * b)"
| "fmul F NaN _ = NaN"
| "fmul F _ NaN = NaN"
| "fmul F PInf PInf = PInf"
| "fmul F NInf NInf = PInf"
| "fmul F PInf NInf = NInf"
| "fmul F NInf PInf = NInf"
| "fmul F PInf (Fin b) = inf_sgn b"
| "fmul F (Fin a) PInf = inf_sgn a"
| "fmul F NInf (Fin b) = inf_sgn (- b)"
| "fmul F (Fin a) NInf = inf_sgn (- a)"

fun fdiv :: "float_format \<Rightarrow> go_float \<Rightarrow> go_float \<Rightarrow> go_float" where
  "fdiv F (Fin a) (Fin b) = (if b = 0 then inf_sgn a else fround F (a / b))"
| "fdiv F NaN _ = NaN"
| "fdiv F _ NaN = NaN"
| "fdiv F (Fin a) _ = Fin 0"
| "fdiv F PInf (Fin b) = (if b < 0 then NInf else PInf)"
| "fdiv F NInf (Fin b) = (if b < 0 then PInf else NInf)"
| "fdiv F _ _ = NaN"

text \<open>Comparisons; each is false on NaN.\<close>

fun flt :: "go_float \<Rightarrow> go_float \<Rightarrow> bool" where
  "flt (Fin a) (Fin b) = (a < b)"
| "flt NaN _ = False"
| "flt _ NaN = False"
| "flt NInf NInf = False"
| "flt NInf _ = True"
| "flt PInf _ = False"
| "flt (Fin a) PInf = True"
| "flt (Fin a) NInf = False"

fun feq :: "go_float \<Rightarrow> go_float \<Rightarrow> bool" where
  "feq NaN _ = False"
| "feq x y = (x = y)"

definition fle :: "go_float \<Rightarrow> go_float \<Rightarrow> bool" where
  "fle x y \<longleftrightarrow> flt x y \<or> feq x y"

text \<open>Conversion between formats and from an integer.\<close>

fun fconv :: "float_format \<Rightarrow> go_float \<Rightarrow> go_float" where
  "fconv F (Fin a) = fround F a"
| "fconv F x = x"

definition of_int_f :: "float_format \<Rightarrow> int \<Rightarrow> go_float" where
  "of_int_f F i = fround F (of_int i)"

text \<open>
  Square root, correctly rounded: the integer root of the scaled argument has at least two
  bits more than the format keeps, and a last bit records whether the root is inexact.
\<close>

fun isqrt_rem :: "int \<Rightarrow> int \<times> int" where
  "isqrt_rem n =
     (if n \<le> 0 then (0, 0)
      else case isqrt_rem (n div 4) of (q, rem) \<Rightarrow>
        (let rem' = 4 * rem + n mod 4; t = 4 * q + 1
         in if t \<le> rem' then (2 * q + 1, rem' - t) else (2 * q, rem')))"

declare isqrt_rem.simps [simp del]

definition sqrt_sticky :: "rat \<Rightarrow> int \<Rightarrow> rat" where
  "sqrt_sticky x k =
     (let y = x * pow2 (2 * k)
      in case isqrt_rem \<lfloor>y\<rfloor> of (m, rem) \<Rightarrow>
        (if rem = 0 \<and> of_int \<lfloor>y\<rfloor> = y then of_int m else of_int m + 1 / 2) / pow2 k)"

fun fsqrt :: "float_format \<Rightarrow> go_float \<Rightarrow> go_float" where
  "fsqrt F (Fin x) =
     (if x < 0 then NaN else if x = 0 then Fin 0
      else fround F (sqrt_sticky x (int (prec F) + 2 - rat_log2 x div 2)))"
| "fsqrt F PInf = PInf"
| "fsqrt F NInf = NaN"
| "fsqrt F NaN = NaN"

section \<open>Powers of two and binary exponents\<close>

lemma pow2_powi: "pow2 e = 2 powi e"
  by (simp add: pow2_def power_int_def divide_simps power_inverse)

lemma pow2_pos [simp]: "0 < pow2 e"
  by (simp add: pow2_powi)

lemma pow2_nonzero [simp]: "pow2 e \<noteq> 0"
  using pow2_pos [of e] by linarith

lemma pow2_add: "pow2 (a + b) = pow2 a * pow2 b"
  by (simp add: pow2_powi power_int_add)

lemma pow2_diff: "pow2 (a - b) = pow2 a / pow2 b"
  by (simp add: pow2_powi power_int_diff)

lemma pow2_mono: "a \<le> b \<Longrightarrow> pow2 a \<le> pow2 b"
  by (simp add: pow2_powi power_int_increasing)

lemma pow2_strict_mono: "a < b \<Longrightarrow> pow2 a < pow2 b"
  by (simp add: pow2_powi power_int_strict_increasing)

lemma pow2_less_iff: "pow2 a < pow2 b \<longleftrightarrow> a < b"
  by (metis not_less pow2_mono pow2_strict_mono)

lemma pow2_of_nat: "pow2 (int n) = of_int (2 ^ n)"
  by (simp add: pow2_def)

lemma int_log2_bounds: "0 < n \<Longrightarrow> 0 \<le> int_log2 n \<and> 2 ^ nat (int_log2 n) \<le> n \<and> n < 2 ^ Suc (nat (int_log2 n))"
proof (induction n rule: int_log2.induct)
  case (1 n)
  show ?case
  proof (cases "n \<le> 1")
    case True
    with "1.prems" have "n = 1" by simp
    then show ?thesis by (simp add: int_log2.simps [of 1])
  next
    case False
    with "1.IH" have IH: "0 \<le> int_log2 (n div 2)" "2 ^ nat (int_log2 (n div 2)) \<le> n div 2"
      "n div 2 < 2 ^ Suc (nat (int_log2 (n div 2)))" by auto
    moreover have "int_log2 n = 1 + int_log2 (n div 2)" using False by (subst int_log2.simps) simp
    moreover have "nat (1 + int_log2 (n div 2)) = Suc (nat (int_log2 (n div 2)))" using IH(1) by simp
    moreover have "n = 2 * (n div 2) + n mod 2" and "0 \<le> n mod 2" and "n mod 2 < 2" by simp_all
    ultimately show ?thesis by auto linarith+
  qed
qed

lemma rat_of_int_log2_bounds:
  assumes "0 < n"
  shows "pow2 (int_log2 n) \<le> of_int n" and "of_int n < pow2 (int_log2 n + 1)"
proof -
  let ?a = "int_log2 n"
  have b: "0 \<le> ?a" "2 ^ nat ?a \<le> n" "n < 2 ^ Suc (nat ?a)" using int_log2_bounds [OF assms] by auto
  then have "(of_int (2 ^ nat ?a) :: rat) \<le> of_int n" and "(of_int n :: rat) < of_int (2 ^ Suc (nat ?a))"
    by (simp_all only: of_int_le_iff of_int_less_iff)
  then show "pow2 ?a \<le> of_int n" and "of_int n < pow2 (?a + 1)"
    using b(1) by (simp_all add: pow2_def nat_add_distrib)
qed

lemma rat_log2_bounds:
  assumes "0 < x"
  shows "pow2 (rat_log2 x) \<le> x" and "x < pow2 (rat_log2 x + 1)"
proof -
  obtain n d where nd: "quotient_of x = (n, d)" by (cases "quotient_of x")
  then have d: "0 < d" by (rule quotient_of_denom_pos)
  have x: "x = of_int n / of_int d" using nd by (rule quotient_of_div)
  with assms d have n: "0 < n" by (simp add: zero_less_divide_iff)
  let ?a = "int_log2 n" and ?b = "int_log2 d"
  let ?k = "?a - ?b"
  note N = rat_of_int_log2_bounds [OF n] and D = rat_of_int_log2_bounds [OF d]
  have "x < pow2 (?a + 1) / pow2 ?b"
    unfolding x by (rule frac_less [OF _ N(2) _ D(1)]) (use n in auto)
  then have up: "x < pow2 (?k + 1)"
    by (simp add: pow2_diff [symmetric] algebra_simps)
  have "pow2 ?a / pow2 (?b + 1) \<le> x"
    unfolding x by (rule frac_le [OF _ N(1) _ less_imp_le [OF D(2)]]) (use n d in auto)
  then have lo: "pow2 (?k - 1) \<le> x"
    by (simp add: pow2_diff [symmetric] algebra_simps)
  have r: "rat_log2 x = (if pow2 ?k \<le> x then ?k else ?k - 1)"
    by (simp add: rat_log2_def nd Let_def)
  show "pow2 (rat_log2 x) \<le> x" using lo by (simp add: r)
  show "x < pow2 (rat_log2 x + 1)" using up by (auto simp: r)
qed

lemma rat_log2_unique:
  assumes "0 < x" and "pow2 k \<le> x" and "x < pow2 (k + 1)"
  shows "rat_log2 x = k"
proof -
  have "pow2 k < pow2 (rat_log2 x + 1)" and "pow2 (rat_log2 x) < pow2 (k + 1)"
    using assms rat_log2_bounds [OF assms(1)] by linarith+
  then show ?thesis by (simp add: pow2_less_iff)
qed

lemma rat_log2_less_iff:
  assumes "0 < x"
  shows "rat_log2 x < k \<longleftrightarrow> x < pow2 k"
proof
  assume "rat_log2 x < k"
  then have "pow2 (rat_log2 x + 1) \<le> pow2 k" by (simp add: pow2_mono)
  then show "x < pow2 k" using rat_log2_bounds(2) [OF assms] by linarith
next
  assume "x < pow2 k"
  then have "pow2 (rat_log2 x) < pow2 k" using rat_log2_bounds(1) [OF assms] by linarith
  then show "rat_log2 x < k" by (simp add: pow2_less_iff)
qed

lemma rat_log2_mono:
  assumes "0 < x" and "x \<le> y"
  shows "rat_log2 x \<le> rat_log2 y"
proof (rule ccontr)
  assume "\<not> rat_log2 x \<le> rat_log2 y"
  then have "y < pow2 (rat_log2 x)" using assms rat_log2_less_iff [of y "rat_log2 x"] by simp
  then show False using rat_log2_bounds(1) [OF assms(1)] assms(2) by linarith
qed

section \<open>Rounding to an integer\<close>

lemma round_even_cases: "round_even x = \<lfloor>x\<rfloor> \<or> round_even x = \<lfloor>x\<rfloor> + 1"
  by (simp add: round_even_def Let_def)

lemma round_even_of_int [simp]: "round_even (of_int n) = n"
  by (simp add: round_even_def Let_def)

lemma round_even_0 [simp]: "round_even 0 = 0"
  using round_even_of_int [of 0] by simp

lemma round_even_mono:
  assumes "x \<le> y"
  shows "round_even x \<le> round_even y"
proof (cases "\<lfloor>x\<rfloor> = \<lfloor>y\<rfloor>")
  case True
  then show ?thesis using assms by (auto simp: round_even_def Let_def)
next
  case False
  then have "\<lfloor>x\<rfloor> + 1 \<le> \<lfloor>y\<rfloor>" using floor_mono [OF assms] by linarith
  then show ?thesis using round_even_cases [of x] round_even_cases [of y] by linarith
qed

lemma round_even_error: "\<bar>of_int (round_even x) - x\<bar> \<le> 1 / 2"
  using floor_correct [of x] by (auto simp: round_even_def Let_def abs_le_iff)

lemma round_even_minus: "round_even (- x) = - round_even x"
proof (cases "x = of_int \<lfloor>x\<rfloor>")
  case True
  then show ?thesis by (metis of_int_minus round_even_of_int)
next
  case False
  then have f: "\<lfloor>- x\<rfloor> = - \<lfloor>x\<rfloor> - 1"
    using floor_correct [of x] by (intro floor_unique) (auto simp: less_le)
  show ?thesis by (auto simp: round_even_def Let_def f algebra_simps)
qed

section \<open>Rounding to a format\<close>

lemma round_rat_0 [simp]: "round_rat F 0 = 0"
  by (simp add: round_rat_def)

lemma round_rat_minus: "round_rat F (- x) = - round_rat F x"
  by (simp add: round_rat_def ulp_exp_def Let_def round_even_minus)

lemma round_rat_nonneg: "0 \<le> x \<Longrightarrow> 0 \<le> round_rat F x"
  using round_even_mono [of 0 "x / pow2 (ulp_exp F x)"]
  by (auto simp: round_rat_def Let_def zero_le_divide_iff less_imp_le)

lemma ulp_exp_mono: "0 < x \<Longrightarrow> x \<le> y \<Longrightarrow> ulp_exp F x \<le> ulp_exp F y"
  using rat_log2_mono [of x y] by (auto simp: ulp_exp_def)

text \<open>A value on the grid of its own exponent is not changed by rounding.\<close>

lemma round_rat_grid:
  assumes "x = of_int m * pow2 e" and "ulp_exp F x \<le> e"
  shows "round_rat F x = x"
proof -
  let ?u = "ulp_exp F x"
  have "x / pow2 ?u = of_int m * pow2 (e - ?u)" by (simp add: assms(1) pow2_diff)
  also have "\<dots> = of_int (m * 2 ^ nat (e - ?u))" using assms(2) by (simp add: pow2_def)
  finally have "round_even (x / pow2 ?u) = m * 2 ^ nat (e - ?u)"
    by (simp only: round_even_of_int)
  moreover have "of_int (m * 2 ^ nat (e - ?u)) * pow2 ?u = x"
    using \<open>x / pow2 ?u = of_int m * pow2 (e - ?u)\<close>
      \<open>of_int m * pow2 (e - ?u) = of_int (m * 2 ^ nat (e - ?u))\<close>
    by (metis nonzero_divide_eq_eq pow2_nonzero)
  ultimately show ?thesis by (simp add: round_rat_def Let_def)
qed

definition representable :: "float_format \<Rightarrow> rat \<Rightarrow> bool" where
  "representable F x \<longleftrightarrow> (\<exists>m e. x = of_int m * pow2 e \<and> \<bar>m\<bar> < 2 ^ prec F \<and> emin F \<le> e)"

lemma round_rat_representable:
  assumes "representable F x"
  shows "round_rat F x = x"
proof (cases "x = 0")
  case False
  from assms obtain m e where x: "x = of_int m * pow2 e" and m: "\<bar>m\<bar> < 2 ^ prec F"
    and e: "emin F \<le> e" by (auto simp: representable_def)
  have "\<bar>of_int m :: rat\<bar> < of_int (2 ^ prec F)"
    using m by (metis of_int_abs of_int_less_iff)
  then have "\<bar>x\<bar> < pow2 (int (prec F)) * pow2 e"
    by (simp add: x abs_mult pow2_of_nat mult_strict_right_mono abs_of_pos)
  then have "rat_log2 \<bar>x\<bar> < int (prec F) + e"
    using False by (simp add: rat_log2_less_iff pow2_add)
  with e have "ulp_exp F x \<le> e" by (simp add: ulp_exp_def)
  with x show ?thesis by (rule round_rat_grid)
qed simp

lemma representable_int: "\<bar>n\<bar> < 2 ^ prec F \<Longrightarrow> emin F \<le> 0 \<Longrightarrow> representable F (of_int n)"
  unfolding representable_def by (rule exI [of _ n], rule exI [of _ 0]) (simp add: pow2_def)

text \<open>Rounding is monotone.\<close>

lemma round_rat_mono_pos:
  assumes "0 < x" and "x \<le> y" and "1 \<le> prec F"
  shows "round_rat F x \<le> round_rat F y"
proof -
  let ?e = "ulp_exp F x" and ?f = "ulp_exp F y" and ?k = "rat_log2 y"
  have y: "0 < y" using assms by simp
  have rx: "round_rat F x = of_int (round_even (x / pow2 ?e)) * pow2 ?e"
    and ry: "round_rat F y = of_int (round_even (y / pow2 ?f)) * pow2 ?f"
    using assms y by (simp_all add: round_rat_def Let_def)
  show ?thesis
  proof (cases "?e = ?f")
    case True
    have "round_even (x / pow2 ?f) \<le> round_even (y / pow2 ?f)"
      using assms(2) by (intro round_even_mono) (simp add: divide_right_mono less_imp_le)
    then show ?thesis by (simp add: rx ry True)
  next
    case False
    then have lt: "?e < ?f" using ulp_exp_mono [OF assms(1,2), of F] by simp
    then have f: "?f = ?k - (int (prec F) - 1)"
      by (auto simp: ulp_exp_def abs_of_pos y)
    have "rat_log2 x < ?k" using lt f by (simp add: ulp_exp_def abs_of_pos assms(1))
    then have xk: "x < pow2 ?k" by (simp add: rat_log2_less_iff assms(1))
    have ek: "?e \<le> ?k" and fk: "?f \<le> ?k" using lt f assms(3) by linarith+
    have grid: "pow2 ?k / pow2 i = of_int (2 ^ nat (?k - i))" if "i \<le> ?k" for i
      using that by (simp add: pow2_diff [symmetric]) (simp add: pow2_def)
    have "round_even (x / pow2 ?e) \<le> round_even (pow2 ?k / pow2 ?e)"
      using xk by (intro round_even_mono) (simp add: divide_right_mono less_imp_le)
    then have "of_int (round_even (x / pow2 ?e)) \<le> pow2 ?k / pow2 ?e"
      by (simp only: grid [OF ek] round_even_of_int of_int_le_iff)
    then have "round_rat F x \<le> pow2 ?k" by (simp add: rx pos_le_divide_eq)
    moreover have "round_even (pow2 ?k / pow2 ?f) \<le> round_even (y / pow2 ?f)"
      using rat_log2_bounds(1) [OF y] by (intro round_even_mono) (simp add: divide_right_mono less_imp_le)
    then have "pow2 ?k / pow2 ?f \<le> of_int (round_even (y / pow2 ?f))"
      by (simp only: grid [OF fk] round_even_of_int of_int_le_iff)
    then have "pow2 ?k \<le> round_rat F y" by (simp add: ry pos_divide_le_eq)
    ultimately show ?thesis by linarith
  qed
qed

lemma round_rat_mono:
  assumes "x \<le> y" and "1 \<le> prec F"
  shows "round_rat F x \<le> round_rat F y"
proof -
  consider "0 < x" | "x \<le> 0" "0 \<le> y" | "y < 0" by linarith
  then show ?thesis
  proof cases
    case 1
    then show ?thesis using assms by (rule round_rat_mono_pos)
  next
    case 2
    then have "0 \<le> round_rat F (- x)" and "0 \<le> round_rat F y" by (simp_all add: round_rat_nonneg)
    then show ?thesis by (simp add: round_rat_minus)
  next
    case 3
    then have "round_rat F (- y) \<le> round_rat F (- x)" using assms by (intro round_rat_mono_pos) auto
    then show ?thesis by (simp add: round_rat_minus)
  qed
qed

lemma round_rat_between:
  assumes "representable F lo" and "representable F hi" and "lo \<le> x" and "x \<le> hi" and "1 \<le> prec F"
  shows "lo \<le> round_rat F x" and "round_rat F x \<le> hi"
  using round_rat_mono [OF assms(3,5)] round_rat_mono [OF assms(4,5)]
  by (simp_all add: round_rat_representable [OF assms(1)] round_rat_representable [OF assms(2)])

lemma fround_between:
  assumes "representable F lo" and "representable F hi" and "lo \<le> x" and "x \<le> hi" and "1 \<le> prec F"
    and "- pow2 (emax F) < lo" and "hi < pow2 (emax F)"
  shows "\<exists>r. fround F x = Fin r \<and> lo \<le> r \<and> r \<le> hi"
  using round_rat_between [OF assms(1-5)] assms(6,7) by (auto simp: fround_def Let_def)

lemma fround_representable:
  assumes "representable F x" and "\<bar>x\<bar> < pow2 (emax F)"
  shows "fround F x = Fin x"
  using assms(2) by (auto simp: fround_def Let_def round_rat_representable [OF assms(1)])

section \<open>The order on floats\<close>

lemma flt_irrefl [simp]: "\<not> flt x x"
  by (cases x) auto

lemma flt_trans: "flt x y \<Longrightarrow> flt y z \<Longrightarrow> flt x z"
  by (cases x; cases y; cases z) auto

lemma flt_NaN [simp]: "\<not> flt NaN x" "\<not> flt x NaN"
  by (cases x; simp)+

lemma flt_inf [simp]: "\<not> flt PInf x" "\<not> flt x NInf"
  by (cases x; simp)+

lemma feq_iff: "feq x y \<longleftrightarrow> x = y \<and> x \<noteq> NaN"
  by (cases x) auto

lemma flt_negtrans: "flt x z \<Longrightarrow> y \<noteq> NaN \<Longrightarrow> flt x y \<or> flt y z"
  by (cases x; cases y; cases z) auto

text \<open>Without NaN, comparison by a float key is a strict weak order.\<close>

lemma strict_weak_flt:
  assumes "\<And>x. x \<in> A \<Longrightarrow> f x \<noteq> NaN"
  shows "strict_weak_on A (\<lambda>x y. flt (f x) (f y))" and "strict_weak_on A (\<lambda>x y. flt (f y) (f x))"
  by (rule strict_weak_onI; use assms in \<open>auto intro: flt_trans dest: flt_negtrans\<close>)+

lemma fle_iff: "fle x y \<longleftrightarrow> x \<noteq> NaN \<and> y \<noteq> NaN \<and> \<not> flt y x"
  by (cases x; cases y) (auto simp: fle_def)

lemma fle_Fin [simp]: "fle (Fin a) (Fin b) \<longleftrightarrow> a \<le> b"
  by (auto simp: fle_def)

lemma fle_refl: "x \<noteq> NaN \<Longrightarrow> fle x x"
  by (simp add: fle_iff)

lemma fle_trans: "fle x y \<Longrightarrow> fle y z \<Longrightarrow> fle x z"
  by (cases x; cases y; cases z) (auto simp: fle_def)

lemma fround_not_NaN [simp]: "fround F x \<noteq> NaN"
  by (simp add: fround_def Let_def)

lemma fround_mono:
  assumes "x \<le> y" and "1 \<le> prec F"
  shows "fle (fround F x) (fround F y)"
  using round_rat_mono [OF assms] pow2_pos [of "emax F"]
  by (auto simp: fround_def Let_def fle_def)

lemma fround_not_flt: "x \<le> y \<Longrightarrow> 1 \<le> prec F \<Longrightarrow> \<not> flt (fround F y) (fround F x)"
  using fround_mono [of x y F] by (simp add: fle_iff)

lemma prec_F32 [simp]: "prec F32 = 24" and emin_F32 [simp]: "emin F32 = -149"
  and emax_F32 [simp]: "emax F32 = 128"
  by (simp_all add: F32_def)

lemma prec_F64 [simp]: "prec F64 = 53" and emin_F64 [simp]: "emin F64 = -1074"
  and emax_F64 [simp]: "emax F64 = 1024"
  by (simp_all add: F64_def)

text \<open>For evaluation, the range is checked on the exponent.\<close>

lemma fround_code [code]:
  "fround F x =
     (let r = round_rat F x
      in if r \<noteq> 0 \<and> emax F \<le> rat_log2 \<bar>r\<bar> then if 0 < r then PInf else NInf else Fin r)"
proof -
  have "pow2 (emax F) \<le> \<bar>r\<bar> \<longleftrightarrow> r \<noteq> 0 \<and> emax F \<le> rat_log2 \<bar>r\<bar>" for r
  proof (cases "r = 0")
    case True
    have "\<not> pow2 (emax F) \<le> 0" by (simp add: not_le)
    with True show ?thesis by simp
  next
    case False
    then show ?thesis using rat_log2_less_iff [of "\<bar>r\<bar>" "emax F"] by auto
  qed
  then have c: "(if r \<noteq> 0 \<and> emax F \<le> rat_log2 \<bar>r\<bar> then if 0 < r then PInf else NInf else Fin r) =
      (if pow2 (emax F) \<le> \<bar>r\<bar> then if 0 < r then PInf else NInf else Fin r)" for r
    by simp
  have "(if p \<le> r then PInf else if r \<le> - p then NInf else Fin r) =
      (if p \<le> \<bar>r\<bar> then if 0 < r then PInf else NInf else Fin r)" if "0 < p" for p r :: rat
    using that by (cases "0 < r") simp_all
  from this [OF pow2_pos] show ?thesis unfolding fround_def Let_def c .
qed

text \<open>Addition and multiplication commute exactly, infinities and NaN included.\<close>

lemma fadd_comm: "fadd F x y = fadd F y x"
  by (cases x; cases y) (auto simp: add.commute)

lemma fmul_comm: "fmul F x y = fmul F y x"
  by (cases x; cases y) (auto simp: mult.commute)

text \<open>Addition is monotone wherever it is defined.\<close>

lemma fadd_mono:
  assumes "fle x x'" and "fle y y'" and "fadd F x y \<noteq> NaN" and "fadd F x' y' \<noteq> NaN" and "1 \<le> prec F"
  shows "fle (fadd F x y) (fadd F x' y')"
  using assms
  by (cases x; cases y; cases x'; cases y') (auto simp: fle_iff fround_not_flt add_mono not_less)

section \<open>Square roots\<close>

lemma isqrt_rem_spec:
  "0 \<le> n \<Longrightarrow> isqrt_rem n = (q, rem) \<Longrightarrow> 0 \<le> q \<and> 0 \<le> rem \<and> rem \<le> 2 * q \<and> n = q * q + rem"
proof (induction n arbitrary: q rem rule: isqrt_rem.induct)
  case (1 n)
  show ?case
  proof (cases "n = 0")
    case True
    with "1.prems" show ?thesis by (simp add: isqrt_rem.simps)
  next
    case False
    obtain q' rem' where r: "isqrt_rem (n div 4) = (q', rem')" by (cases "isqrt_rem (n div 4)")
    then have IH: "0 \<le> q'" "0 \<le> rem'" "rem' \<le> 2 * q'" "n div 4 = q' * q' + rem'"
      using "1.IH" [of q' rem'] "1.prems"(1) False by auto
    have n4: "n = 4 * (n div 4) + n mod 4" "0 \<le> n mod 4" "n mod 4 < 4" by simp_all
    have step: "isqrt_rem n =
        (if 4 * q' + 1 \<le> 4 * rem' + n mod 4 then (2 * q' + 1, 4 * rem' + n mod 4 - (4 * q' + 1))
         else (2 * q', 4 * rem' + n mod 4))"
      using False "1.prems"(1) by (subst isqrt_rem.simps) (simp add: r Let_def)
    have "n = (2 * q') * (2 * q') + (4 * rem' + n mod 4)" using n4(1) IH(4) by (simp add: algebra_simps)
    moreover have "(2 * q' + 1) * (2 * q' + 1) = (2 * q') * (2 * q') + (4 * q' + 1)" by (simp add: algebra_simps)
    ultimately show ?thesis
      using "1.prems"(2) IH n4(2,3) unfolding step by (auto split: if_splits)
  qed
qed

lemma isqrt_rem_square:
  assumes "0 \<le> m" shows "isqrt_rem (m * m) = (m, 0)"
proof -
  obtain q rem where r: "isqrt_rem (m * m) = (q, rem)" by (cases "isqrt_rem (m * m)")
  then have s: "0 \<le> q" "0 \<le> rem" "rem \<le> 2 * q" "m * m = q * q + rem" using isqrt_rem_spec [OF _ r] by simp_all
  have "q \<le> m" by (rule ccontr) (use s assms mult_strict_mono [of m q m q] in auto)
  moreover have "m < q + 1"
  proof (rule ccontr)
    assume "\<not> m < q + 1"
    then have "(q + 1) * (q + 1) \<le> m * m" using s(1) by (intro mult_mono) auto
    with s show False by (simp add: algebra_simps)
  qed
  ultimately have "q = m" by simp
  with s(4) r show ?thesis by simp
qed

text \<open>A root that the scale represents is found exactly.\<close>

lemma sqrt_sticky_exact:
  assumes "0 \<le> r" and "r * pow2 k = of_int m"
  shows "sqrt_sticky (r * r) k = r"
proof -
  have "0 \<le> r * pow2 k" using assms(1) by (simp add: less_imp_le)
  then have m: "0 \<le> m" using assms(2) by simp
  have "pow2 (2 * k) = pow2 k * pow2 k" by (simp add: pow2_add [symmetric])
  then have "r * r * pow2 (2 * k) = (r * pow2 k) * (r * pow2 k)" by simp
  then have y: "r * r * pow2 (2 * k) = of_int (m * m)" by (simp add: assms(2))
  have "sqrt_sticky (r * r) k = of_int m / pow2 k"
    by (simp only: sqrt_sticky_def y Let_def floor_of_int isqrt_rem_square [OF m] prod.case simp_thms if_True)
  also have "\<dots> = r" using assms(2) by (simp add: field_simps)
  finally show ?thesis .
qed

lemma fsqrt_NaN_iff: "fsqrt F x = NaN \<longleftrightarrow> x = NaN \<or> x = NInf \<or> (\<exists>r. x = Fin r \<and> r < 0)"
  by (cases x) auto

end
