(* ===== verification/Proto.thy ===== *)
theory Proto
  imports Go_Strings Go_Float
begin

text \<open>
  The messages the services exchange (\<^verbatim>\<open>proto/metadata_service.proto\<close>,
  \<^verbatim>\<open>proto/node_agent.proto\<close>) as records, the texts of gRPC errors and the time
  stamps. Durations and instants are integers, in nanoseconds.
\<close>

section \<open>Integers and time\<close>

text \<open>Conversion of a Go \<^verbatim>\<open>int\<close> to \<^verbatim>\<open>int32\<close> keeps the low 32 bits.\<close>

definition int32 :: "int \<Rightarrow> int" where
  "int32 i = signed_take_bit 31 i"

lemma int32_id: "- (2 ^ 31) \<le> i \<Longrightarrow> i < 2 ^ 31 \<Longrightarrow> int32 i = i"
  by (simp add: int32_def signed_take_bit_int_eq_self)

abbreviation millisecond :: int where "millisecond \<equiv> 1000000"
abbreviation second :: int where "second \<equiv> 1000000000"
abbreviation minute :: int where "minute \<equiv> 60000000000"
abbreviation hour :: int where "hour \<equiv> 3600000000000"

text \<open>
  The text of an instant in \<^verbatim>\<open>time.RFC3339\<close>, which keeps whole seconds; any other
  text does not parse.
\<close>

datatype time_text = RFC3339 int | OtherText string

definition format_rfc3339 :: "int \<Rightarrow> time_text" where
  "format_rfc3339 t = RFC3339 (t div second)"

fun parse_rfc3339 :: "time_text \<Rightarrow> int option" where
  "parse_rfc3339 (RFC3339 s) = Some (s * second)"
| "parse_rfc3339 (OtherText _) = None"

lemma parse_format_rfc3339:
  "parse_rfc3339 (format_rfc3339 t) = Some t' \<Longrightarrow> t' \<le> t \<and> t < t' + second"
  unfolding format_rfc3339_def parse_rfc3339.simps option.inject
  using pos_mod_bound [of second t] pos_mod_sign [of second t] mult_div_mod_eq [of second t]
  by (simp add: mult.commute) linarith

section \<open>Error texts\<close>

fun code_name :: "grpc_code \<Rightarrow> string" where
  "code_name InvalidArgument = ''InvalidArgument''"
| "code_name NotFound = ''NotFound''"
| "code_name AlreadyExists = ''AlreadyExists''"
| "code_name PermissionDenied = ''PermissionDenied''"
| "code_name ResourceExhausted = ''ResourceExhausted''"
| "code_name Internal = ''Internal''"
| "code_name Unauthenticated = ''Unauthenticated''"
| "code_name Unimplemented = ''Unimplemented''"
| "code_name Unavailable = ''Unavailable''"
| "code_name DeadlineExceeded = ''DeadlineExceeded''"
| "code_name UnknownCode = ''Unknown''"

text \<open>\<^verbatim>\<open>err.Error()\<close> of a status error.\<close>

definition err_text :: "rpc_error \<Rightarrow> string" where
  "err_text e = ''rpc error: code = '' @ code_name (code_of e) @ '' desc = '' @ message_of e"

section \<open>Fixed-point formatting\<close>

text \<open>\<^verbatim>\<open>%.nf\<close>: the exact value rounded to \<open>n\<close> decimals, ties to even.\<close>

fun pad_zeros :: "nat \<Rightarrow> string \<Rightarrow> string" where
  "pad_zeros n s = (if length s < n then replicate (n - length s) (CHR ''0'') @ s else s)"

fun fmt_fixed :: "nat \<Rightarrow> go_float \<Rightarrow> string" where
  "fmt_fixed n NaN = ''NaN''"
| "fmt_fixed n PInf = ''+Inf''"
| "fmt_fixed n NInf = ''-Inf''"
| "fmt_fixed n (Fin x) =
     (let m = round_even (\<bar>x\<bar> * 10 ^ n)
      in (if x < 0 then ''-'' else []) @ itoa (m div 10 ^ n) @ ''.'' @ pad_zeros n (itoa (m mod 10 ^ n)))"

section \<open>Messages\<close>

record node_info =
  ni_id :: string
  ni_cluster :: string
  ni_hostname :: string
  ni_status :: string
  ni_cpu :: go_float
  ni_mem :: go_float
  ni_disk :: go_float
  ni_last_heartbeat :: time_text
  ni_registered_at :: time_text
  ni_region :: string

record database_info =
  di_id :: string
  di_name :: string
  di_cluster :: string
  di_node :: string
  di_status :: string
  di_endpoint :: string
  di_attempts :: int
  di_created :: time_text
  di_updated :: time_text

end
