(* ===== verification/Placement.thy ===== *)
theory Placement
  imports Region Proto
begin

text \<open>
  \<^verbatim>\<open>services/scheduler\<close>: the placement score of a node, the choice of a node for a
  database (\<^verbatim>\<open>placement/scheduler.go\<close>), the choice across regions
  (\<^verbatim>\<open>placement/region_scheduler.go\<close>) and the RPC that serves it
  (\<^verbatim>\<open>grpc/server.go\<close>). Scores are computed in \<^verbatim>\<open>float32\<close>.
\<close>

section \<open>Scores\<close>

record node_score =
  sc_node :: string
  sc_score :: go_float
  sc_breakdown :: "string \<rightharpoonup> go_float"
  sc_status :: string

definition CalculateScore :: "go_float \<Rightarrow> go_float \<Rightarrow> go_float \<Rightarrow> go_float \<times> (string \<rightharpoonup> go_float)" where
  "CalculateScore cpu mem disk =
     (let cpuFactor = fmul F32 (fsub F32 (Fin 100) cpu) (fround F32 (4/10));
          memFactor = fmul F32 (fsub F32 (Fin 100) mem) (fround F32 (3/10));
          diskFactor = fmul F32 (fsub F32 (Fin 100) disk) (fround F32 (3/10));
          total = fadd F32 (fadd F32 cpuFactor memFactor) diskFactor
      in (total, [''cpu_factor'' \<mapsto> cpuFactor, ''memory_factor'' \<mapsto> memFactor, ''disk_factor'' \<mapsto> diskFactor]))"

section \<open>Choosing a node\<close>

datatype schedule_error = ErrNoNodesAvailable | FallbacksFailed schedule_error

text \<open>The loop that scores the nodes into the two lists.\<close>

fun score_nodes :: "node_info list \<Rightarrow> node_score list \<Rightarrow> node_score list \<Rightarrow> node_score list \<times> node_score list" where
  "score_nodes [] nonOverloaded overloaded = (nonOverloaded, overloaded)"
| "score_nodes (n # ns) nonOverloaded overloaded =
     (if ni_status n = ''dead'' \<or> ni_status n = ''draining'' then score_nodes ns nonOverloaded overloaded
      else
        let (score, breakdown) = CalculateScore (ni_cpu n) (ni_mem n) (ni_disk n);
            s = \<lparr>sc_node = ni_id n, sc_score = score, sc_breakdown = breakdown, sc_status = ni_status n\<rparr>
        in if ni_status n = ''overloaded'' then score_nodes ns nonOverloaded (overloaded @ [s])
           else score_nodes ns (nonOverloaded @ [s]) overloaded)"

definition higher_score :: "node_score \<Rightarrow> node_score \<Rightarrow> bool" where
  "higher_score n best = flt (sc_score best) (sc_score n)"

definition ScheduleNode :: "node_info list \<Rightarrow> schedule_error + node_score" where
  "ScheduleNode nodes =
     (case score_nodes nodes [] [] of (nonOverloaded, overloaded) \<Rightarrow>
        (case nonOverloaded of
           b # rest \<Rightarrow> Inr (best_loop higher_score b rest)
         | [] \<Rightarrow>
           (case overloaded of
              b # rest \<Rightarrow> Inr (best_loop higher_score b rest)
            | [] \<Rightarrow> Inl ErrNoNodesAvailable)))"

text \<open>The same lists by selection: who is scored, and with what.\<close>

definition placeable :: "node_info \<Rightarrow> bool" where
  "placeable n \<longleftrightarrow> ni_status n \<noteq> ''dead'' \<and> ni_status n \<noteq> ''draining''"

definition overloaded_node :: "node_info \<Rightarrow> bool" where
  "overloaded_node n \<longleftrightarrow> ni_status n = ''overloaded''"

definition scored :: "node_info \<Rightarrow> node_score" where
  "scored n = (case CalculateScore (ni_cpu n) (ni_mem n) (ni_disk n) of (score, breakdown) \<Rightarrow>
     \<lparr>sc_node = ni_id n, sc_score = score, sc_breakdown = breakdown, sc_status = ni_status n\<rparr>)"

lemma scored_simps [simp]: "sc_node (scored n) = ni_id n" "sc_status (scored n) = ni_status n"
  "sc_score (scored n) = fst (CalculateScore (ni_cpu n) (ni_mem n) (ni_disk n))"
  by (simp_all add: scored_def split: prod.split)

lemma score_nodes_eq:
  "score_nodes ns as bs =
     (as @ map scored (filter (\<lambda>n. placeable n \<and> \<not> overloaded_node n) ns),
      bs @ map scored (filter (\<lambda>n. placeable n \<and> overloaded_node n) ns))"
  by (induction ns arbitrary: as bs)
    (auto simp: placeable_def overloaded_node_def scored_def Let_def split: prod.split)

text \<open>The candidates in the class the scheduler picks from.\<close>

definition candidates :: "node_info list \<Rightarrow> node_info list" where
  "candidates ns =
     (let plain = filter (\<lambda>n. placeable n \<and> \<not> overloaded_node n) ns
      in if plain \<noteq> [] then plain else filter (\<lambda>n. placeable n \<and> overloaded_node n) ns)"

lemma ScheduleNode_eq:
  "ScheduleNode ns = (case map scored (candidates ns) of
     [] \<Rightarrow> Inl ErrNoNodesAvailable | b # rest \<Rightarrow> Inr (best_loop higher_score b rest))"
  by (simp add: ScheduleNode_def score_nodes_eq candidates_def Let_def split: list.split)

lemma candidates_sub: "n \<in> set (candidates ns) \<Longrightarrow> n \<in> set ns \<and> placeable n"
  by (auto simp: candidates_def Let_def split: if_splits)

lemma candidates_Nil: "candidates ns = [] \<longleftrightarrow> (\<forall>n\<in>set ns. \<not> placeable n)"
  by (auto simp: candidates_def Let_def filter_empty_conv)

lemma candidates_class:
  "n \<in> set (candidates ns) \<Longrightarrow> overloaded_node n \<Longrightarrow> m \<in> set ns \<Longrightarrow> placeable m \<Longrightarrow> overloaded_node m"
  by (auto simp: candidates_def Let_def filter_empty_conv split: if_splits)

lemma ScheduleNode_Inr:
  assumes "ScheduleNode ns = Inr s"
  obtains n where "n \<in> set (candidates ns)" and "s = scored n"
proof -
  obtain b rest where c: "map scored (candidates ns) = b # rest" and s: "s = best_loop higher_score b rest"
    using assms by (auto simp: ScheduleNode_eq split: list.splits)
  have "s \<in> set (map scored (candidates ns))" unfolding c s using best_loop_in [of higher_score b rest] by simp
  then show thesis using that by auto
qed

lemma ScheduleNode_Inl_iff: "ScheduleNode ns = Inl e \<longleftrightarrow> e = ErrNoNodesAvailable \<and> (\<forall>n\<in>set ns. \<not> placeable n)"
  by (auto simp: ScheduleNode_eq candidates_Nil [symmetric] split: list.split)

lemma ScheduleNode_best:
  assumes "ScheduleNode ns = Inr s" and "\<And>n. n \<in> set (candidates ns) \<Longrightarrow> sc_score (scored n) \<noteq> NaN"
    and "m \<in> set (candidates ns)"
  shows "\<not> higher_score (scored m) s"
proof -
  obtain b rest where c: "map scored (candidates ns) = b # rest" and s: "s = best_loop higher_score b rest"
    using assms(1) by (auto simp: ScheduleNode_eq split: list.splits)
  have i: "insert b (set rest) = set (map scored (candidates ns))" by (simp add: c)
  have "strict_weak_on (insert b (set rest)) higher_score"
    unfolding higher_score_def i by (rule strict_weak_flt(2)) (use assms(2) in auto)
  moreover have "scored m \<in> insert b (set rest)" unfolding i using assms(3) by simp
  ultimately show ?thesis unfolding s by (rule best_loop_unbeaten)
qed

section \<open>The score is monotone and bounded\<close>

definition pct :: "rat \<Rightarrow> bool" where
  "pct x \<longleftrightarrow> 0 \<le> x \<and> x \<le> 100"

text \<open>The share of one resource: its free percentage times a weight.\<close>

definition factor :: "rat \<Rightarrow> rat \<Rightarrow> go_float" where
  "factor w x = fmul F32 (fsub F32 (Fin 100) (Fin x)) (Fin w)"

definition w4 :: rat where "w4 = round_rat F32 (4/10)"
definition w3 :: rat where "w3 = round_rat F32 (3/10)"

lemma weights:
  "fround F32 (2/5) = Fin w4" "fround F32 (3/10) = Fin w3" "0 \<le> w4" "w4 \<le> 1" "0 \<le> w3" "w3 \<le> 1"
  by (code_simp)+

lemma rep_int32f: "\<bar>n\<bar> < 16777216 \<Longrightarrow> representable F32 (of_int n)"
  by (rule representable_int) auto

lemma rep_consts: "representable F32 0" "representable F32 100" "representable F32 1000"
  using rep_int32f [of 0] rep_int32f [of 100] rep_int32f [of 1000] by simp_all

lemma free_pct:
  assumes "pct x"
  shows "\<exists>r. fsub F32 (Fin 100) (Fin x) = Fin r \<and> pct r"
  using fround_between [OF rep_consts(1,2), of "100 - x"] assms
  by (auto simp: pct_def fsub_def pow2_def)

lemma free_pct_anti:
  assumes "x \<le> y"
  shows "fle (fsub F32 (Fin 100) (Fin y)) (fsub F32 (Fin 100) (Fin x))"
  using fround_mono [of "100 - y" "100 - x" F32] assms by (simp add: fsub_def)

lemma factor_Fin:
  assumes "pct x" and "0 \<le> w" and "w \<le> 1"
  shows "\<exists>r. factor w x = Fin r \<and> pct r"
proof -
  obtain r where r: "fsub F32 (Fin 100) (Fin x) = Fin r" "pct r" using free_pct [OF assms(1)] by blast
  have "0 \<le> r * w" and "r * w \<le> 100 * 1"
    using r(2) assms mult_mono [of r 100 w 1] by (auto simp: pct_def)
  then have "\<exists>q. fround F32 (r * w) = Fin q \<and> 0 \<le> q \<and> q \<le> 100"
    by (intro fround_between [OF rep_consts(1,2)]) (auto simp: pow2_def)
  then show ?thesis by (simp add: factor_def r(1) pct_def)
qed

lemma factor_anti:
  assumes "pct x" and "pct y" and "x \<le> y" and "0 \<le> w"
  shows "fle (factor w y) (factor w x)"
proof -
  obtain r q where rq: "fsub F32 (Fin 100) (Fin x) = Fin r" "fsub F32 (Fin 100) (Fin y) = Fin q"
    using free_pct assms by meson
  then have "q \<le> r" using free_pct_anti [OF assms(3)] by simp
  then show ?thesis by (simp add: factor_def rq fround_mono mult_right_mono assms(4))
qed

definition total_score :: "rat \<Rightarrow> rat \<Rightarrow> rat \<Rightarrow> go_float" where
  "total_score c m d = fst (CalculateScore (Fin c) (Fin m) (Fin d))"

lemma total_score_factors:
  "total_score c m d = fadd F32 (fadd F32 (factor w4 c) (factor w3 m)) (factor w3 d)"
  by (simp add: total_score_def CalculateScore_def factor_def weights Let_def)

lemma sum2_Fin: "pct a \<Longrightarrow> pct b \<Longrightarrow> \<exists>r. fadd F32 (Fin a) (Fin b) = Fin r \<and> 0 \<le> r \<and> r \<le> 1000"
  using fround_between [OF rep_consts(1,3), of "a + b"] by (auto simp: pct_def pow2_def)

lemma sum3_Fin:
  assumes "pct a" and "pct b" and "pct c"
  shows "\<exists>r. fadd F32 (fadd F32 (Fin a) (Fin b)) (Fin c) = Fin r \<and> 0 \<le> r"
proof -
  have r2: "representable F32 200" using rep_int32f [of 200] by simp
  obtain s where s: "fadd F32 (Fin a) (Fin b) = Fin s" "0 \<le> s" "s \<le> 200"
    using fround_between [OF rep_consts(1) r2, of "a + b"] assms by (auto simp: pct_def pow2_def)
  show ?thesis
    using fround_between [OF rep_consts(1,3), of "s + c"] s assms(3) by (auto simp: pct_def pow2_def)
qed

lemma total_score_Fin:
  assumes "pct c" and "pct m" and "pct d"
  shows "\<exists>r. total_score c m d = Fin r \<and> 0 \<le> r"
  using factor_Fin [OF assms(1) weights(3,4)] factor_Fin [OF assms(2) weights(5,6)]
    factor_Fin [OF assms(3) weights(5,6)] sum3_Fin
  unfolding total_score_factors by metis

lemma total_score_anti:
  assumes "pct c" "pct m" "pct d" "pct c'" "pct m'" "pct d'" and "c \<le> c'" "m \<le> m'" "d \<le> d'"
  shows "fle (total_score c' m' d') (total_score c m d)"
proof -
  obtain a1 a2 a3 b1 b2 b3 where
    a: "factor w4 c = Fin a1" "factor w3 m = Fin a2" "factor w3 d = Fin a3" and
    b: "factor w4 c' = Fin b1" "factor w3 m' = Fin b2" "factor w3 d' = Fin b3"
    using factor_Fin assms(1-6) weights(3-6) by metis
  have le: "b1 \<le> a1" "b2 \<le> a2" "b3 \<le> a3"
    using factor_anti [of c c' w4] factor_anti [of m m' w3] factor_anti [of d d' w3] assms weights a b
    by simp_all
  have fin: "total_score c m d \<noteq> NaN" "total_score c' m' d' \<noteq> NaN"
    using total_score_Fin [of c m d] total_score_Fin [of c' m' d'] assms by auto
  have "fle (fadd F32 (Fin b1) (Fin b2)) (fadd F32 (Fin a1) (Fin a2))"
    using le by (simp add: fround_mono add_mono)
  then show ?thesis
    using fin le unfolding total_score_factors a b by (intro fadd_mono) auto
qed

section \<open>Choosing across regions\<close>

text \<open>\<open>inferNodeRegion\<close>: the explicit region when it is a supported one, else the first
  supported region named in the host name or the cluster id, else india.\<close>

fun first_match :: "('a \<Rightarrow> bool) \<Rightarrow> 'a list \<Rightarrow> 'a option" where
  "first_match p [] = None"
| "first_match p (x # xs) = (if p x then Some x else first_match p xs)"

lemma first_match_in: "first_match p xs = Some x \<Longrightarrow> x \<in> set xs \<and> p x"
  by (induction xs) (auto split: if_splits)

definition inferNodeRegion :: "node_info \<Rightarrow> string" where
  "inferNodeRegion n =
     (case (if ni_region n \<noteq> [] then first_match (\<lambda>r. equal_fold (ni_region n) r) SupportedRegions else None) of
        Some r \<Rightarrow> r
      | None \<Rightarrow>
          let h = to_lower (ni_hostname n); c = to_lower (ni_cluster n)
          in case first_match (\<lambda>r. str_contains h r \<or> str_contains c r) SupportedRegions of
               Some r \<Rightarrow> r
             | None \<Rightarrow> RegionIndia)"

text \<open>Grouping the nodes: \<^verbatim>\<open>nodesByRegion[reg] = append(nodesByRegion[reg], n)\<close>.\<close>

fun group_nodes :: "(string \<Rightarrow> node_info list) \<Rightarrow> node_info list \<Rightarrow> string \<Rightarrow> node_info list" where
  "group_nodes by_region [] = by_region"
| "group_nodes by_region (n # ns) =
     (let reg = inferNodeRegion n in group_nodes (by_region(reg := by_region reg @ [n])) ns)"

record region_schedule_result =
  rs_node :: node_score
  rs_served :: string
  rs_fallback_used :: bool
  rs_fallback_reason :: string

fun region_loop ::
  "string \<Rightarrow> (string \<Rightarrow> node_info list) \<Rightarrow> nat \<Rightarrow> schedule_error option \<Rightarrow> string list \<Rightarrow>
   schedule_error + region_schedule_result" where
  "region_loop pref by_region i lastErr [] =
     (case lastErr of Some e \<Rightarrow> Inl (FallbacksFailed e) | None \<Rightarrow> Inl ErrNoNodesAvailable)"
| "region_loop pref by_region i lastErr (r # rs) =
     (if length (by_region r) = 0 then region_loop pref by_region (Suc i) lastErr rs
      else case ScheduleNode (by_region r) of
        Inr score \<Rightarrow> Inr \<lparr>rs_node = score, rs_served = r, rs_fallback_used = (i > 0),
          rs_fallback_reason = (if i > 0 then
             ''Preferred region '' @ quoted pref @ '' unavailable; fell back to '' @ quoted r else [])\<rparr>
      | Inl e \<Rightarrow> region_loop pref by_region (Suc i) (Some e) rs)"

definition ScheduleNodeWithRegionFallback ::
  "((string \<times> int \<Rightarrow> string \<times> int \<Rightarrow> bool) \<Rightarrow> (string \<times> int) list \<Rightarrow> (string \<times> int) list) \<Rightarrow>
   ((string \<times> int) list \<Rightarrow> (string \<times> int) list) \<Rightarrow>
   node_info list \<Rightarrow> string \<Rightarrow> schedule_error + region_schedule_result" where
  "ScheduleNodeWithRegionFallback srt rng nodes preferred0 =
     (let preferred = (if preferred0 = [] then RegionIndia else preferred0);
          pref = to_lower preferred
      in region_loop preferred (group_nodes (\<lambda>_. []) nodes) 0 None (GetFallbackRegions srt rng pref))"

lemma group_nodes_eq:
  "group_nodes f ns r = f r @ filter (\<lambda>n. inferNodeRegion n = r) ns"
  by (induction ns arbitrary: f) (auto simp: Let_def)

lemma inferNodeRegion_supported: "inferNodeRegion n \<in> set SupportedRegions"
  unfolding inferNodeRegion_def Let_def
  by (auto split: option.splits if_splits dest: first_match_in)
    (auto simp: SupportedRegions_def)

definition region_can_host :: "node_info list \<Rightarrow> string \<Rightarrow> bool" where
  "region_can_host nodes r \<longleftrightarrow> (\<exists>n\<in>set nodes. inferNodeRegion n = r \<and> placeable n)"

lemma ScheduleNode_region:
  "(\<exists>s. ScheduleNode (group_nodes (\<lambda>_. []) nodes r) = Inr s) \<longleftrightarrow> region_can_host nodes r"
proof -
  have "(\<exists>s. ScheduleNode ns = Inr s) \<longleftrightarrow> \<not> (\<exists>e. ScheduleNode ns = Inl e)" for ns
    by (cases "ScheduleNode ns") auto
  then show ?thesis by (auto simp: ScheduleNode_Inl_iff group_nodes_eq region_can_host_def)
qed

lemma region_loop_Inr:
  assumes "region_loop pref g i le rs = Inr res"
  shows "\<exists>xs ys. rs = xs @ rs_served res # ys \<and> ScheduleNode (g (rs_served res)) = Inr (rs_node res) \<and>
     (\<forall>r\<in>set xs. \<not> (\<exists>s. ScheduleNode (g r) = Inr s)) \<and> (rs_fallback_used res \<longleftrightarrow> i > 0 \<or> xs \<noteq> [])"
  using assms
proof (induction rs arbitrary: i le)
  case Nil
  then show ?case by (auto split: option.splits)
next
  case (Cons r rs)
  show ?case
  proof (cases "\<exists>s. ScheduleNode (g r) = Inr s")
    case True
    then obtain s where s: "ScheduleNode (g r) = Inr s" by blast
    then have "g r \<noteq> []" by (auto simp: ScheduleNode_eq candidates_def)
    with Cons.prems s show ?thesis by (intro exI [of _ "[]"] exI [of _ rs]) auto
  next
    case False
    then obtain le' where "region_loop pref g (Suc i) le' rs = Inr res"
      using Cons.prems by (auto split: if_splits sum.splits)
    from Cons.IH [OF this] obtain xs ys where "rs = xs @ rs_served res # ys"
      "ScheduleNode (g (rs_served res)) = Inr (rs_node res)"
      "\<forall>r\<in>set xs. \<not> (\<exists>s. ScheduleNode (g r) = Inr s)" "rs_fallback_used res" by auto
    with False show ?thesis by (intro exI [of _ "r # xs"] exI [of _ ys]) auto
  qed
qed

lemma region_loop_Inl:
  "(\<exists>e. region_loop pref g i le rs = Inl e) \<longleftrightarrow> (\<forall>r\<in>set rs. \<not> (\<exists>s. ScheduleNode (g r) = Inr s))"
proof (induction rs arbitrary: i le)
  case Nil
  show ?case by (auto split: option.splits)
next
  case (Cons r rs)
  have "g r \<noteq> []" if "ScheduleNode (g r) = Inr s" for s
    using that by (auto simp: ScheduleNode_eq candidates_def)
  with Cons show ?case by (auto split: sum.splits)
qed

lemma RegionFallback_loop:
  assumes "slice_sort srt" and "map_range rng"
  obtains p where "ScheduleNodeWithRegionFallback srt rng nodes p0 =
    region_loop p (group_nodes (\<lambda>_. []) nodes) 0 None
      (fallback_order (if p0 = [] then RegionIndia else to_lower p0))"
proof -
  have "to_lower RegionIndia = RegionIndia" by code_simp
  then show thesis
    using that by (cases "p0 = []")
      (simp_all add: ScheduleNodeWithRegionFallback_def GetFallbackRegions_eq [OF assms] Let_def)
qed

section \<open>The Schedule RPC\<close>

record schedule_response =
  sr_node :: string
  sr_score :: go_float
  sr_breakdown :: "string \<rightharpoonup> go_float"

text \<open>\<open>get_nodes\<close> is the metadata client's \<^verbatim>\<open>GetNodes\<close>.\<close>

definition Schedule :: "(string \<Rightarrow> node_info list rpc) \<Rightarrow> string \<Rightarrow> schedule_response rpc" where
  "Schedule get_nodes clusterID =
     (if clusterID = [] then Inl (Status InvalidArgument ''cluster_id is required'')
      else case get_nodes clusterID of
        Inl e \<Rightarrow> Inl (Status Internal (''failed to get cluster nodes: '' @ err_text e))
      | Inr nodes \<Rightarrow>
          (case ScheduleNode nodes of
             Inl ErrNoNodesAvailable \<Rightarrow>
               Inl (Status ResourceExhausted ''no healthy candidate nodes available in cluster'')
           | Inl (FallbacksFailed e) \<Rightarrow> Inl (Status Internal ''placement calculation failed'')
           | Inr best \<Rightarrow> Inr \<lparr>sr_node = sc_node best, sr_score = sc_score best, sr_breakdown = sc_breakdown best\<rparr>))"

section \<open>Properties\<close>

text \<open>C29. Placement is safe: the chosen node is one of the given nodes, neither dead nor
  draining, and overloaded only when every placeable node is; placement fails exactly when
  every node is dead or draining.\<close>

theorem ScheduleNode_safe:
  "(ScheduleNode ns = Inl ErrNoNodesAvailable \<longleftrightarrow>
      (\<forall>n\<in>set ns. ni_status n = ''dead'' \<or> ni_status n = ''draining'')) \<and>
   (\<forall>s. ScheduleNode ns = Inr s \<longrightarrow>
      (\<exists>n\<in>set ns. sc_node s = ni_id n \<and> sc_status s = ni_status n \<and> ni_status n \<noteq> ''dead'' \<and>
         ni_status n \<noteq> ''draining'' \<and>
         (ni_status n = ''overloaded'' \<longrightarrow>
            (\<forall>m\<in>set ns. ni_status m \<in> {''dead'', ''draining'', ''overloaded''}))))"
proof (intro conjI allI impI)
  show "ScheduleNode ns = Inl ErrNoNodesAvailable \<longleftrightarrow>
      (\<forall>n\<in>set ns. ni_status n = ''dead'' \<or> ni_status n = ''draining'')"
    unfolding ScheduleNode_Inl_iff placeable_def by blast
  fix s assume "ScheduleNode ns = Inr s"
  then obtain n where n: "n \<in> set (candidates ns)" "s = scored n" by (rule ScheduleNode_Inr)
  have "m \<in> set ns \<Longrightarrow> overloaded_node n \<Longrightarrow> placeable m \<Longrightarrow> overloaded_node m" for m
    using candidates_class [OF n(1)] by blast
  then show "\<exists>n\<in>set ns. sc_node s = ni_id n \<and> sc_status s = ni_status n \<and> ni_status n \<noteq> ''dead'' \<and>
         ni_status n \<noteq> ''draining'' \<and>
         (ni_status n = ''overloaded'' \<longrightarrow>
            (\<forall>m\<in>set ns. ni_status m \<in> {''dead'', ''draining'', ''overloaded''}))"
    using candidates_sub [OF n(1)] n(2) unfolding placeable_def overloaded_node_def
    by (intro bexI [of _ n]) auto
qed

definition load_node :: "string \<Rightarrow> string \<Rightarrow> rat \<Rightarrow> node_info" where
  "load_node i st c = \<lparr>ni_id = i, ni_cluster = ''c1'', ni_hostname = i, ni_status = st, ni_cpu = Fin c,
     ni_mem = Fin 50, ni_disk = Fin 50, ni_last_heartbeat = RFC3339 0, ni_registered_at = RFC3339 0,
     ni_region = ''india''\<rparr>"

lemma load_node_simps [simp]: "ni_id (load_node i st c) = i" "ni_status (load_node i st c) = st"
  "ni_cpu (load_node i st c) = Fin c" "ni_mem (load_node i st c) = Fin 50" "ni_disk (load_node i st c) = Fin 50"
  by (simp_all add: load_node_def)

theorem ScheduleNode_safe_witness:
  "ScheduleNode [load_node ''a'' ''dead'' 1, load_node ''b'' ''draining'' 2] = Inl ErrNoNodesAvailable"
  using ScheduleNode_safe [of "[load_node ''a'' ''dead'' 1, load_node ''b'' ''draining'' 2]"] by simp

text \<open>Placement is optimal: when the loads are numbers, no node of the class the
  scheduler picks from scores higher than the chosen one.\<close>

theorem ScheduleNode_optimal:
  assumes "ScheduleNode ns = Inr s"
    and "\<forall>n\<in>set ns. fst (CalculateScore (ni_cpu n) (ni_mem n) (ni_disk n)) \<noteq> NaN"
    and "m \<in> set ns" and "ni_status m \<notin> {''dead'', ''draining'', ''overloaded''}"
  shows "fle (fst (CalculateScore (ni_cpu m) (ni_mem m) (ni_disk m))) (sc_score s) \<and>
     sc_status s \<noteq> ''overloaded''"
proof -
  have m: "m \<in> set (candidates ns)"
    using assms(3,4) by (auto simp: candidates_def Let_def placeable_def overloaded_node_def filter_empty_conv)
  have nan: "sc_score (scored n) \<noteq> NaN" if "n \<in> set (candidates ns)" for n
    using candidates_sub [OF that] assms(2) by simp
  obtain n where n: "n \<in> set (candidates ns)" "s = scored n" using assms(1) by (rule ScheduleNode_Inr)
  have "\<not> higher_score (scored m) s" by (rule ScheduleNode_best [OF assms(1) nan m])
  then have "fle (fst (CalculateScore (ni_cpu m) (ni_mem m) (ni_disk m))) (sc_score s)"
    using nan [OF m] nan [OF n(1)] n(2) by (simp add: higher_score_def fle_iff)
  moreover have "\<not> overloaded_node n"
    using candidates_class [OF n(1)] assms(3,4) by (auto simp: placeable_def overloaded_node_def)
  ultimately show ?thesis using n(2) by (simp add: overloaded_node_def)
qed

theorem ScheduleNode_optimal_witness:
  "\<exists>s. ScheduleNode [load_node ''a'' ''healthy'' 80, load_node ''b'' ''unknown'' 20] = Inr s \<and>
     fle (fst (CalculateScore (Fin 20) (Fin 50) (Fin 50))) (sc_score s)"
proof -
  let ?ns = "[load_node ''a'' ''healthy'' 80, load_node ''b'' ''unknown'' 20]"
  obtain s where s: "ScheduleNode ?ns = Inr s"
    using ScheduleNode_Inl_iff [of ?ns] by (cases "ScheduleNode ?ns") (auto simp: placeable_def)
  have p: "pct 80" "pct 50" "pct 20" by (simp_all add: pct_def)
  have nan: "\<forall>n\<in>set ?ns. fst (CalculateScore (ni_cpu n) (ni_mem n) (ni_disk n)) \<noteq> NaN"
    using total_score_Fin [OF p(1,2,2)] total_score_Fin [OF p(3,2,2)] by (auto simp: total_score_def)
  have m: "load_node ''b'' ''unknown'' 20 \<in> set ?ns"
    and st: "ni_status (load_node ''b'' ''unknown'' 20) \<notin> {''dead'', ''draining'', ''overloaded''}"
    by simp_all
  have "fle (fst (CalculateScore (Fin 20) (Fin 50) (Fin 50))) (sc_score s)"
    using conjunct1 [OF ScheduleNode_optimal [OF s nan m st]] by (simp only: load_node_simps)
  with s show ?thesis by blast
qed

text \<open>C31. The score stays a number between 0 and 100 for percentages, with every
  \<^verbatim>\<open>float32\<close> rounding taken into account, and less load never lowers it.\<close>

theorem CalculateScore_bounds:
  assumes "pct c" "pct m" "pct d" "pct c'" "pct m'" "pct d'" and "c \<le> c'" "m \<le> m'" "d \<le> d'"
  shows "fle (fst (CalculateScore (Fin c') (Fin m') (Fin d'))) (fst (CalculateScore (Fin c) (Fin m) (Fin d))) \<and>
    fle (Fin 0) (fst (CalculateScore (Fin c) (Fin m) (Fin d))) \<and>
    fle (fst (CalculateScore (Fin c) (Fin m) (Fin d))) (Fin 100)"
proof -
  have f: "factor w4 0 = Fin 40" "factor w3 0 = Fin (15728641/524288)" by code_simp+
  have "fadd F32 (fadd F32 (Fin 40) (Fin (15728641/524288))) (Fin (15728641/524288)) = Fin 100"
    by code_simp
  then have top: "total_score 0 0 0 = Fin 100" unfolding total_score_factors f .
  have z: "pct 0" by (simp add: pct_def)
  have "fle (total_score c' m' d') (total_score c m d)" by (rule total_score_anti [OF assms])
  moreover have "fle (total_score c m d) (total_score 0 0 0)"
    by (rule total_score_anti [OF z z z assms(1-3)]) (use assms in \<open>auto simp: pct_def\<close>)
  moreover have "fle (Fin 0) (total_score c m d)" using total_score_Fin [OF assms(1-3)] by auto
  ultimately show ?thesis unfolding top by (simp add: total_score_def)
qed

theorem CalculateScore_bounds_witness:
  "fle (fst (CalculateScore (Fin 90) (Fin 50) (Fin 100))) (fst (CalculateScore (Fin 30) (Fin 50) (Fin (1/3))))"
  using CalculateScore_bounds [of 30 50 "1/3" 90 50 100] by (simp add: pct_def)

text \<open>C30. Regional placement is complete and nearest-first: it succeeds exactly when some
  node can host the database, the node it returns is the scheduler's choice among the nodes
  of the served region, and no nearer region can host.\<close>

theorem RegionFallback_nearest:
  assumes "slice_sort srt" and "map_range rng"
  shows "((\<exists>res. ScheduleNodeWithRegionFallback srt rng nodes p = Inr res) \<longleftrightarrow>
        (\<exists>n\<in>set nodes. placeable n)) \<and>
    (\<forall>res. ScheduleNodeWithRegionFallback srt rng nodes p = Inr res \<longrightarrow>
      (\<exists>xs ys. fallback_order (if p = [] then RegionIndia else to_lower p) = xs @ rs_served res # ys \<and>
        (\<forall>r\<in>set xs. \<not> region_can_host nodes r) \<and> (rs_fallback_used res \<longleftrightarrow> xs \<noteq> []) \<and>
        ScheduleNode (filter (\<lambda>n. inferNodeRegion n = rs_served res) nodes) = Inr (rs_node res)))"
proof -
  let ?fo = "fallback_order (if p = [] then RegionIndia else to_lower p)"
  let ?S = "ScheduleNodeWithRegionFallback srt rng nodes p"
  obtain q where q: "?S = region_loop q (group_nodes (\<lambda>_. []) nodes) 0 None ?fo"
    by (rule RegionFallback_loop [OF assms])
  have "(\<exists>e. ?S = Inl e) \<longleftrightarrow> (\<forall>r\<in>set SupportedRegions. \<not> region_can_host nodes r)"
    unfolding q region_loop_Inl ScheduleNode_region fallback_order_props(1) ..
  also have "\<dots> \<longleftrightarrow> \<not> (\<exists>n\<in>set nodes. placeable n)"
    using inferNodeRegion_supported by (auto simp: region_can_host_def)
  finally have "(\<exists>res. ?S = Inr res) \<longleftrightarrow> (\<exists>n\<in>set nodes. placeable n)" by (cases ?S) auto
  moreover have "\<exists>xs ys. ?fo = xs @ rs_served res # ys \<and> (\<forall>r\<in>set xs. \<not> region_can_host nodes r) \<and>
      (rs_fallback_used res \<longleftrightarrow> xs \<noteq> []) \<and>
      ScheduleNode (filter (\<lambda>n. inferNodeRegion n = rs_served res) nodes) = Inr (rs_node res)"
    if res: "?S = Inr res" for res
  proof -
    obtain xs ys where "?fo = xs @ rs_served res # ys" "\<forall>r\<in>set xs. \<not> region_can_host nodes r"
      "ScheduleNode (group_nodes (\<lambda>_. []) nodes (rs_served res)) = Inr (rs_node res)"
      "rs_fallback_used res \<longleftrightarrow> xs \<noteq> []"
      using region_loop_Inr [OF res [unfolded q], unfolded ScheduleNode_region] by auto
    then show ?thesis by (intro exI [of _ xs] exI [of _ ys]) (simp add: group_nodes_eq)
  qed
  ultimately show ?thesis by blast
qed

theorem RegionFallback_nearest_witness:
  "\<exists>res. ScheduleNodeWithRegionFallback go_isort (go_range 1) [load_node ''a'' ''healthy'' 10] ''japan'' = Inr res"
  by (rule conjunct1 [OF RegionFallback_nearest [OF isort.slice_sort_axioms ranged.map_range_axioms],
        THEN iffD2]) (simp add: placeable_def)

text \<open>A drained node is still placed on: the scheduler excludes the statuses dead and
  draining only, so a node whose evacuation has completed is chosen like a healthy one.\<close>

theorem ScheduleNode_places_on_drained:
  "\<exists>s. ScheduleNode [load_node ''n1'' ''drained'' 5] = Inr s \<and> sc_node s = ''n1'' \<and> sc_status s = ''drained''"
  by (simp add: ScheduleNode_eq candidates_def placeable_def overloaded_node_def Let_def)

end
