(* ===== verification/Autoscaler.thy ===== *)
theory Autoscaler
  imports Proto
begin

text \<open>
  \<^verbatim>\<open>services/scheduler/placement/autoscaler.go\<close>: the decision to add a node or
  to drain one, from the average load of the active nodes, with a cooldown between two
  decisions. The two clock readings of a call are its first two arguments; a last scaling
  time of \<open>None\<close> is Go's zero time.
\<close>

datatype auto_scale_action = ActionScaleOut | ActionScaleIn | ActionNone

record auto_scale_decision =
  ad_action :: auto_scale_action
  ad_target :: string
  ad_reason :: string
  ad_cpu_avg :: go_float
  ad_mem_avg :: go_float

record auto_scaler =
  as_out :: go_float
  as_in :: go_float
  as_cooldown :: int
  as_last :: "int option"

definition NewAutoScaler :: "go_float \<Rightarrow> go_float \<Rightarrow> int \<Rightarrow> auto_scaler" where
  "NewAutoScaler out inn cooldown =
     \<lparr>as_out = out, as_in = inn, as_cooldown = cooldown, as_last = None\<rparr>"

text \<open>The loop that collects the active nodes and sums their loads.\<close>

fun collect_active :: "node_info list \<Rightarrow> node_info list \<Rightarrow> go_float \<Rightarrow> go_float \<Rightarrow> node_info list \<times> go_float \<times> go_float" where
  "collect_active [] act sumCPU sumMem = (act, sumCPU, sumMem)"
| "collect_active (n # ns) act sumCPU sumMem =
     (if ni_status n = ''dead'' \<or> ni_status n = ''draining'' \<or> ni_status n = ''drained''
      then collect_active ns act sumCPU sumMem
      else collect_active ns (act @ [n]) (fadd F32 sumCPU (ni_cpu n)) (fadd F32 sumMem (ni_mem n)))"

definition less_cpu :: "node_info \<Rightarrow> node_info \<Rightarrow> bool" where
  "less_cpu n target = flt (ni_cpu n) (ni_cpu target)"

definition none_decision :: "string \<Rightarrow> go_float \<Rightarrow> go_float \<Rightarrow> auto_scale_decision" where
  "none_decision reason c m =
     \<lparr>ad_action = ActionNone, ad_target = [], ad_reason = reason, ad_cpu_avg = c, ad_mem_avg = m\<rparr>"

definition in_cooldown :: "int \<Rightarrow> auto_scaler \<Rightarrow> bool" where
  "in_cooldown now a = (case as_last a of None \<Rightarrow> False | Some t \<Rightarrow> now - t < as_cooldown a)"

definition Evaluate :: "int \<Rightarrow> int \<Rightarrow> node_info list \<Rightarrow> auto_scaler \<Rightarrow> auto_scale_decision \<times> auto_scaler" where
  "Evaluate t0 t1 nodes a =
     (if in_cooldown t0 a then (none_decision ''cooldown period active'' (Fin 0) (Fin 0), a)
      else case collect_active nodes [] (Fin 0) (Fin 0) of
        ([], _, _) \<Rightarrow> (none_decision ''no active nodes'' (Fin 0) (Fin 0), a)
      | (n0 # rest, sumCPU, sumMem) \<Rightarrow>
          (let len = of_int_f F32 (int (length (n0 # rest)));
               avgCPU = fdiv F32 sumCPU len;
               avgMem = fdiv F32 sumMem len
           in if fle (as_out a) avgCPU \<or> fle (as_out a) avgMem then
                (\<lparr>ad_action = ActionScaleOut, ad_target = [],
                  ad_reason = ''average CPU ('' @ fmt_fixed 1 avgCPU @ ''%) or Memory ('' @ fmt_fixed 1 avgMem @
                    ''%) exceeded threshold ('' @ fmt_fixed 1 (as_out a) @ ''%)'',
                  ad_cpu_avg = avgCPU, ad_mem_avg = avgMem\<rparr>,
                 a\<lparr>as_last := Some t1\<rparr>)
              else if length (n0 # rest) > 1 \<and> fle avgCPU (as_in a) \<and> fle avgMem (as_in a) then
                (\<lparr>ad_action = ActionScaleIn, ad_target = ni_id (best_loop less_cpu n0 rest),
                  ad_reason = ''average CPU ('' @ fmt_fixed 1 avgCPU @ ''%) below scale-in threshold ('' @
                    fmt_fixed 1 (as_in a) @ ''%)'',
                  ad_cpu_avg = avgCPU, ad_mem_avg = avgMem\<rparr>,
                 a\<lparr>as_last := Some t1\<rparr>)
              else (none_decision ''cluster utilization within normal bounds'' avgCPU avgMem, a)))"

section \<open>Active nodes\<close>

definition active_node :: "node_info \<Rightarrow> bool" where
  "active_node n \<longleftrightarrow> ni_status n \<notin> {''dead'', ''draining'', ''drained''}"

lemma collect_active_eq:
  "collect_active ns act c m =
     (act @ filter active_node ns, fold (\<lambda>n s. fadd F32 s (ni_cpu n)) (filter active_node ns) c,
      fold (\<lambda>n s. fadd F32 s (ni_mem n)) (filter active_node ns) m)"
  by (induction ns arbitrary: act c m) (auto simp: active_node_def)

text \<open>The average of a load over the active nodes, in single precision.\<close>

definition active_avg :: "(node_info \<Rightarrow> go_float) \<Rightarrow> node_info list \<Rightarrow> go_float" where
  "active_avg load ns =
     fdiv F32 (fold (\<lambda>n s. fadd F32 s (load n)) (filter active_node ns) (Fin 0))
       (of_int_f F32 (int (length (filter active_node ns))))"

text \<open>The three outcomes of a call, once the averages have names.\<close>

lemma Evaluate_cases:
  fixes t0 t1 a ns
  defines "c \<equiv> active_avg ni_cpu ns" and "m \<equiv> active_avg ni_mem ns"
  obtains (cooldown) "in_cooldown t0 a"
      "Evaluate t0 t1 ns a = (none_decision ''cooldown period active'' (Fin 0) (Fin 0), a)"
  | (nobody) "\<not> in_cooldown t0 a" "filter active_node ns = []"
      "Evaluate t0 t1 ns a = (none_decision ''no active nodes'' (Fin 0) (Fin 0), a)"
  | (out) r where "\<not> in_cooldown t0 a" "filter active_node ns \<noteq> []" "fle (as_out a) c \<or> fle (as_out a) m"
      "Evaluate t0 t1 ns a =
        (\<lparr>ad_action = ActionScaleOut, ad_target = [], ad_reason = r, ad_cpu_avg = c, ad_mem_avg = m\<rparr>,
         a\<lparr>as_last := Some t1\<rparr>)"
  | (inn) r n0 rest where "\<not> in_cooldown t0 a" "filter active_node ns = n0 # rest"
      "\<not> (fle (as_out a) c \<or> fle (as_out a) m)" "rest \<noteq> []" "fle c (as_in a)" "fle m (as_in a)"
      "Evaluate t0 t1 ns a =
        (\<lparr>ad_action = ActionScaleIn, ad_target = ni_id (best_loop less_cpu n0 rest), ad_reason = r,
          ad_cpu_avg = c, ad_mem_avg = m\<rparr>, a\<lparr>as_last := Some t1\<rparr>)"
  | (steady) n0 rest where "\<not> in_cooldown t0 a" "filter active_node ns = n0 # rest"
      "\<not> (fle (as_out a) c \<or> fle (as_out a) m)" "\<not> (rest \<noteq> [] \<and> fle c (as_in a) \<and> fle m (as_in a))"
      "Evaluate t0 t1 ns a = (none_decision ''cluster utilization within normal bounds'' c m, a)"
proof (cases "in_cooldown t0 a")
  case True
  then show thesis by (rule cooldown) (simp add: Evaluate_def True)
next
  case False
  show thesis
  proof (cases "filter active_node ns")
    case Nil
    with False show thesis by (intro nobody) (simp_all add: Evaluate_def collect_active_eq)
  next
    case (Cons n0 rest)
    have avg: "active_avg load ns = fdiv F32 (fold (\<lambda>n s. fadd F32 s (load n)) (n0 # rest) (Fin 0))
       (of_int_f F32 (int (length (n0 # rest))))" for load
      unfolding active_avg_def Cons ..
    note ev = Evaluate_def collect_active_eq append_Nil Cons avg [symmetric] c_def [symmetric]
      m_def [symmetric] Let_def if_True if_False prod.case list.case simp_thms
    consider "fle (as_out a) c \<or> fle (as_out a) m"
      | "\<not> (fle (as_out a) c \<or> fle (as_out a) m)" "rest \<noteq> []" "fle c (as_in a)" "fle m (as_in a)"
      | "\<not> (fle (as_out a) c \<or> fle (as_out a) m)" "\<not> (rest \<noteq> [] \<and> fle c (as_in a) \<and> fle m (as_in a))"
      by auto
    then show thesis
    proof cases
      case 1
      with False show thesis by (intro out) (simp_all only: ev list.distinct)
    next
      case 2
      then have "(length (n0 # rest) > 1) = True" by (cases rest) auto
      with 2 False Cons show thesis by (intro inn [of n0 rest]) (simp_all only: ev)
    next
      case 3
      then have "(length (n0 # rest) > 1 \<and> fle c (as_in a) \<and> fle m (as_in a)) = False"
        by (cases rest) auto
      with 3 False Cons show thesis by (intro steady [of n0 rest]) (simp_all only: ev)
    qed
  qed
qed

lemma Evaluate_scaled:
  "ad_action (fst (Evaluate t0 t1 ns a)) \<noteq> ActionNone \<Longrightarrow>
     \<not> in_cooldown t0 a \<and> snd (Evaluate t0 t1 ns a) = a\<lparr>as_last := Some t1\<rparr>"
  by (rule Evaluate_cases [of t0 a t1 ns]) (simp_all add: none_decision_def)

lemma Evaluate_idle:
  "ad_action (fst (Evaluate t0 t1 ns a)) = ActionNone \<Longrightarrow> snd (Evaluate t0 t1 ns a) = a"
  by (rule Evaluate_cases [of t0 a t1 ns]) (simp_all add: none_decision_def)

lemma Evaluate_frame [simp]:
  "as_cooldown (snd (Evaluate t0 t1 ns a)) = as_cooldown a"
  "as_out (snd (Evaluate t0 t1 ns a)) = as_out a" "as_in (snd (Evaluate t0 t1 ns a)) = as_in a"
  by (cases "ad_action (fst (Evaluate t0 t1 ns a)) = ActionNone";
      simp add: Evaluate_idle Evaluate_scaled)+

section \<open>Runs of the scaler\<close>

text \<open>A run is a list of calls; the result is the times of the scaling decisions.\<close>

fun scaling_times :: "auto_scaler \<Rightarrow> (int \<times> int \<times> node_info list) list \<Rightarrow> int list" where
  "scaling_times a [] = []"
| "scaling_times a ((t0, t1, ns) # es) =
     (let r = Evaluate t0 t1 ns a
      in (if ad_action (fst r) \<noteq> ActionNone then [t1] else []) @ scaling_times (snd r) es)"

text \<open>The clock of a run never goes back.\<close>

fun clock_ok :: "int \<Rightarrow> (int \<times> int \<times> node_info list) list \<Rightarrow> bool" where
  "clock_ok now [] = True"
| "clock_ok now ((t0, t1, ns) # es) = (now \<le> t0 \<and> t0 \<le> t1 \<and> clock_ok t1 es)"

lemma scaling_times_clock: "s \<in> set (scaling_times a es) \<Longrightarrow> clock_ok now es \<Longrightarrow> now \<le> s"
proof (induction es arbitrary: a now)
  case (Cons e es)
  obtain t0 t1 ns where e: "e = (t0, t1, ns)" by (cases e)
  let ?a = "snd (Evaluate t0 t1 ns a)"
  have "now \<le> t1" and "clock_ok t1 es" using Cons.prems(2) by (simp_all add: e)
  moreover have "s = t1 \<or> s \<in> set (scaling_times ?a es)"
    using Cons.prems(1) by (auto simp: e Let_def split: if_splits)
  ultimately show ?case using Cons.IH [of ?a t1] by auto
qed simp

lemma scaling_times_after:
  assumes "s \<in> set (scaling_times a es)" and "clock_ok now es" and "as_last a = Some t"
    and "0 \<le> as_cooldown a"
  shows "t + as_cooldown a \<le> s"
  using assms
proof (induction es arbitrary: a t now)
  case (Cons e es)
  obtain t0 t1 ns where e: "e = (t0, t1, ns)" by (cases e)
  let ?a = "snd (Evaluate t0 t1 ns a)"
  have c: "t0 \<le> t1" "clock_ok t1 es" using Cons.prems(2) by (simp_all add: e)
  show ?case
  proof (cases "ad_action (fst (Evaluate t0 t1 ns a)) = ActionNone")
    case True
    then have "?a = a" by (rule Evaluate_idle)
    moreover have "s \<in> set (scaling_times ?a es)" using Cons.prems(1) True by (simp add: e Let_def)
    ultimately show ?thesis using Cons.IH [of a t1 t] c(2) Cons.prems(3,4) by simp
  next
    case False
    then have "t + as_cooldown a \<le> t0"
      using Evaluate_scaled [OF False] Cons.prems(3) by (simp add: in_cooldown_def)
    moreover have "t1 \<le> s"
      using Cons.prems(1) scaling_times_clock [of s ?a es t1] c(2) False by (auto simp: e Let_def)
    ultimately show ?thesis using c(1) by simp
  qed
qed simp

section \<open>The autoscaler's contract\<close>

text \<open>
  C38. Two scaling decisions are never closer than the cooldown: on every run whose clock
  does not go back, each decision time comes at least the cooldown after every earlier one.
\<close>

theorem Evaluate_cooldown_spacing:
  assumes "clock_ok now es" and "0 \<le> as_cooldown a"
  shows "sorted_wrt (\<lambda>t s. t + as_cooldown a \<le> s) (scaling_times a es)"
  using assms
proof (induction es arbitrary: a now)
  case (Cons e es)
  obtain t0 t1 ns where e: "e = (t0, t1, ns)" by (cases e)
  let ?a = "snd (Evaluate t0 t1 ns a)"
  have c: "clock_ok t1 es" using Cons.prems(1) by (simp add: e)
  have IH: "sorted_wrt (\<lambda>t s. t + as_cooldown a \<le> s) (scaling_times ?a es)"
    using Cons.IH [of t1 ?a] c Cons.prems(2) by simp
  have "t1 + as_cooldown a \<le> s"
    if "ad_action (fst (Evaluate t0 t1 ns a)) \<noteq> ActionNone" "s \<in> set (scaling_times ?a es)" for s
    using scaling_times_after [OF that(2) c, of t1] Evaluate_scaled [OF that(1)] Cons.prems(2) by simp
  with IH show ?case by (auto simp: e Let_def)
qed simp

text \<open>
  The action of a call is determined by the cooldown and the averages of the active
  nodes: scale out when an average reaches the scale-out threshold, otherwise scale in when
  at least two nodes are active and both averages are at most the scale-in threshold; no
  action in every other case.
\<close>

theorem Evaluate_action:
  "ad_action (fst (Evaluate t0 t1 ns a)) =
     (if in_cooldown t0 a \<or> filter active_node ns = [] then ActionNone
      else if fle (as_out a) (active_avg ni_cpu ns) \<or> fle (as_out a) (active_avg ni_mem ns)
      then ActionScaleOut
      else if 2 \<le> length (filter active_node ns) \<and> fle (active_avg ni_cpu ns) (as_in a) \<and>
              fle (active_avg ni_mem ns) (as_in a)
      then ActionScaleIn else ActionNone)"
proof (cases rule: Evaluate_cases [of t0 a t1 ns])
  case (inn r n0 rest)
  then have "2 \<le> length (filter active_node ns)" by (cases rest) auto
  with inn show ?thesis by simp
next
  case (steady n0 rest)
  have "2 \<le> length (filter active_node ns) \<longleftrightarrow> rest \<noteq> []" using steady(2) by (cases rest) auto
  with steady show ?thesis by (simp add: none_decision_def)
qed (auto simp: none_decision_def)

text \<open>
  A scale-in decision names a node of the list that is not dead, draining or drained
  and that no other such node undercuts in CPU load.
\<close>

theorem Evaluate_scale_in_target:
  assumes "ad_action (fst (Evaluate t0 t1 ns a)) = ActionScaleIn"
    and "\<And>n. n \<in> set ns \<Longrightarrow> ni_cpu n \<noteq> NaN"
  shows "\<exists>n \<in> set ns. active_node n \<and> ad_target (fst (Evaluate t0 t1 ns a)) = ni_id n \<and>
           (\<forall>n' \<in> set ns. active_node n' \<longrightarrow> \<not> flt (ni_cpu n') (ni_cpu n))"
proof -
  obtain r n0 rest where f: "filter active_node ns = n0 # rest"
    and ev: "Evaluate t0 t1 ns a =
        (\<lparr>ad_action = ActionScaleIn, ad_target = ni_id (best_loop less_cpu n0 rest), ad_reason = r,
          ad_cpu_avg = active_avg ni_cpu ns, ad_mem_avg = active_avg ni_mem ns\<rparr>, a\<lparr>as_last := Some t1\<rparr>)"
    using assms(1) by (cases rule: Evaluate_cases [of t0 a t1 ns]) (simp_all add: none_decision_def)
  let ?b = "best_loop less_cpu n0 rest"
  have set_f: "insert n0 (set rest) = {n \<in> set ns. active_node n}"
    using f by (metis list.set(2) set_filter)
  have "strict_weak_on (set ns) less_cpu"
    using strict_weak_flt(1) [of "set ns" ni_cpu] assms(2) by (simp add: less_cpu_def [abs_def])
  then have sw: "strict_weak_on (insert n0 (set rest)) less_cpu"
    by (rule strict_weak_on_subset) (use set_f in auto)
  have "?b \<in> insert n0 (set rest)" by (rule best_loop_in)
  with set_f have "?b \<in> set ns" and "active_node ?b" by auto
  moreover have "\<not> flt (ni_cpu n') (ni_cpu ?b)" if "n' \<in> set ns" "active_node n'" for n'
    using best_loop_unbeaten [OF sw, of n'] that set_f by (auto simp: less_cpu_def)
  ultimately show ?thesis by (auto simp: ev)
qed

section \<open>Concrete runs\<close>

definition demo_node :: "string \<Rightarrow> string \<Rightarrow> rat \<Rightarrow> node_info" where
  "demo_node i st cpu =
     \<lparr>ni_id = i, ni_cluster = ''c1'', ni_hostname = ''h-'' @ i, ni_status = st, ni_cpu = Fin cpu,
      ni_mem = Fin 10, ni_disk = Fin 5, ni_last_heartbeat = RFC3339 0, ni_registered_at = RFC3339 0,
      ni_region = ''us-east''\<rparr>"

definition demo_scaler :: auto_scaler where
  "demo_scaler = NewAutoScaler (Fin 80) (Fin 20) (5 * minute)"

definition demo_run :: "(int \<times> int \<times> node_info list) list" where
  "demo_run = [(0, 1, [demo_node ''a'' ''healthy'' 90]), (2, 3, [demo_node ''a'' ''healthy'' 90]),
     (6 * minute, 6 * minute, [demo_node ''a'' ''healthy'' 90])]"

theorem Evaluate_cooldown_spacing_witness:
  "scaling_times demo_scaler demo_run = [1, 6 * minute] \<and>
   sorted_wrt (\<lambda>t s. t + as_cooldown demo_scaler \<le> s) (scaling_times demo_scaler demo_run)"
proof
  show "scaling_times demo_scaler demo_run = [1, 6 * minute]" by code_simp
  show "sorted_wrt (\<lambda>t s. t + as_cooldown demo_scaler \<le> s) (scaling_times demo_scaler demo_run)"
    by (rule Evaluate_cooldown_spacing [of 0]) code_simp+
qed

definition demo_nodes :: "node_info list" where
  "demo_nodes = [demo_node ''a'' ''healthy'' 12, demo_node ''b'' ''dead'' 1, demo_node ''c'' ''healthy'' 3]"

theorem Evaluate_scale_in_target_witness:
  "\<exists>n \<in> set demo_nodes. active_node n \<and> ad_target (fst (Evaluate 0 1 demo_nodes demo_scaler)) = ni_id n \<and>
     (\<forall>n' \<in> set demo_nodes. active_node n' \<longrightarrow> \<not> flt (ni_cpu n') (ni_cpu n))"
proof (rule Evaluate_scale_in_target)
  show "ad_action (fst (Evaluate 0 1 demo_nodes demo_scaler)) = ActionScaleIn" by code_simp
  show "ni_cpu n \<noteq> NaN" if "n \<in> set demo_nodes" for n
    using that by (auto simp: demo_nodes_def demo_node_def)
qed

end
