(* ===== verification/RateLimit.thy ===== *)
theory RateLimit
  imports Proto
begin

text \<open>
  The role hierarchy of \<^verbatim>\<open>services/auth-service/auth/middleware.go\<close> and the
  per-client request budget of \<^verbatim>\<open>services/auth-service/auth/ratelimit.go\<close>. The
  clock reading of \<^verbatim>\<open>Allow\<close> is its first argument; the mutex makes every call
  one step, so concurrent clients are sequences of calls.
\<close>

section \<open>Roles\<close>

abbreviation RoleAdmin :: string where "RoleAdmin \<equiv> ''admin''"
abbreviation RoleOperator :: string where "RoleOperator \<equiv> ''operator''"
abbreviation RoleReadOnly :: string where "RoleReadOnly \<equiv> ''read-only''"

definition RoleSatisfies :: "string \<Rightarrow> string \<Rightarrow> bool" where
  "RoleSatisfies presented required =
     (if presented = RoleAdmin then True
      else if presented = RoleOperator \<and> (required = RoleOperator \<or> required = RoleReadOnly) then True
      else if presented = RoleReadOnly \<and> required = RoleReadOnly then True
      else False)"

text \<open>The privilege of a role: unknown roles rank below the three known ones.\<close>

definition role_rank :: "string \<Rightarrow> nat" where
  "role_rank r = (if r = RoleAdmin then 3 else if r = RoleOperator then 2 else if r = RoleReadOnly then 1 else 0)"

text \<open>
  The hierarchy: a presented role meets a required role of the three exactly when it
  ranks at least as high; a role outside the three meets none of them.
\<close>

theorem RoleSatisfies_rank:
  assumes "required \<in> {RoleAdmin, RoleOperator, RoleReadOnly}"
  shows "RoleSatisfies presented required \<longleftrightarrow> role_rank required \<le> role_rank presented"
  using assms by (auto simp: RoleSatisfies_def role_rank_def)

theorem RoleSatisfies_rank_witness:
  "RoleSatisfies ''auditor'' RoleOperator \<longleftrightarrow> role_rank RoleOperator \<le> role_rank ''auditor''"
  by (rule RoleSatisfies_rank) simp

section \<open>Buckets\<close>

record rate_rule =
  rr_max :: int
  rr_window :: int

record client_bucket =
  cb_tokens :: int
  cb_max :: int
  cb_last :: int
  cb_rate :: int

record rate_limiter =
  rl_buckets :: "string \<Rightarrow> client_bucket option"
  rl_rules :: "string \<Rightarrow> rate_rule option"

definition DefaultRules :: "string \<Rightarrow> rate_rule option" where
  "DefaultRules =
     [RoleAdmin \<mapsto> \<lparr>rr_max = 1000, rr_window = minute\<rparr>,
      RoleOperator \<mapsto> \<lparr>rr_max = 500, rr_window = minute\<rparr>,
      RoleReadOnly \<mapsto> \<lparr>rr_max = 100, rr_window = minute\<rparr>]"

definition NewRateLimiter :: "(string \<Rightarrow> rate_rule option) \<Rightarrow> rate_limiter" where
  "NewRateLimiter rules = \<lparr>rl_buckets = Map.empty, rl_rules = rules\<rparr>"

text \<open>A role without a rule gets that of read-only clients, the zero rule if there is none.\<close>

definition rule_for :: "(string \<Rightarrow> rate_rule option) \<Rightarrow> string \<Rightarrow> rate_rule" where
  "rule_for rules role =
     (case rules role of
        Some rule \<Rightarrow> rule
      | None \<Rightarrow> (case rules RoleReadOnly of Some rule \<Rightarrow> rule | None \<Rightarrow> \<lparr>rr_max = 0, rr_window = 0\<rparr>))"

definition refill :: "int \<Rightarrow> client_bucket \<Rightarrow> client_bucket" where
  "refill now b = (if cb_rate b \<le> now - cb_last b then b\<lparr>cb_tokens := cb_max b, cb_last := now\<rparr> else b)"

definition Allow :: "int \<Rightarrow> string \<Rightarrow> string \<Rightarrow> rate_limiter \<Rightarrow> bool \<times> rate_limiter" where
  "Allow now key role r =
     (let rule = rule_for (rl_rules r) role
      in case rl_buckets r key of
           None \<Rightarrow>
             (True, r\<lparr>rl_buckets := (rl_buckets r)(key \<mapsto>
                \<lparr>cb_tokens = rr_max rule - 1, cb_max = rr_max rule, cb_last = now, cb_rate = rr_window rule\<rparr>)\<rparr>)
         | Some b \<Rightarrow>
             (let b = refill now b
              in if cb_tokens b > 0
                 then (True, r\<lparr>rl_buckets := (rl_buckets r)(key \<mapsto> b\<lparr>cb_tokens := cb_tokens b - 1\<rparr>)\<rparr>)
                 else (False, r\<lparr>rl_buckets := (rl_buckets r)(key \<mapsto> b)\<rparr>)))"

lemma refill_frame [simp]: "cb_max (refill now b) = cb_max b" "cb_rate (refill now b) = cb_rate b"
  by (simp_all add: refill_def)

lemma Allow_rules [simp]: "rl_rules (snd (Allow now key role r)) = rl_rules r"
  by (simp add: Allow_def Let_def split: option.splits)

lemma Allow_other [simp]:
  "k \<noteq> key \<Longrightarrow> rl_buckets (snd (Allow now key role r)) k = rl_buckets r k"
  by (simp add: Allow_def Let_def split: option.splits)

text \<open>A call reads and writes only the bucket of its key.\<close>

definition bucket_step :: "int \<Rightarrow> rate_rule \<Rightarrow> client_bucket option \<Rightarrow> bool \<times> client_bucket" where
  "bucket_step now rule ob =
     (case ob of
        None \<Rightarrow> (True, \<lparr>cb_tokens = rr_max rule - 1, cb_max = rr_max rule, cb_last = now, cb_rate = rr_window rule\<rparr>)
      | Some b \<Rightarrow> (let b = refill now b
                   in if cb_tokens b > 0 then (True, b\<lparr>cb_tokens := cb_tokens b - 1\<rparr>) else (False, b)))"

lemma Allow_eq:
  "Allow now key role r =
     (fst (bucket_step now (rule_for (rl_rules r) role) (rl_buckets r key)),
      r\<lparr>rl_buckets := (rl_buckets r)(key \<mapsto> snd (bucket_step now (rule_for (rl_rules r) role) (rl_buckets r key)))\<rparr>)"
  by (simp add: Allow_def bucket_step_def Let_def split: option.splits)

section \<open>Runs\<close>

type_synonym call = "int \<times> string \<times> string"

text \<open>The outcomes of a sequence of calls, one per call, and the limiter after it.\<close>

fun allow_run :: "call list \<Rightarrow> rate_limiter \<Rightarrow> bool list \<times> rate_limiter" where
  "allow_run [] r = ([], r)"
| "allow_run ((now, key, role) # cs) r =
     (let (ok, r') = Allow now key role r; (oks, r'') = allow_run cs r' in (ok # oks, r''))"

text \<open>The outcomes a client sees: those of the calls with its key.\<close>

fun outcomes :: "string \<Rightarrow> call list \<Rightarrow> rate_limiter \<Rightarrow> bool list" where
  "outcomes k [] r = []"
| "outcomes k ((now, key, role) # cs) r =
     (let (ok, r') = Allow now key role r in if key = k then ok # outcomes k cs r' else outcomes k cs r')"

definition call_step :: "call \<Rightarrow> rate_limiter \<Rightarrow> bool \<times> rate_limiter" where
  "call_step c r = Allow (fst c) (fst (snd c)) (snd (snd c)) r"

lemma allow_run_Cons:
  "allow_run (c # cs) r =
     (fst (call_step c r) # fst (allow_run cs (snd (call_step c r))), snd (allow_run cs (snd (call_step c r))))"
  by (cases c) (simp add: call_step_def case_prod_beta Let_def)

lemma outcomes_Cons:
  "outcomes k (c # cs) r =
     (if fst (snd c) = k then [fst (call_step c r)] else []) @ outcomes k cs (snd (call_step c r))"
  by (cases c) (simp add: call_step_def case_prod_beta Let_def)

declare allow_run.simps(2) [simp del] outcomes.simps(2) [simp del]

lemma length_allow_run: "length (fst (allow_run cs r)) = length cs"
  by (induction cs arbitrary: r) (simp_all add: allow_run_Cons outcomes_Cons case_prod_beta)

lemma allow_run_append:
  "allow_run (cs @ ds) r =
     (fst (allow_run cs r) @ fst (allow_run ds (snd (allow_run cs r))), snd (allow_run ds (snd (allow_run cs r))))"
  by (induction cs arbitrary: r) (simp_all add: allow_run_Cons outcomes_Cons case_prod_beta)

lemma outcomes_eq:
  "outcomes k cs r = map fst (filter (\<lambda>(ok, c). fst (snd c) = k) (zip (fst (allow_run cs r)) cs))"
  by (induction cs arbitrary: r) (simp_all add: allow_run_Cons outcomes_Cons case_prod_beta)

definition count_allowed :: "string \<Rightarrow> call list \<Rightarrow> rate_limiter \<Rightarrow> nat" where
  "count_allowed k cs r = length (filter id (outcomes k cs r))"

text \<open>The bucket invariant under a rule: it was made by that rule and a token is gone.\<close>

definition bucket_ok :: "rate_rule \<Rightarrow> client_bucket \<Rightarrow> bool" where
  "bucket_ok rule b \<longleftrightarrow>
     cb_max b = rr_max rule \<and> cb_rate b = rr_window rule \<and> 0 \<le> cb_tokens b \<and> cb_tokens b < cb_max b"

lemma bucket_step_ok:
  assumes "0 < rr_max rule" and "\<And>b. ob = Some b \<Longrightarrow> bucket_ok rule b"
  shows "bucket_ok rule (snd (bucket_step now rule ob))"
  using assms by (cases ob) (auto simp: bucket_step_def bucket_ok_def refill_def Let_def)

lemma allow_run_rules [simp]: "rl_rules (snd (allow_run cs r)) = rl_rules r"
  by (induction cs arbitrary: r) (simp_all add: allow_run_Cons call_step_def)

lemma call_step_ok:
  assumes "0 < rr_max rule" and "\<And>b. rl_buckets r k = Some b \<Longrightarrow> bucket_ok rule b"
    and "fst (snd c) = k \<Longrightarrow> rule_for (rl_rules r) (snd (snd c)) = rule"
    and "rl_buckets (snd (call_step c r)) k = Some b"
  shows "bucket_ok rule b"
proof (cases "fst (snd c) = k")
  case True
  with assms(4) have b: "b = snd (bucket_step (fst c) rule (rl_buckets r k))"
    using assms(3) by (simp add: call_step_def Allow_eq)
  show ?thesis unfolding b by (rule bucket_step_ok [OF assms(1,2)])
qed (use assms(2,4) in \<open>simp add: call_step_def\<close>)

lemma call_step_rules [simp]: "rl_rules (snd (call_step c r)) = rl_rules r"
  by (simp add: call_step_def)

lemma allow_run_bucket_ok:
  assumes "0 < rr_max rule" and "\<And>b. rl_buckets r k = Some b \<Longrightarrow> bucket_ok rule b"
    and "\<And>c. c \<in> set cs \<Longrightarrow> fst (snd c) = k \<Longrightarrow> rule_for (rl_rules r) (snd (snd c)) = rule"
    and "rl_buckets (snd (allow_run cs r)) k = Some b"
  shows "bucket_ok rule b"
  using assms(2-4)
proof (induction cs arbitrary: r)
  case (Cons c cs)
  show ?case
  proof (rule Cons.IH [of "snd (call_step c r)"])
    show "bucket_ok rule b" if "rl_buckets (snd (call_step c r)) k = Some b" for b
      by (rule call_step_ok [OF assms(1) Cons.prems(1) _ that]) (use Cons.prems(2) in simp_all)
  qed (use Cons.prems(2,3) in \<open>simp_all add: allow_run_Cons\<close>)
qed simp

text \<open>
  What a client can still get before a window \<open>[s, s + w)\<close> closes: its tokens, and one
  refill if the last one came before the window.
\<close>

definition potential :: "int \<Rightarrow> rate_rule \<Rightarrow> client_bucket option \<Rightarrow> int" where
  "potential s rule ob =
     (case ob of None \<Rightarrow> rr_max rule
      | Some b \<Rightarrow> cb_tokens b + (if cb_last b < s then rr_max rule else 0))"

lemma bucket_step_potential:
  assumes "0 < rr_max rule" and "\<And>b. ob = Some b \<Longrightarrow> bucket_ok rule b"
    and "s \<le> now" and "now < s + rr_window rule"
  shows "(if fst (bucket_step now rule ob) then 1 else 0) + potential s rule (Some (snd (bucket_step now rule ob)))
           \<le> potential s rule ob"
  using assms by (cases ob) (auto simp: bucket_step_def potential_def bucket_ok_def refill_def Let_def)

lemma count_allowed_Cons:
  "count_allowed k (c # cs) r =
     (if fst (snd c) = k \<and> fst (call_step c r) then 1 else 0) + count_allowed k cs (snd (call_step c r))"
  by (simp add: count_allowed_def outcomes_Cons)

lemma count_allowed_potential:
  assumes "0 < rr_max rule" and "\<And>b. rl_buckets r k = Some b \<Longrightarrow> bucket_ok rule b"
    and "\<And>c. c \<in> set cs \<Longrightarrow> fst (snd c) = k \<Longrightarrow> rule_for (rl_rules r) (snd (snd c)) = rule"
    and "\<And>c. c \<in> set cs \<Longrightarrow> s \<le> fst c \<and> fst c < s + rr_window rule"
  shows "int (count_allowed k cs r) \<le> potential s rule (rl_buckets r k)"
  using assms(2-4)
proof (induction cs arbitrary: r)
  case Nil
  then show ?case using assms(1)
    by (cases "rl_buckets r k") (auto simp: count_allowed_def potential_def bucket_ok_def)
next
  case (Cons c cs)
  let ?r = "snd (call_step c r)"
  have ok: "bucket_ok rule b" if "rl_buckets ?r k = Some b" for b
    by (rule call_step_ok [OF assms(1) Cons.prems(1) _ that]) (use Cons.prems(2) in simp_all)
  have IH: "int (count_allowed k cs ?r) \<le> potential s rule (rl_buckets ?r k)"
    by (rule Cons.IH [OF ok]) (use Cons.prems(2,3) in simp_all)
  show ?case
  proof (cases "fst (snd c) = k")
    case False
    with IH show ?thesis by (simp add: count_allowed_Cons call_step_def)
  next
    case True
    have t: "s \<le> fst c" "fst c < s + rr_window rule" using Cons.prems(3) [of c] by simp_all
    have "call_step c r = (fst (bucket_step (fst c) rule (rl_buckets r k)),
        r\<lparr>rl_buckets := (rl_buckets r)(k \<mapsto> snd (bucket_step (fst c) rule (rl_buckets r k)))\<rparr>)"
      using True Cons.prems(2) [of c] by (simp add: call_step_def Allow_eq)
    with IH bucket_step_potential [of rule "rl_buckets r k", OF assms(1) Cons.prems(1) t] True show ?thesis
      by (simp add: count_allowed_Cons split: if_splits)
  qed
qed

section \<open>What the limiter promises\<close>

text \<open>
  The budget: starting from a fresh limiter, after any calls \<open>before\<close>, the calls of one
  client inside a window \<open>[s, s + w)\<close> that are let through number at most
  \<open>2 * max - 1\<close>, where \<open>max\<close> and \<open>w\<close> are those of the rule of its role.
\<close>

theorem Allow_window_bound:
  assumes "0 < rr_max rule"
    and "\<And>c. c \<in> set (before @ cs) \<Longrightarrow> fst (snd c) = k \<Longrightarrow> rule_for rules (snd (snd c)) = rule"
    and "\<And>c. c \<in> set cs \<Longrightarrow> s \<le> fst c \<and> fst c < s + rr_window rule"
  shows "int (count_allowed k cs (snd (allow_run before (NewRateLimiter rules)))) \<le> 2 * rr_max rule - 1"
proof -
  let ?r = "snd (allow_run before (NewRateLimiter rules))"
  have b: "bucket_ok rule b" if "rl_buckets ?r k = Some b" for b
    by (rule allow_run_bucket_ok [OF assms(1) _ _ that]) (use assms(2) in \<open>auto simp: NewRateLimiter_def\<close>)
  have "int (count_allowed k cs ?r) \<le> potential s rule (rl_buckets ?r k)"
    by (rule count_allowed_potential [OF assms(1) b])
      (use assms(2,3) in \<open>auto simp: NewRateLimiter_def\<close>)
  also have "\<dots> \<le> 2 * rr_max rule - 1"
    using assms(1) b by (cases "rl_buckets ?r k") (auto simp: potential_def bucket_ok_def)
  finally show ?thesis .
qed

text \<open>
  The decision: a call is refused exactly when its key has a bucket that holds no token
  after the refill, which happens when the bucket's window has elapsed; so a client that
  waits a window is let through again.
\<close>

theorem Allow_refused_iff:
  "\<not> fst (Allow now key role r) \<longleftrightarrow>
     (\<exists>b. rl_buckets r key = Some b \<and>
        (if cb_rate b \<le> now - cb_last b then cb_max b \<le> 0 else cb_tokens b \<le> 0))"
  by (auto simp: Allow_def refill_def Let_def split: option.splits)

text \<open>
  Isolation: what a client sees depends on its own calls only; removing the calls of
  every other client from a run changes none of its outcomes.
\<close>

theorem outcomes_isolated:
  "outcomes k (filter (\<lambda>c. fst (snd c) = k) cs) r = outcomes k cs r"
proof -
  have "outcomes k (filter (\<lambda>c. fst (snd c) = k) cs) r = outcomes k cs r'"
    if "rl_buckets r k = rl_buckets r' k" "rl_rules r = rl_rules r'" for r r'
    using that
  proof (induction cs arbitrary: r r')
    case (Cons c cs)
    show ?case
    proof (cases "fst (snd c) = k")
      case True
      then have "outcomes k (filter (\<lambda>c. fst (snd c) = k) cs) (snd (call_step c r)) =
          outcomes k cs (snd (call_step c r'))"
        by (intro Cons.IH) (use Cons.prems in \<open>simp_all add: call_step_def Allow_eq\<close>)
      with True Cons.prems show ?thesis by (simp add: outcomes_Cons call_step_def Allow_eq)
    next
      case False
      then have "outcomes k (filter (\<lambda>c. fst (snd c) = k) cs) r = outcomes k cs (snd (call_step c r'))"
        by (intro Cons.IH) (use Cons.prems in \<open>simp_all add: call_step_def\<close>)
      with False show ?thesis by (simp add: outcomes_Cons)
    qed
  qed simp
  then show ?thesis by blast
qed

text \<open>
  A rule of two requests per ten ticks: one request at 0, then three within the window
  \<open>[9, 19)\<close>, which is \<open>2 * 2 - 1\<close>: the bound is reached.
\<close>

definition demo_rules :: "string \<Rightarrow> rate_rule option" where
  "demo_rules = [RoleReadOnly \<mapsto> \<lparr>rr_max = 2, rr_window = 10\<rparr>]"

definition demo_calls :: "call list" where
  "demo_calls = [(9, ''u1'', RoleReadOnly), (10, ''u1'', RoleReadOnly), (11, ''u1'', RoleReadOnly),
     (12, ''u1'', RoleReadOnly)]"

theorem Allow_window_bound_witness:
  "count_allowed ''u1'' demo_calls
      (snd (allow_run [(0, ''u1'', RoleReadOnly)] (NewRateLimiter demo_rules))) = 3 \<and>
   int (count_allowed ''u1'' demo_calls
      (snd (allow_run [(0, ''u1'', RoleReadOnly)] (NewRateLimiter demo_rules)))) \<le> 2 * 2 - 1"
proof
  show "count_allowed ''u1'' demo_calls
      (snd (allow_run [(0, ''u1'', RoleReadOnly)] (NewRateLimiter demo_rules))) = 3" by code_simp
  have rule: "rule_for demo_rules RoleReadOnly = \<lparr>rr_max = 2, rr_window = 10\<rparr>" by code_simp
  have "int (count_allowed ''u1'' demo_calls
      (snd (allow_run [(0, ''u1'', RoleReadOnly)] (NewRateLimiter demo_rules))))
      \<le> 2 * rr_max \<lparr>rr_max = 2, rr_window = 10\<rparr> - 1"
    by (rule Allow_window_bound [where s = 9]) (use rule in \<open>auto simp: demo_calls_def\<close>)
  then show "int (count_allowed ''u1'' demo_calls
      (snd (allow_run [(0, ''u1'', RoleReadOnly)] (NewRateLimiter demo_rules)))) \<le> 2 * 2 - 1" by simp
qed

end
