(* ===== verification/Api_Keys.thy ===== *)
theory Api_Keys
  imports RateLimit
begin

text \<open>
  \<^verbatim>\<open>services/auth-service/auth/apikeys.go\<close>: the store of API keys, which keeps
  the digest of a raw key, never the key. SHA-256 and the random source are arguments: \<open>sha\<close>
  maps the bytes of a string to a digest, and a draw of random bytes is \<open>None\<close> when reading
  failed. The store's mutex makes every operation one step.
\<close>

datatype key_error = ErrInvalidAPIKey | ErrRevokedAPIKey | RandError

record api_key =
  ak_id :: string
  ak_name :: string
  ak_hash :: string
  ak_role :: string
  ak_revoked :: bool
  ak_created :: int

record api_key_store =
  st_keys :: "string \<Rightarrow> api_key option"
  st_hashes :: "string \<Rightarrow> string option"

definition NewAPIKeyStore :: api_key_store where
  "NewAPIKeyStore = \<lparr>st_keys = Map.empty, st_hashes = Map.empty\<rparr>"

definition hex_encode :: "8 word list \<Rightarrow> string" where
  "hex_encode bs = concat (map (\<lambda>b. [hex_char (unat b div 16), hex_char (unat b mod 16)]) bs)"

fun GenerateRawKey :: "8 word list option \<Rightarrow> key_error + string" where
  "GenerateRawKey None = Inl RandError"
| "GenerateRawKey (Some bytes) = Inr (''nb_ak_'' @ hex_encode bytes)"

definition HashKey :: "(string \<Rightarrow> 8 word list) \<Rightarrow> string \<Rightarrow> string" where
  "HashKey sha rawKey = hex_encode (sha rawKey)"

text \<open>The two clock readings give the ID and the creation time.\<close>

definition CreateAPIKey ::
  "(string \<Rightarrow> 8 word list) \<Rightarrow> 8 word list option \<Rightarrow> int \<Rightarrow> int \<Rightarrow> string \<Rightarrow> string \<Rightarrow> api_key_store \<Rightarrow>
   (key_error + string \<times> string) \<times> api_key_store" where
  "CreateAPIKey sha rnd now0 now1 name role s =
     (case GenerateRawKey rnd of
        Inl e \<Rightarrow> (Inl e, s)
      | Inr rawKey \<Rightarrow>
          (let keyHash = HashKey sha rawKey;
               keyID = ''key-'' @ itoa now0;
               rec = \<lparr>ak_id = keyID, ak_name = name, ak_hash = keyHash, ak_role = role,
                      ak_revoked = False, ak_created = now1\<rparr>
           in (Inr (keyID, rawKey),
               s\<lparr>st_keys := (st_keys s)(keyHash \<mapsto> rec), st_hashes := (st_hashes s)(keyID \<mapsto> keyHash)\<rparr>)))"

definition VerifyAPIKey :: "(string \<Rightarrow> 8 word list) \<Rightarrow> string \<Rightarrow> api_key_store \<Rightarrow> key_error + api_key" where
  "VerifyAPIKey sha rawKey s =
     (case st_keys s (HashKey sha rawKey) of
        None \<Rightarrow> Inl ErrInvalidAPIKey
      | Some rec \<Rightarrow> if ak_revoked rec then Inl ErrRevokedAPIKey else Inr rec)"

definition RevokeAPIKey :: "string \<Rightarrow> api_key_store \<Rightarrow> key_error option \<times> api_key_store" where
  "RevokeAPIKey keyID s =
     (let keyHash = (case st_hashes s keyID of None \<Rightarrow> keyID | Some h \<Rightarrow> h)
      in case st_keys s keyHash of
           None \<Rightarrow> (Some ErrInvalidAPIKey, s)
         | Some rec \<Rightarrow> (None, s\<lparr>st_keys := (st_keys s)(keyHash \<mapsto> rec\<lparr>ak_revoked := True\<rparr>)\<rparr>))"

section \<open>Hexadecimal text\<close>

lemma hex_char_inj: "a < 16 \<Longrightarrow> b < 16 \<Longrightarrow> hex_char a = hex_char b \<longleftrightarrow> a = b"
proof -
  assume "a < 16" and "b < 16"
  then have "a \<in> set [0..<16]" and "b \<in> set [0..<16]" by simp_all
  moreover have "list_all (\<lambda>a. list_all (\<lambda>b. hex_char a = hex_char b \<longrightarrow> a = b) [0..<16]) [0..<16]"
    by code_simp
  ultimately show ?thesis unfolding list_all_iff by blast
qed

lemma hex_char_not_k: "d < 16 \<Longrightarrow> hex_char d \<noteq> CHR ''k''"
proof -
  assume "d < 16"
  then have "d \<in> set [0..<16]" by simp
  moreover have "list_all (\<lambda>d. hex_char d \<noteq> CHR ''k'') [0..<16]" by code_simp
  ultimately show ?thesis by (simp add: list_all_iff)
qed

lemma unat_byte: "unat (b :: 8 word) < 256"
proof -
  have "unat b < 2 ^ LENGTH(8)" by (rule unsigned_less)
  then show ?thesis by simp
qed

lemma hex_encode_inj: "hex_encode bs = hex_encode cs \<Longrightarrow> bs = cs"
proof (induction bs arbitrary: cs)
  case (Cons b bs)
  then obtain c cs' where cs: "cs = c # cs'" by (cases cs) (auto simp: hex_encode_def)
  have "hex_char (unat b div 16) = hex_char (unat c div 16)" "hex_char (unat b mod 16) = hex_char (unat c mod 16)"
    and tl: "hex_encode bs = hex_encode cs'"
    using Cons.prems by (auto simp: cs hex_encode_def)
  moreover have "unat b div 16 < 16" "unat c div 16 < 16" using unat_byte [of b] unat_byte [of c] by simp_all
  ultimately have "unat b div 16 = unat c div 16" "unat b mod 16 = unat c mod 16" by (simp_all add: hex_char_inj)
  then have "unat b = unat c" by (metis div_mult_mod_eq)
  with Cons.IH [OF tl] show ?case by (simp add: cs word_unat_eq_iff)
qed (auto simp: hex_encode_def)

lemma hex_encode_not_k: "CHR ''k'' \<notin> set (hex_encode bs)"
proof (induction bs)
  case (Cons b bs)
  have "hex_char (unat b div 16) \<noteq> CHR ''k''" "hex_char (unat b mod 16) \<noteq> CHR ''k''"
    using unat_byte [of b] by (simp_all add: hex_char_not_k)
  with Cons show ?case by (auto simp: hex_encode_def)
qed (simp add: hex_encode_def)

section \<open>Operations on the store as steps\<close>

datatype key_op =
    Create "8 word list option" int int string string
  | Verify string
  | Revoke string

fun key_step :: "(string \<Rightarrow> 8 word list) \<Rightarrow> key_op \<Rightarrow> api_key_store \<Rightarrow> api_key_store" where
  "key_step sha (Create rnd now0 now1 name role) s = snd (CreateAPIKey sha rnd now0 now1 name role s)"
| "key_step sha (Verify rawKey) s = s"
| "key_step sha (Revoke keyID) s = snd (RevokeAPIKey keyID s)"

definition key_run :: "(string \<Rightarrow> 8 word list) \<Rightarrow> key_op list \<Rightarrow> api_key_store \<Rightarrow> api_key_store" where
  "key_run sha ops s = fold (key_step sha) ops s"

text \<open>
  The store invariant: a record is filed under its own hash, an ID leads to a stored
  record, IDs begin with \<^verbatim>\<open>key-\<close> and hashes are digests in hexadecimal.
\<close>

definition store_ok :: "(string \<Rightarrow> 8 word list) \<Rightarrow> api_key_store \<Rightarrow> bool" where
  "store_ok sha s \<longleftrightarrow>
     (\<forall>h rec. st_keys s h = Some rec \<longrightarrow> ak_hash rec = h \<and> (\<exists>raw. h = HashKey sha raw)) \<and>
     (\<forall>i h. st_hashes s i = Some h \<longrightarrow> st_keys s h \<noteq> None \<and> (\<exists>n. i = ''key-'' @ n))"

lemma store_ok_new: "store_ok sha NewAPIKeyStore"
  by (simp add: store_ok_def NewAPIKeyStore_def)

lemma store_ok_Create:
  assumes "store_ok sha s" shows "store_ok sha (snd (CreateAPIKey sha rnd now0 now1 name role s))"
proof (cases rnd)
  case (Some bytes)
  have "\<exists>raw. HashKey sha r = HashKey sha raw" for r by blast
  with assms Some show ?thesis unfolding store_ok_def by (auto simp: CreateAPIKey_def Let_def)
qed (use assms in \<open>simp add: CreateAPIKey_def\<close>)

lemma store_ok_Revoke: "store_ok sha s \<Longrightarrow> store_ok sha (snd (RevokeAPIKey keyID s))"
  unfolding store_ok_def by (simp add: RevokeAPIKey_def Let_def split: option.splits)

lemma store_ok_step: "store_ok sha s \<Longrightarrow> store_ok sha (key_step sha op s)"
  by (cases op) (simp_all add: store_ok_Create store_ok_Revoke)

lemma store_ok_run: "store_ok sha s \<Longrightarrow> store_ok sha (key_run sha ops s)"
  unfolding key_run_def by (induction ops arbitrary: s) (simp_all add: store_ok_step)

text \<open>An operation creates the raw key \<open>raw\<close> (or one with its digest).\<close>

definition creates :: "(string \<Rightarrow> 8 word list) \<Rightarrow> string \<Rightarrow> key_op \<Rightarrow> bool" where
  "creates sha h op =
     (case op of Create (Some bytes) now0 now1 name role \<Rightarrow> HashKey sha (''nb_ak_'' @ hex_encode bytes) = h
      | _ \<Rightarrow> False)"

text \<open>An operation that names the record of \<open>h\<close> for revocation in the store \<open>s\<close>.\<close>

definition revokes :: "api_key_store \<Rightarrow> string \<Rightarrow> key_op \<Rightarrow> bool" where
  "revokes s h op =
     (case op of Revoke i \<Rightarrow> (case st_hashes s i of None \<Rightarrow> i | Some h' \<Rightarrow> h') = h | _ \<Rightarrow> False)"

lemma key_step_keys:
  "st_keys (key_step sha op s) h =
     (case op of
        Create (Some bytes) now0 now1 name role \<Rightarrow>
          if creates sha h op
          then Some \<lparr>ak_id = ''key-'' @ itoa now0, ak_name = name, ak_hash = h, ak_role = role,
                     ak_revoked = False, ak_created = now1\<rparr>
          else st_keys s h
      | Revoke i \<Rightarrow> if revokes s h op then map_option (ak_revoked_update (\<lambda>_. True)) (st_keys s h) else st_keys s h
      | _ \<Rightarrow> st_keys s h)"
  by (cases op)
    (auto simp: CreateAPIKey_def RevokeAPIKey_def creates_def revokes_def Let_def split: option.splits)

lemma revoked_stays:
  assumes "st_keys s h = Some rec" and "ak_revoked rec" and "\<forall>op \<in> set ops. \<not> creates sha h op"
  shows "\<exists>rec'. st_keys (key_run sha ops s) h = Some rec' \<and> ak_revoked rec'"
  using assms unfolding key_run_def
proof (induction ops arbitrary: s rec)
  case (Cons op ops)
  have "\<exists>rec'. st_keys (key_step sha op s) h = Some rec' \<and> ak_revoked rec'"
    using Cons.prems by (auto simp: key_step_keys split: key_op.splits option.splits)
  then show ?case using Cons.IH Cons.prems(3) by auto
qed auto

section \<open>What the store promises\<close>

text \<open>
  Create, then verify: a created key is accepted at once with the name, the role and
  the ID it was created with, and only its digest is stored.
\<close>

theorem CreateAPIKey_verifies:
  assumes "CreateAPIKey sha rnd now0 now1 name role s = (Inr (keyID, rawKey), s')"
  shows "VerifyAPIKey sha rawKey s' =
      Inr \<lparr>ak_id = keyID, ak_name = name, ak_hash = HashKey sha rawKey, ak_role = role,
           ak_revoked = False, ak_created = now1\<rparr>"
  using assms by (cases rnd) (auto simp: CreateAPIKey_def VerifyAPIKey_def Let_def)

text \<open>
  C28. Revocation is immediate and permanent: once a key's ID or hash has been revoked, no
  run of operations makes a raw key with that hash verify again, unless that raw key is
  generated anew.
\<close>

theorem RevokeAPIKey_permanent:
  assumes "RevokeAPIKey i s = (None, s')"
    and "HashKey sha rawKey = (case st_hashes s i of None \<Rightarrow> i | Some h \<Rightarrow> h)"
    and "\<forall>op \<in> set ops. \<not> creates sha (HashKey sha rawKey) op"
  shows "VerifyAPIKey sha rawKey (key_run sha ops s') = Inl ErrRevokedAPIKey"
proof -
  obtain rec where "st_keys s' (HashKey sha rawKey) = Some rec" "ak_revoked rec"
    using assms(1,2) by (auto simp: RevokeAPIKey_def Let_def split: option.splits)
  then show ?thesis using revoked_stays [OF _ _ assms(3)] by (fastforce simp: VerifyAPIKey_def)
qed

fun untouched :: "(string \<Rightarrow> 8 word list) \<Rightarrow> string \<Rightarrow> key_op list \<Rightarrow> api_key_store \<Rightarrow> bool" where
  "untouched sha h [] s = True"
| "untouched sha h (op # ops) s =
     (\<not> creates sha h op \<and> \<not> revokes s h op \<and> untouched sha h ops (key_step sha op s))"

lemma untouched_keys: "untouched sha h ops s \<Longrightarrow> st_keys (key_run sha ops s) h = st_keys s h"
  unfolding key_run_def
proof (induction ops arbitrary: s)
  case (Cons op ops)
  then have "st_keys (key_step sha op s) h = st_keys s h"
    by (auto simp: key_step_keys split: key_op.splits option.splits)
  with Cons show ?case by simp
qed simp

text \<open>
  A key keeps working through any run of operations that neither revoke it (by ID or
  by hash, as the store resolves them then) nor generate a key with its hash.
\<close>

theorem VerifyAPIKey_stable:
  assumes "untouched sha (HashKey sha rawKey) ops s"
  shows "VerifyAPIKey sha rawKey (key_run sha ops s) = VerifyAPIKey sha rawKey s"
  by (simp add: VerifyAPIKey_def untouched_keys [OF assms])

text \<open>
  In every store reached from the empty one, revoking succeeds for each issued ID and
  for the hash of each stored record, and fails with \<^verbatim>\<open>ErrInvalidAPIKey\<close>,
  changing nothing, for everything else.
\<close>

theorem RevokeAPIKey_total:
  fixes sha ops
  defines "s \<equiv> key_run sha ops NewAPIKeyStore"
  shows "(fst (RevokeAPIKey i s) = None \<longleftrightarrow> st_hashes s i \<noteq> None \<or> st_keys s i \<noteq> None) \<and>
    (fst (RevokeAPIKey i s) \<noteq> None \<longrightarrow> RevokeAPIKey i s = (Some ErrInvalidAPIKey, s)) \<and>
    (st_keys s i \<noteq> None \<longrightarrow> st_hashes s i = None)"
proof (intro conjI)
  have ok: "store_ok sha s" unfolding s_def by (rule store_ok_run [OF store_ok_new])
  show "fst (RevokeAPIKey i s) = None \<longleftrightarrow> st_hashes s i \<noteq> None \<or> st_keys s i \<noteq> None"
    using ok unfolding store_ok_def
    by (cases "st_hashes s i") (fastforce simp: RevokeAPIKey_def Let_def split: option.splits)+
  show "fst (RevokeAPIKey i s) \<noteq> None \<longrightarrow> RevokeAPIKey i s = (Some ErrInvalidAPIKey, s)"
    by (auto simp: RevokeAPIKey_def Let_def split: option.splits)
  show "st_keys s i \<noteq> None \<longrightarrow> st_hashes s i = None"
  proof (rule impI, rule ccontr)
    assume k: "st_keys s i \<noteq> None" and "st_hashes s i \<noteq> None"
    then obtain n where "i = ''key-'' @ n" using ok by (fastforce simp: store_ok_def)
    moreover obtain raw where "i = HashKey sha raw" using k ok by (fastforce simp: store_ok_def)
    ultimately show False using hex_encode_not_k [of "sha raw"] by (simp add: HashKey_def)
  qed
qed

section \<open>A concrete store\<close>

text \<open>A digest for the examples: the bytes of the text themselves.\<close>

definition demo_sha :: "string \<Rightarrow> 8 word list" where
  "demo_sha s = map (\<lambda>c. word_of_nat (of_char c)) s"

definition demo_store :: api_key_store where
  "demo_store = snd (CreateAPIKey demo_sha (Some [1, 255]) 100 101 ''ci'' RoleOperator NewAPIKeyStore)"

theorem CreateAPIKey_verifies_witness:
  "VerifyAPIKey demo_sha ''nb_ak_01ff'' demo_store =
     Inr \<lparr>ak_id = ''key-100'', ak_name = ''ci'', ak_hash = HashKey demo_sha ''nb_ak_01ff'', ak_role = RoleOperator,
          ak_revoked = False, ak_created = 101\<rparr>"
proof (rule CreateAPIKey_verifies)
  have "fst (CreateAPIKey demo_sha (Some [1, 255]) 100 101 ''ci'' RoleOperator NewAPIKeyStore) =
      Inr (''key-100'', ''nb_ak_01ff'')" by code_simp
  then show "CreateAPIKey demo_sha (Some [1, 255]) 100 101 ''ci'' RoleOperator NewAPIKeyStore =
      (Inr (''key-100'', ''nb_ak_01ff''), demo_store)"
    unfolding demo_store_def by (metis prod.collapse)
qed

theorem RevokeAPIKey_permanent_witness:
  "VerifyAPIKey demo_sha ''nb_ak_01ff'' demo_store \<noteq> Inl ErrRevokedAPIKey \<and>
   VerifyAPIKey demo_sha ''nb_ak_01ff''
     (key_run demo_sha [Create (Some [2, 2]) 100 101 ''ci'' RoleAdmin, Verify ''nb_ak_01ff'', Revoke ''x'']
        (snd (RevokeAPIKey ''key-100'' demo_store))) = Inl ErrRevokedAPIKey"
proof
  show "VerifyAPIKey demo_sha ''nb_ak_01ff'' demo_store \<noteq> Inl ErrRevokedAPIKey" by code_simp
  have "fst (RevokeAPIKey ''key-100'' demo_store) = None" by code_simp
  then have r: "RevokeAPIKey ''key-100'' demo_store = (None, snd (RevokeAPIKey ''key-100'' demo_store))"
    by (metis prod.collapse)
  show "VerifyAPIKey demo_sha ''nb_ak_01ff''
     (key_run demo_sha [Create (Some [2, 2]) 100 101 ''ci'' RoleAdmin, Verify ''nb_ak_01ff'', Revoke ''x'']
        (snd (RevokeAPIKey ''key-100'' demo_store))) = Inl ErrRevokedAPIKey"
    by (rule RevokeAPIKey_permanent [OF r]) code_simp+
qed

theorem VerifyAPIKey_stable_witness:
  "VerifyAPIKey demo_sha ''nb_ak_01ff''
     (key_run demo_sha [Create (Some [2, 2]) 100 101 ''ci'' RoleAdmin, Verify ''nb_ak_01ff'', Revoke ''x''] demo_store) =
   VerifyAPIKey demo_sha ''nb_ak_01ff'' demo_store"
  by (rule VerifyAPIKey_stable) code_simp

end
