(* ===== verification/Jwt.thy ===== *)
theory Jwt
  imports RateLimit
begin

text \<open>
  \<^verbatim>\<open>services/auth-service/auth/jwt.go\<close>: issuing and checking HMAC-signed bearer
  tokens. Byte slices and strings are both \<open>char list\<close>s. The base64 codec and the JSON text
  of the two structs are written out; HMAC-SHA256 is an argument \<open>hmac data secret\<close>, and so
  is \<^verbatim>\<open>json.Unmarshal\<close> into the claims. The secret is the value of the
  environment variable \<^verbatim>\<open>JWT_SECRET\<close>, empty when it is not set.
\<close>

section \<open>Base64, URL alphabet, no padding\<close>

definition b64_alphabet :: string where
  "b64_alphabet = ''ABCDEFGHIJKLMNOPQRSTUVWXYZabcdefghijklmnopqrstuvwxyz0123456789-_''"

definition b64_char :: "nat \<Rightarrow> char" where
  "b64_char i = b64_alphabet ! i"

definition b64_val :: "char \<Rightarrow> nat option" where
  "b64_val c =
     (let n = (of_char c :: nat) in
      if 65 \<le> n \<and> n \<le> 90 then Some (n - 65)
      else if 97 \<le> n \<and> n \<le> 122 then Some (n - 71)
      else if 48 \<le> n \<and> n \<le> 57 then Some (n + 4)
      else if n = 45 then Some 62 else if n = 95 then Some 63 else None)"

fun b64_encode :: "string \<Rightarrow> string" where
  "b64_encode [] = []"
| "b64_encode [a] =
     (let n = of_char a in [b64_char (n div 4), b64_char (n mod 4 * 16)])"
| "b64_encode [a, b] =
     (let n = of_char a * 256 + of_char b
      in [b64_char (n div 1024), b64_char (n div 16 mod 64), b64_char (n mod 16 * 4)])"
| "b64_encode (a # b # c # bs) =
     (let n = (of_char a * 256 + of_char b) * 256 + of_char c
      in b64_char (n div 262144) # b64_char (n div 4096 mod 64) # b64_char (n div 64 mod 64) #
         b64_char (n mod 64) # b64_encode bs)"

text \<open>
  The decoder works on the six-bit values. A group of two or three values may end the
  input, whose unused bits are ignored; one value cannot.
\<close>

fun b64_groups :: "nat list \<Rightarrow> string option" where
  "b64_groups [] = Some []"
| "b64_groups [i] = None"
| "b64_groups [i, j] = Some [char_of ((i * 64 + j) div 16)]"
| "b64_groups [i, j, k] =
     (let n = ((i * 64 + j) * 64 + k) div 4 in Some [char_of (n div 256), char_of (n mod 256)])"
| "b64_groups (i # j # k # l # vs) =
     (let n = ((i * 64 + j) * 64 + k) * 64 + l
      in map_option (\<lambda>bs. char_of (n div 65536) # char_of (n div 256 mod 256) # char_of (n mod 256) # bs)
           (b64_groups vs))"

text \<open>Line ends are skipped; any other character outside the alphabet is an error.\<close>

fun b64_vals :: "string \<Rightarrow> nat list option" where
  "b64_vals [] = Some []"
| "b64_vals (c # cs) =
     (if (of_char c :: nat) = 10 \<or> (of_char c :: nat) = 13 then b64_vals cs
      else case b64_val c of None \<Rightarrow> None | Some v \<Rightarrow> map_option ((#) v) (b64_vals cs))"

definition b64_decode :: "string \<Rightarrow> string option" where
  "b64_decode s = Option.bind (b64_vals s) b64_groups"

lemma b64_table:
  "list_all (\<lambda>(i, c). b64_val c = Some i \<and> c \<noteq> CHR ''.'' \<and> (of_char c :: nat) \<noteq> 10 \<and> (of_char c :: nat) \<noteq> 13)
     (zip [0..<64] b64_alphabet)"
  by (simp add: b64_alphabet_def upt_rec numeral_nat b64_val_def)

lemma b64_char_facts:
  assumes "i < 64"
  shows "b64_val (b64_char i) = Some i" and "b64_char i \<noteq> CHR ''.''"
    and "(of_char (b64_char i) :: nat) \<noteq> 10" and "(of_char (b64_char i) :: nat) \<noteq> 13"
proof -
  have "length b64_alphabet = 64" by (simp add: b64_alphabet_def)
  then have "(i, b64_char i) \<in> set (zip [0..<64] b64_alphabet)"
    using assms by (auto simp: set_zip b64_char_def intro!: exI [of _ i])
  with b64_table show "b64_val (b64_char i) = Some i" and "b64_char i \<noteq> CHR ''.''"
    and "(of_char (b64_char i) :: nat) \<noteq> 10" and "(of_char (b64_char i) :: nat) \<noteq> 13"
    by (auto simp: list_all_iff)
qed

lemma b64_vals_char [simp]: "i < 64 \<Longrightarrow> b64_vals (b64_char i # cs) = map_option ((#) i) (b64_vals cs)"
  by (simp add: b64_char_facts)

declare b64_vals.simps(2) [simp del]

lemma of_char_less [simp]: "(of_char c :: nat) < 256"
proof -
  have "(of_char c :: nat) mod 256 = of_char c" by simp
  then show ?thesis by (metis mod_less_divisor zero_less_numeral)
qed

lemma sextets: "m div (k * 64) * 64 + m div k mod 64 = (m div k :: nat)"
  by (simp add: div_mult2_eq)

lemma split_three:
  fixes a b c n :: nat
  assumes n: "n = (a * 256 + b) * 256 + c" and "a < 256" "b < 256" "c < 256"
  shows "((n div 262144 * 64 + n div 4096 mod 64) * 64 + n div 64 mod 64) * 64 + n mod 64 = n"
    and "n div 262144 < 64" and "n div 65536 = a" and "n div 256 mod 256 = b" and "n mod 256 = c"
proof -
  show "((n div 262144 * 64 + n div 4096 mod 64) * 64 + n div 64 mod 64) * 64 + n mod 64 = n"
    using sextets [of n 4096] sextets [of n 64] sextets [of n 1] by simp
  have "n = c + 256 * (a * 256 + b)" by (simp add: n)
  with \<open>c < 256\<close> have nc: "n div 256 = a * 256 + b" "n mod 256 = c"
    by (simp_all only: div_mult_self2 mod_mult_self2 div_less mod_less add_0_right zero_neq_numeral not_False_eq_True)
  have "n div 65536 = n div 256 div 256" by (simp add: div_mult2_eq [symmetric])
  with nc assms show "n div 65536 = a" by simp
  with assms show "n div 262144 < 64" using div_mult2_eq [of n 65536 4] by simp
  show "n div 256 mod 256 = b" "n mod 256 = c" using nc assms by simp_all
qed

lemma split_two_bytes:
  fixes a b n :: nat
  assumes n: "n = a * 256 + b" and "a < 256" "b < 256"
  shows "((n div 1024 * 64 + n div 16 mod 64) * 64 + n mod 16 * 4) div 4 = n"
    and "n div 1024 < 64" and "n div 256 = a" and "n mod 256 = b"
proof -
  have "n div 1024 * 64 + n div 16 mod 64 = n div 16" using sextets [of n 16] by simp
  moreover have "(n div 16 * 64 + n mod 16 * 4) = n * 4"
    using div_mult_mod_eq [of n 16] by linarith
  ultimately show "((n div 1024 * 64 + n div 16 mod 64) * 64 + n mod 16 * 4) div 4 = n" by simp
  show d: "n div 256 = a" "n mod 256 = b" using assms by simp_all
  with assms show "n div 1024 < 64" using div_mult2_eq [of n 256 4] by simp
qed

lemma split_one_byte: "(n div 4 * 64 + n mod 4 * 16) div 16 = (n :: nat)"
proof -
  have "n div 4 * 64 + n mod 4 * 16 = n * 16" using div_mult_mod_eq [of n 4] by linarith
  then show ?thesis by simp
qed

text \<open>The six-bit values of an encoding.\<close>

fun sixes :: "string \<Rightarrow> nat list" where
  "sixes [] = []"
| "sixes [a] = (let n = of_char a in [n div 4, n mod 4 * 16])"
| "sixes [a, b] = (let n = of_char a * 256 + of_char b in [n div 1024, n div 16 mod 64, n mod 16 * 4])"
| "sixes (a # b # c # bs) =
     (let n = (of_char a * 256 + of_char b) * 256 + of_char c
      in n div 262144 # n div 4096 mod 64 # n div 64 mod 64 # n mod 64 # sixes bs)"

lemma b64_encode_eq: "b64_encode bs = map b64_char (sixes bs)"
  by (induction bs rule: b64_encode.induct) (simp_all only: b64_encode.simps sixes.simps Let_def list.map)

lemma sixes_less: "i \<in> set (sixes bs) \<Longrightarrow> i < 64"
proof (induction bs rule: sixes.induct)
  case (2 a)
  have "(of_char a :: nat) div 4 < 64" by (simp add: less_mult_imp_div_less)
  moreover have "m mod 4 * 16 < 64" for m :: nat using mod_less_divisor [of 4 m] by linarith
  ultimately show ?case using 2 by (auto simp only: sixes.simps Let_def list.set insert_iff empty_iff)
next
  case (3 a b)
  define n where "n = of_char a * 256 + (of_char b :: nat)"
  have "m mod 16 * 4 < 64" for m :: nat using mod_less_divisor [of 16 m] by linarith
  with split_two_bytes(2) [OF n_def of_char_less of_char_less] 3 show ?case
    by (auto simp only: sixes.simps Let_def list.set insert_iff empty_iff n_def [symmetric] mod_less_divisor)
next
  case (4 a b c bs)
  define n where "n = (of_char a * 256 + of_char b) * 256 + (of_char c :: nat)"
  have "m mod 64 < 64" for m :: nat by simp
  with split_three(2) [OF n_def of_char_less of_char_less of_char_less] 4 show ?case
    by (auto simp only: sixes.simps Let_def list.set insert_iff empty_iff n_def [symmetric])
qed simp

lemma b64_groups_sixes: "b64_groups (sixes bs) = Some bs"
proof (induction bs rule: sixes.induct)
  case (3 a b)
  define n where "n = of_char a * 256 + (of_char b :: nat)"
  show ?case
    unfolding sixes.simps Let_def n_def [symmetric] b64_groups.simps
      split_two_bytes [OF n_def of_char_less of_char_less] char_of_char ..
next
  case (4 a b c bs)
  define n where "n = (of_char a * 256 + of_char b) * 256 + (of_char c :: nat)"
  show ?case
    unfolding sixes.simps Let_def n_def [symmetric] b64_groups.simps
      split_three [OF n_def of_char_less of_char_less of_char_less] char_of_char by (simp add: 4)
qed (simp_all add: Let_def split_one_byte)

text \<open>Decoding an encoding gives the bytes back; the alphabet has no dot.\<close>

lemma b64_vals_map: "(\<And>i. i \<in> set is \<Longrightarrow> i < 64) \<Longrightarrow> b64_vals (map b64_char is) = Some is"
  by (induction "is") simp_all

lemma b64_decode_encode [simp]: "b64_decode (b64_encode bs) = Some bs"
  by (simp add: b64_decode_def b64_encode_eq b64_vals_map sixes_less b64_groups_sixes)

lemma b64_encode_no_dot: "CHR ''.'' \<notin> set (b64_encode bs)"
  using b64_char_facts(2) sixes_less by (fastforce simp: b64_encode_eq)

section \<open>JSON text of the header and the claims\<close>

record jwt_claims =
  cl_sub :: string
  cl_role :: string
  cl_iat :: int
  cl_exp :: int

text \<open>
  \<^verbatim>\<open>json.Marshal\<close> of an ASCII string: quotes, backslashes and control characters
  are escaped, and so are the three characters of HTML.
\<close>

definition json_char :: "char \<Rightarrow> string" where
  "json_char c =
     (let n = (of_char c :: nat) in
      if n = 34 then [bslash, dquote] else if n = 92 then [bslash, bslash]
      else if n = 8 then [bslash, CHR ''b''] else if n = 12 then [bslash, CHR ''f'']
      else if n = 10 then [bslash, CHR ''n''] else if n = 13 then [bslash, CHR ''r'']
      else if n = 9 then [bslash, CHR ''t'']
      else if n < 32 \<or> n = 60 \<or> n = 62 \<or> n = 38
      then bslash # ''u00'' @ [hex_char (n div 16), hex_char (n mod 16)]
      else [c])"

definition json_string :: "string \<Rightarrow> string" where
  "json_string s = [dquote] @ concat (map json_char s) @ [dquote]"

definition json_field :: "string \<Rightarrow> string \<Rightarrow> string" where
  "json_field name val = json_string name @ '':'' @ val"

definition marshal_header :: "string \<Rightarrow> string \<Rightarrow> string" where
  "marshal_header alg typ =
     ''{'' @ json_field ''alg'' (json_string alg) @ '','' @ json_field ''typ'' (json_string typ) @ ''}''"

definition marshal_claims :: "jwt_claims \<Rightarrow> string" where
  "marshal_claims c =
     ''{'' @ json_field ''sub'' (json_string (cl_sub c)) @ '','' @ json_field ''role'' (json_string (cl_role c)) @
     '','' @ json_field ''iat'' (itoa (cl_iat c)) @ '','' @ json_field ''exp'' (itoa (cl_exp c)) @ ''}''"

section \<open>Issuing and verifying\<close>

datatype auth_error = ErrInvalidToken | ErrExpiredToken | ErrNoSecret | ErrInvalidRole string

fun auth_err_text :: "auth_error \<Rightarrow> string" where
  "auth_err_text ErrInvalidToken = ''invalid or tampered authentication token''"
| "auth_err_text ErrExpiredToken = ''authentication token has expired''"
| "auth_err_text ErrNoSecret = ''JWT_SECRET environment variable must be set''"
| "auth_err_text (ErrInvalidRole r) = ''invalid role '' @ quoted r"

definition getSecretKey :: "string \<Rightarrow> auth_error + string" where
  "getSecretKey env = (if env = [] then Inl ErrNoSecret else Inr env)"

text \<open>\<^verbatim>\<open>t.Unix()\<close> of an instant in nanoseconds.\<close>

definition unix :: "int \<Rightarrow> int" where
  "unix t = t div second"

definition issued_claims :: "int \<Rightarrow> string \<Rightarrow> string \<Rightarrow> int \<Rightarrow> jwt_claims" where
  "issued_claims now userID role duration =
     \<lparr>cl_sub = userID, cl_role = role, cl_iat = unix now, cl_exp = unix (now + duration)\<rparr>"

definition IssueToken ::
  "(string \<Rightarrow> string \<Rightarrow> string) \<Rightarrow> string \<Rightarrow> int \<Rightarrow> string \<Rightarrow> string \<Rightarrow> int \<Rightarrow> auth_error + string" where
  "IssueToken hmac env now userID role duration =
     (if role \<noteq> RoleAdmin \<and> role \<noteq> RoleOperator \<and> role \<noteq> RoleReadOnly then Inl (ErrInvalidRole role)
      else let headerJSON = marshal_header ''HS256'' ''JWT'';
               claimsJSON = marshal_claims (issued_claims now userID role duration);
               unsignedToken = b64_encode headerJSON @ ''.'' @ b64_encode claimsJSON
           in case getSecretKey env of
                Inl e \<Rightarrow> Inl e
              | Inr secret \<Rightarrow> Inr (unsignedToken @ ''.'' @ b64_encode (hmac unsignedToken secret)))"

definition VerifyToken ::
  "(string \<Rightarrow> string \<Rightarrow> string) \<Rightarrow> (string \<Rightarrow> jwt_claims option) \<Rightarrow> string \<Rightarrow> int \<Rightarrow> string \<Rightarrow>
   auth_error + jwt_claims" where
  "VerifyToken hmac unmarshal env now tokenStr =
     (case str_split ''.'' tokenStr of
        [p0, p1, p2] \<Rightarrow>
          (let unsignedToken = p0 @ ''.'' @ p1
           in case getSecretKey env of
                Inl e \<Rightarrow> Inl e
              | Inr secret \<Rightarrow>
                  (case b64_decode p2 of
                     None \<Rightarrow> Inl ErrInvalidToken
                   | Some providedSig \<Rightarrow>
                       if hmac unsignedToken secret \<noteq> providedSig then Inl ErrInvalidToken
                       else case b64_decode p1 of
                              None \<Rightarrow> Inl ErrInvalidToken
                            | Some claimsJSON \<Rightarrow>
                                (case unmarshal claimsJSON of
                                   None \<Rightarrow> Inl ErrInvalidToken
                                 | Some claims \<Rightarrow>
                                     if unix now > cl_exp claims then Inl ErrExpiredToken else Inr claims)))
      | _ \<Rightarrow> Inl ErrInvalidToken)"

lemma split_token:
  assumes "CHR ''.'' \<notin> set a" and "CHR ''.'' \<notin> set b" and "CHR ''.'' \<notin> set c"
  shows "str_split ''.'' ((a @ ''.'' @ b) @ ''.'' @ c) = [a, b, c]"
  using str_split_char(1) [OF assms(1), of "b @ CHR ''.'' # c"] str_split_char(1) [OF assms(2), of c]
    str_split_char(2) [OF assms(3)] by simp

lemma IssueToken_cases:
  assumes "IssueToken hmac env now userID role duration = Inr tok"
  obtains h p where "role \<in> {RoleAdmin, RoleOperator, RoleReadOnly}" "env \<noteq> []"
    "h = b64_encode (marshal_header ''HS256'' ''JWT'')"
    "p = b64_encode (marshal_claims (issued_claims now userID role duration))"
    "tok = (h @ ''.'' @ p) @ ''.'' @ b64_encode (hmac (h @ ''.'' @ p) env)"
  using assms by (auto simp: IssueToken_def getSecretKey_def Let_def split: if_splits)

lemma VerifyToken_of_issued:
  assumes "IssueToken hmac env now userID role duration = Inr tok"
    and "unmarshal (marshal_claims (issued_claims now userID role duration)) =
           Some (issued_claims now userID role duration)"
  shows "VerifyToken hmac unmarshal env later tok =
    (if unix later \<le> unix (now + duration) then Inr (issued_claims now userID role duration)
     else Inl ErrExpiredToken)"
proof -
  obtain h p where h: "h = b64_encode (marshal_header ''HS256'' ''JWT'')"
    and p: "p = b64_encode (marshal_claims (issued_claims now userID role duration))"
    and env: "env \<noteq> []"
    and tok: "tok = (h @ ''.'' @ p) @ ''.'' @ b64_encode (hmac (h @ ''.'' @ p) env)"
    using assms(1) by (rule IssueToken_cases)
  have "str_split ''.'' tok = [h, p, b64_encode (hmac (h @ ''.'' @ p) env)]"
    unfolding tok by (rule split_token) (simp_all only: h p b64_encode_no_dot not_False_eq_True)
  moreover have "b64_decode p = Some (marshal_claims (issued_claims now userID role duration))"
    by (simp add: p)
  ultimately show ?thesis
    using assms(2) env by (simp add: VerifyToken_def getSecretKey_def issued_claims_def Let_def)
qed

lemma VerifyToken_issued:
  assumes "IssueToken hmac env now userID role duration = Inr tok"
    and "unmarshal (marshal_claims (issued_claims now userID role duration)) =
           Some (issued_claims now userID role duration)"
    and "unix later \<le> unix (now + duration)"
  shows "VerifyToken hmac unmarshal env later tok = Inr (issued_claims now userID role duration)"
  unfolding VerifyToken_of_issued [where unmarshal = unmarshal, OF assms(1,2)] if_P [OF assms(3)] ..

text \<open>
  C24. Issue, then verify: a token that was issued verifies, under the same secret and any
  HMAC, to exactly the subject, role and times it was issued with, until the second of its
  expiry has passed; from then on it is refused as expired.
\<close>

theorem VerifyToken_IssueToken:
  assumes "IssueToken hmac env now userID role duration = Inr tok"
    and "unmarshal (marshal_claims (issued_claims now userID role duration)) =
           Some (issued_claims now userID role duration)"
  shows "VerifyToken hmac unmarshal env later tok =
    (if unix later \<le> unix (now + duration) then Inr (issued_claims now userID role duration)
     else Inl ErrExpiredToken)"
  by (rule VerifyToken_of_issued [where unmarshal = unmarshal, OF assms])


text \<open>
  Issuing fails exactly for a role outside the three known ones or without a secret;
  in particular no token for another role is ever signed.
\<close>

theorem IssueToken_fails_iff:
  "IssueToken hmac env now userID role duration =
     (if role_rank role = 0 then Inl (ErrInvalidRole role)
      else if env = [] then Inl ErrNoSecret
      else let u = b64_encode (marshal_header ''HS256'' ''JWT'') @ ''.'' @
                     b64_encode (marshal_claims (issued_claims now userID role duration))
           in Inr (u @ ''.'' @ b64_encode (hmac u env)))"
  by (auto simp: IssueToken_def getSecretKey_def role_rank_def Let_def)

text \<open>A toy digest and a parser for one text make the laws concrete.\<close>

definition demo_hmac :: "string \<Rightarrow> string \<Rightarrow> string" where
  "demo_hmac data secret = take 8 (secret @ rev data)"

definition demo_claims :: jwt_claims where
  "demo_claims = issued_claims (5 * second) ''alice'' RoleOperator (60 * second)"

definition demo_unmarshal :: "string \<Rightarrow> jwt_claims option" where
  "demo_unmarshal s = (if s = marshal_claims demo_claims then Some demo_claims else None)"

definition demo_token :: "auth_error + string" where
  "demo_token = IssueToken demo_hmac ''s3cret'' (5 * second) ''alice'' RoleOperator (60 * second)"

theorem VerifyToken_IssueToken_witness:
  "\<exists>tok. demo_token = Inr tok \<and>
     VerifyToken demo_hmac demo_unmarshal ''s3cret'' (65 * second) tok = Inr demo_claims \<and>
     VerifyToken demo_hmac demo_unmarshal ''s3cret'' (66 * second) tok = Inl ErrExpiredToken"
proof -
  obtain tok where tok: "demo_token = Inr tok"
    unfolding demo_token_def IssueToken_def getSecretKey_def Let_def by simp
  have um: "demo_unmarshal (marshal_claims (issued_claims (5 * second) ''alice'' RoleOperator (60 * second))) =
      Some (issued_claims (5 * second) ''alice'' RoleOperator (60 * second))"
    unfolding demo_unmarshal_def demo_claims_def by simp
  note v = VerifyToken_IssueToken [where unmarshal = demo_unmarshal, OF tok [unfolded demo_token_def] um]
  have t: "unix (65 * second) \<le> unix (5 * second + 60 * second)"
    "\<not> unix (66 * second) \<le> unix (5 * second + 60 * second)" by code_simp+
  have "VerifyToken demo_hmac demo_unmarshal ''s3cret'' (65 * second) tok = Inr demo_claims"
    unfolding v if_P [OF t(1)] demo_claims_def ..
  moreover have "VerifyToken demo_hmac demo_unmarshal ''s3cret'' (66 * second) tok = Inl ErrExpiredToken"
    unfolding v if_not_P [OF t(2)] ..
  ultimately show ?thesis using tok by blast
qed

end
