(* ===== verification/Middleware.thy ===== *)
theory Middleware
  imports Jwt Api_Keys
begin

text \<open>
  \<^verbatim>\<open>services/auth-service/auth/middleware.go\<close>: the HTTP middleware and the
  gRPC interceptors, the role maps the services install
  (\<^verbatim>\<open>services/*/main.go\<close>), and the two endpoints of
  \<^verbatim>\<open>services/auth-service/main.go\<close>. The process-wide state is the rate limiter
  and the key store; the environment holds the digests, the claims parser and the secret.
\<close>

record auth_env =
  ae_hmac :: "string \<Rightarrow> string \<Rightarrow> string"
  ae_sha :: "string \<Rightarrow> 8 word list"
  ae_unmarshal :: "string \<Rightarrow> jwt_claims option"
  ae_secret :: string

record auth_state =
  as_limiter :: rate_limiter
  as_keys :: api_key_store

fun key_err_text :: "key_error \<Rightarrow> string" where
  "key_err_text ErrInvalidAPIKey = ''invalid or non-existent API key''"
| "key_err_text ErrRevokedAPIKey = ''API key has been revoked''"
| "key_err_text RandError = ''random source failed''"

section \<open>HTTP middleware\<close>

record http_request =
  rq_path :: string
  rq_authorization :: string
  rq_api_key :: string

text \<open>A rejection is a status code and the text given to \<^verbatim>\<open>http.Error\<close>.\<close>

datatype http_reject = Reject nat string

definition exempt_path :: "string \<Rightarrow> bool" where
  "exempt_path p \<longleftrightarrow> p = ''/health'' \<or> p = ''/metrics'' \<or> p = ''/v1/auth/token''"

text \<open>
  The handler runs on a state of its own and on the claims put in the request context; \<open>t0\<close>
  and \<open>t1\<close> are the clock readings of the token check and of the limiter.
\<close>

definition AuthenticateAndAuthorize ::
  "string \<Rightarrow> auth_env \<Rightarrow> int \<Rightarrow> int \<Rightarrow> (jwt_claims option \<Rightarrow> 's \<Rightarrow> 'r \<times> 's) \<Rightarrow> http_request \<Rightarrow>
   auth_state \<times> 's \<Rightarrow> (http_reject + 'r) \<times> auth_state \<times> 's" where
  "AuthenticateAndAuthorize requiredRole env t0 t1 next_handler r st =
     (let (a, s) = st in
      if exempt_path (rq_path r) then let (v, s') = next_handler None s in (Inr v, a, s')
      else
        let credentials =
          (if has_prefix (rq_authorization r) ''Bearer ''
           then case VerifyToken (ae_hmac env) (ae_unmarshal env) (ae_secret env) t0
                       (trim_prefix (rq_authorization r) ''Bearer '') of
                  Inl err \<Rightarrow> Inl (Reject 401 (''Unauthorized: '' @ auth_err_text err))
                | Inr claims \<Rightarrow> Inr (cl_role claims, cl_sub claims, Some claims)
           else if rq_api_key r \<noteq> []
           then case VerifyAPIKey (ae_sha env) (rq_api_key r) (as_keys a) of
                  Inl err \<Rightarrow> Inl (Reject 401 (''Unauthorized: '' @ key_err_text err))
                | Inr rec \<Rightarrow> Inr (ak_role rec, ak_id rec, None)
           else Inl (Reject 401 ''Unauthorized: missing authorization credentials''))
        in case credentials of
             Inl rej \<Rightarrow> (Inl rej, a, s)
           | Inr (presentedRole, clientID, ctx) \<Rightarrow>
               (let (ok, limiter) = Allow t1 clientID presentedRole (as_limiter a);
                    a' = a\<lparr>as_limiter := limiter\<rparr>
                in if \<not> ok then (Inl (Reject 429 ''Too Many Requests: rate limit exceeded''), a', s)
                   else if \<not> RoleSatisfies presentedRole requiredRole
                   then (Inl (Reject 403 (''Forbidden: insufficient permissions for role '' @ presentedRole)), a', s)
                   else let (v, s') = next_handler ctx s in (Inr v, a', s')))"

section \<open>gRPC interceptors\<close>

text \<open>Metadata of a call: the values of each key, in order; \<open>None\<close> when the context has none.\<close>

type_synonym grpc_md = "string \<Rightarrow> string list"

definition required_role :: "(string \<Rightarrow> string option) \<Rightarrow> string \<Rightarrow> string" where
  "required_role roleMap fullMethod = (case roleMap fullMethod of Some role \<Rightarrow> role | None \<Rightarrow> RoleReadOnly)"

definition rpc_credentials ::
  "auth_env \<Rightarrow> int \<Rightarrow> grpc_md \<Rightarrow> auth_state \<Rightarrow> (string \<times> string) rpc" where
  "rpc_credentials env t0 md a =
     (let authVals = md ''authorization''; apiKeys = md ''x-api-key''
      in if length authVals > 0 \<and> has_prefix (authVals ! 0) ''Bearer ''
         then case VerifyToken (ae_hmac env) (ae_unmarshal env) (ae_secret env) t0
                     (trim_prefix (authVals ! 0) ''Bearer '') of
                Inl err \<Rightarrow> Inl (Status Unauthenticated (''invalid token: '' @ auth_err_text err))
              | Inr claims \<Rightarrow> Inr (cl_role claims, cl_sub claims)
         else if length apiKeys > 0
         then case VerifyAPIKey (ae_sha env) (apiKeys ! 0) (as_keys a) of
                Inl err \<Rightarrow> Inl (Status Unauthenticated (''invalid API key: '' @ key_err_text err))
              | Inr rec \<Rightarrow> Inr (ak_role rec, ak_id rec)
         else Inl (Status Unauthenticated ''missing authorization credentials in gRPC metadata''))"

definition UnaryServerInterceptor ::
  "(string \<Rightarrow> string option) \<Rightarrow> auth_env \<Rightarrow> int \<Rightarrow> int \<Rightarrow> grpc_md option \<Rightarrow> string \<Rightarrow>
   ('s \<Rightarrow> 'r rpc \<times> 's) \<Rightarrow> auth_state \<times> 's \<Rightarrow> 'r rpc \<times> auth_state \<times> 's" where
  "UnaryServerInterceptor roleMap env t0 t1 omd fullMethod handler st =
     (let (a, s) = st; requiredRole = required_role roleMap fullMethod
      in case omd of
           None \<Rightarrow> (Inl (Status Unauthenticated ''missing gRPC metadata context''), a, s)
         | Some md \<Rightarrow>
             (case rpc_credentials env t0 md a of
                Inl e \<Rightarrow> (Inl e, a, s)
              | Inr (presentedRole, clientID) \<Rightarrow>
                  (let (ok, limiter) = Allow t1 clientID presentedRole (as_limiter a);
                       a' = a\<lparr>as_limiter := limiter\<rparr>
                   in if \<not> ok then (Inl (Status ResourceExhausted ''rate limit exceeded''), a', s)
                      else if \<not> RoleSatisfies presentedRole requiredRole
                      then (Inl (Status PermissionDenied
                             (''permission denied: role '' @ presentedRole @ '' cannot execute '' @ fullMethod)), a', s)
                      else let (v, s') = handler s in (v, a', s'))))"

text \<open>The client side: a five-minute token is appended to the outgoing metadata.\<close>

definition UnaryClientInterceptor ::
  "auth_env \<Rightarrow> int \<Rightarrow> string \<Rightarrow> string \<Rightarrow> grpc_md \<Rightarrow> (grpc_md \<Rightarrow> 'r rpc) \<Rightarrow> 'r rpc" where
  "UnaryClientInterceptor env now serviceID role md invoker =
     (case IssueToken (ae_hmac env) (ae_secret env) now serviceID role (5 * minute) of
        Inl err \<Rightarrow> Inl (Status Unauthenticated (''issue internal service token: '' @ auth_err_text err))
      | Inr token \<Rightarrow> invoker (md(''authorization'' := md ''authorization'' @ [''Bearer '' @ token])))"

section \<open>The role maps the services install\<close>

definition metaRoleMap :: "string \<Rightarrow> string option" where
  "metaRoleMap = map_of
     [(''/proto.MetadataService/RegisterNode'', RoleOperator),
      (''/proto.MetadataService/SendHeartbeat'', RoleOperator),
      (''/proto.MetadataService/GetNodes'', RoleReadOnly),
      (''/proto.MetadataService/CreateDatabaseRecord'', RoleOperator),
      (''/proto.MetadataService/UpdateDatabaseStatus'', RoleOperator),
      (''/proto.MetadataService/GetDatabase'', RoleReadOnly),
      (''/proto.MetadataService/ListDatabases'', RoleReadOnly),
      (''/proto.MetadataService/DeleteDatabaseRecord'', RoleOperator),
      (''/proto.MetadataService/UpdateNodeStatus'', RoleAdmin)]"

definition nodeRoleMap :: "string \<Rightarrow> string option" where
  "nodeRoleMap = map_of
     [(''/proto.NodeAgent/CreateDatabase'', RoleOperator),
      (''/proto.NodeAgent/DeleteDatabase'', RoleOperator),
      (''/proto.NodeAgent/BackupDatabase'', RoleOperator),
      (''/proto.NodeAgent/RestoreDatabase'', RoleOperator),
      (''/proto.NodeAgent/InsertVector'', RoleOperator),
      (''/proto.NodeAgent/SearchVector'', RoleReadOnly),
      (''/proto.NodeAgent/DrainNode'', RoleAdmin)]"

definition schedRoleMap :: "string \<Rightarrow> string option" where
  "schedRoleMap = map_of [(''/proto.SchedulerService/Schedule'', RoleOperator)]"

definition deployRoleMap :: "string \<Rightarrow> string option" where
  "deployRoleMap = map_of
     [(''/proto.DeploymentControllerService/StartDeployment'', RoleAdmin),
      (''/proto.DeploymentControllerService/GetDeploymentStatus'', RoleReadOnly),
      (''/proto.DeploymentControllerService/TriggerRollback'', RoleAdmin),
      (''/proto.DeploymentControllerService/DrainNode'', RoleAdmin)]"

definition capRoleMap :: "string \<Rightarrow> string option" where
  "capRoleMap = map_of [(''/proto.CapacityPlannerService/PredictCapacity'', RoleReadOnly)]"

definition slaRoleMap :: "string \<Rightarrow> string option" where
  "slaRoleMap = map_of
     [(''/proto.SLAMonitorService/RecordEvent'', RoleOperator),
      (''/proto.SLAMonitorService/GetSLAReport'', RoleReadOnly)]"

text \<open>
  The method names the generated service code passes to the interceptor
  (\<^verbatim>\<open>*_FullMethodName\<close>), each with the map its server was built with.
\<close>

definition installed_methods :: "((string \<Rightarrow> string option) \<times> string) list" where
  "installed_methods =
     map (Pair metaRoleMap)
       [''/metadata.MetadataService/RegisterNode'', ''/metadata.MetadataService/SendHeartbeat'',
        ''/metadata.MetadataService/GetNodes'', ''/metadata.MetadataService/CreateDatabaseRecord'',
        ''/metadata.MetadataService/UpdateDatabaseStatus'', ''/metadata.MetadataService/GetDatabase'',
        ''/metadata.MetadataService/ListDatabases'', ''/metadata.MetadataService/DeleteDatabaseRecord'',
        ''/metadata.MetadataService/UpdateNodeStatus''] @
     map (Pair schedRoleMap) [''/metadata.SchedulerService/Schedule''] @
     map (Pair nodeRoleMap)
       [''/nodeagent.NodeAgent/CreateDatabase'', ''/nodeagent.NodeAgent/DeleteDatabase'',
        ''/nodeagent.NodeAgent/BackupDatabase'', ''/nodeagent.NodeAgent/RestoreDatabase'',
        ''/nodeagent.NodeAgent/InsertVector'', ''/nodeagent.NodeAgent/SearchVector'',
        ''/nodeagent.NodeAgent/DrainNode''] @
     map (Pair deployRoleMap)
       [''/operations.DeploymentControllerService/StartDeployment'',
        ''/operations.DeploymentControllerService/GetDeploymentStatus'',
        ''/operations.DeploymentControllerService/TriggerRollback'',
        ''/operations.DeploymentControllerService/DrainNode''] @
     map (Pair capRoleMap) [''/operations.CapacityPlannerService/PredictCapacity''] @
     map (Pair slaRoleMap)
       [''/operations.SLAMonitorService/RecordEvent'', ''/operations.SLAMonitorService/GetSLAReport'']"

section \<open>Endpoints of the auth service\<close>

record token_request =
  tr_user :: string
  tr_role :: string
  tr_password :: string

text \<open>The body as decoded so far; fields the decoder did not set are empty.\<close>

definition TokenEndpoint :: "auth_env \<Rightarrow> int \<Rightarrow> token_request \<Rightarrow> http_reject + string \<times> string" where
  "TokenEndpoint env now req =
     (let user = (if tr_user req = [] then ''demo-user'' else tr_user req);
          role = (if tr_role req = [] then RoleReadOnly else tr_role req)
      in case IssueToken (ae_hmac env) (ae_secret env) now user role (24 * hour) of
           Inl err \<Rightarrow> Inl (Reject 400 (auth_err_text err))
         | Inr token \<Rightarrow> Inr (token, role))"

definition APIKeyEndpoint ::
  "auth_env \<Rightarrow> 8 word list option \<Rightarrow> int \<Rightarrow> int \<Rightarrow> string \<Rightarrow> string \<Rightarrow> auth_state \<Rightarrow>
   (http_reject + string \<times> string \<times> string) \<times> auth_state" where
  "APIKeyEndpoint env rnd now0 now1 name role a =
     (let name = (if name = [] then ''service-key'' else name);
          role = (if role = [] then RoleOperator else role)
      in case CreateAPIKey (ae_sha env) rnd now0 now1 name role (as_keys a) of
           (Inl err, keys) \<Rightarrow> (Inl (Reject 500 (key_err_text err)), a\<lparr>as_keys := keys\<rparr>)
         | (Inr (keyID, rawKey), keys) \<Rightarrow> (Inr (keyID, rawKey, role), a\<lparr>as_keys := keys\<rparr>))"

section \<open>The gate\<close>

text \<open>A call is admitted by its credentials, the limiter and the role.\<close>

definition rpc_admitted ::
  "string \<Rightarrow> auth_env \<Rightarrow> int \<Rightarrow> int \<Rightarrow> grpc_md option \<Rightarrow> auth_state \<Rightarrow> bool" where
  "rpc_admitted required env t0 t1 omd a \<longleftrightarrow>
     (\<exists>md role clientID. omd = Some md \<and> rpc_credentials env t0 md a = Inr (role, clientID) \<and>
        fst (Allow t1 clientID role (as_limiter a)) \<and> RoleSatisfies role required)"

lemma rpc_credentials_code: "rpc_credentials env t0 md a = Inl e \<Longrightarrow> code_of e = Unauthenticated"
  by (auto simp: rpc_credentials_def Let_def split: if_splits sum.splits)

lemma UnaryServerInterceptor_admitted:
  assumes "rpc_admitted (required_role roleMap m) env t0 t1 omd a"
  shows "fst (UnaryServerInterceptor roleMap env t0 t1 omd m handler (a, s)) = fst (handler s) \<and>
    snd (snd (UnaryServerInterceptor roleMap env t0 t1 omd m handler (a, s))) = snd (handler s)"
  using assms by (auto simp: rpc_admitted_def UnaryServerInterceptor_def Let_def split: prod.splits)

lemma UnaryServerInterceptor_refused:
  assumes "\<not> rpc_admitted (required_role roleMap m) env t0 t1 omd a"
  shows "(\<exists>c msg. fst (UnaryServerInterceptor roleMap env t0 t1 omd m handler (a, s)) = Inl (Status c msg) \<and>
      c \<in> {Unauthenticated, ResourceExhausted, PermissionDenied}) \<and>
    snd (snd (UnaryServerInterceptor roleMap env t0 t1 omd m handler (a, s))) = s"
proof (cases omd)
  case (Some md)
  show ?thesis
  proof (cases "rpc_credentials env t0 md a")
    case (Inl e)
    with Some rpc_credentials_code [OF Inl] show ?thesis
      by (cases e) (simp add: UnaryServerInterceptor_def)
  next
    case (Inr rc)
    obtain role clientID where rc: "rc = (role, clientID)" by (cases rc)
    obtain ok limiter where al: "Allow t1 clientID role (as_limiter a) = (ok, limiter)"
      by (cases "Allow t1 clientID role (as_limiter a)")
    have "\<not> ok \<or> \<not> RoleSatisfies role (required_role roleMap m)"
      using assms Some Inr rc al by (auto simp: rpc_admitted_def)
    with Some Inr rc al show ?thesis by (auto simp: UnaryServerInterceptor_def Let_def)
  qed
qed (simp add: UnaryServerInterceptor_def)

text \<open>
  C23. The server interceptor is a gate: an admitted call returns exactly what the handler
  returns and has its effect; every other call leaves the service's state alone and fails
  with an authentication, rate or permission code. The key store never changes.
\<close>

theorem UnaryServerInterceptor_gate:
  fixes roleMap env t0 t1 omd m handler a s
  defines "out \<equiv> UnaryServerInterceptor roleMap env t0 t1 omd m handler (a, s)"
  shows "(if rpc_admitted (required_role roleMap m) env t0 t1 omd a
      then fst out = fst (handler s) \<and> snd (snd out) = snd (handler s)
      else (\<exists>c msg. fst out = Inl (Status c msg) \<and> c \<in> {Unauthenticated, ResourceExhausted, PermissionDenied}) \<and>
           snd (snd out) = s) \<and>
    as_keys (fst (snd out)) = as_keys a"
proof -
  have "as_keys (fst (snd out)) = as_keys a"
    unfolding out_def UnaryServerInterceptor_def Let_def
    by (simp split: option.splits sum.splits prod.splits)
  then show ?thesis
    using UnaryServerInterceptor_admitted [of roleMap m env t0 t1 omd a handler s]
      UnaryServerInterceptor_refused [of roleMap m env t0 t1 omd a handler s]
    unfolding out_def by (cases "rpc_admitted (required_role roleMap m) env t0 t1 omd a") (simp_all only: if_True if_False simp_thms)
qed

text \<open>The credentials of a fresh token of one of the three roles.\<close>

lemma rpc_credentials_token:
  assumes "IssueToken (ae_hmac env) (ae_secret env) now user role d = Inr tok"
    and "ae_unmarshal env (marshal_claims (issued_claims now user role d)) = Some (issued_claims now user role d)"
    and "unix t0 \<le> unix (now + d)" and "md ''authorization'' = (''Bearer '' @ tok) # rest"
  shows "rpc_credentials env t0 md a = Inr (role, user)"
proof -
  have v: "VerifyToken (ae_hmac env) (ae_unmarshal env) (ae_secret env) t0 tok = Inr (issued_claims now user role d)"
    by (rule VerifyToken_issued [where unmarshal = "ae_unmarshal env", OF assms(1-3)])
  show ?thesis
    unfolding rpc_credentials_def assms(4) Let_def list.size nth_Cons_0 trim_prefix_append v sum.case
    by (simp add: issued_claims_def has_prefix_append [of "''Bearer ''", simplified])
qed

text \<open>
  Client and server interceptors fit together: a call made through the client
  interceptor with one of the three roles reaches the server as that service and role, so it
  is admitted exactly when the limiter has a token for the service and the role meets the
  method's requirement, at any server clock up to the token's fifth minute.
\<close>

theorem internal_call_admitted:
  assumes "role \<in> {RoleAdmin, RoleOperator, RoleReadOnly}" and "ae_secret env \<noteq> []"
    and "md ''authorization'' = []"
    and "ae_unmarshal env (marshal_claims (issued_claims now service role (5 * minute))) =
           Some (issued_claims now service role (5 * minute))"
    and "unix t0 \<le> unix (now + 5 * minute)"
  shows "UnaryClientInterceptor env now service role md
      (\<lambda>md. fst (UnaryServerInterceptor roleMap env t0 t1 (Some md) m handler (a, s))) =
    (if \<not> fst (Allow t1 service role (as_limiter a)) then Inl (Status ResourceExhausted ''rate limit exceeded'')
     else if \<not> RoleSatisfies role (required_role roleMap m)
     then Inl (Status PermissionDenied (''permission denied: role '' @ role @ '' cannot execute '' @ m))
     else fst (handler s))"
proof -
  obtain tok where tok: "IssueToken (ae_hmac env) (ae_secret env) now service role (5 * minute) = Inr tok"
    using assms(1,2) by (auto simp: IssueToken_def getSecretKey_def Let_def)
  let ?md = "md(''authorization'' := md ''authorization'' @ [''Bearer '' @ tok])"
  have cr: "rpc_credentials env t0 ?md a = Inr (role, service)"
    by (rule rpc_credentials_token [OF tok assms(4,5), of _ "[]"]) (simp only: fun_upd_same assms(3) append_Nil)
  have "UnaryClientInterceptor env now service role md
      (\<lambda>md. fst (UnaryServerInterceptor roleMap env t0 t1 (Some md) m handler (a, s))) =
    fst (UnaryServerInterceptor roleMap env t0 t1 (Some ?md) m handler (a, s))"
    unfolding UnaryClientInterceptor_def tok sum.case ..
  then show ?thesis
    unfolding UnaryServerInterceptor_def prod.case option.case cr Let_def sum.case
    by (simp only: case_prod_beta fst_conv snd_conv if_distrib [of fst])
qed

lemma installed_methods_unmatched: "list_all (\<lambda>(roleMap, m). roleMap m = None) installed_methods"
  by code_simp

lemma installed_required_role: "(roleMap, m) \<in> set installed_methods \<Longrightarrow> required_role roleMap m = RoleReadOnly"
  using installed_methods_unmatched by (auto simp: list_all_iff required_role_def)

text \<open>
  The role maps do not protect the services: their keys begin with
  \<^verbatim>\<open>/proto.\<close>, the generated method names with the package names
  \<^verbatim>\<open>metadata\<close>, \<^verbatim>\<open>nodeagent\<close> and
  \<^verbatim>\<open>operations\<close>. So no entry ever matches, every method of every service
  requires only the read-only role, and a read-only credential is admitted to all of them,
  although the maps mean \<^verbatim>\<open>UpdateNodeStatus\<close>, \<^verbatim>\<open>DrainNode\<close>,
  \<^verbatim>\<open>StartDeployment\<close> and \<^verbatim>\<open>TriggerRollback\<close> for administrators.
\<close>

theorem read_only_reaches_every_method:
  "list_all (\<lambda>(roleMap, m). rpc_admitted (required_role roleMap m) env t0 t1 omd a \<longleftrightarrow>
      rpc_admitted RoleReadOnly env t0 t1 omd a) installed_methods \<and>
   metaRoleMap ''/proto.MetadataService/UpdateNodeStatus'' = Some RoleAdmin \<and>
   nodeRoleMap ''/proto.NodeAgent/DrainNode'' = Some RoleAdmin"
proof (intro conjI)
  show "list_all (\<lambda>(roleMap, m). rpc_admitted (required_role roleMap m) env t0 t1 omd a \<longleftrightarrow>
      rpc_admitted RoleReadOnly env t0 t1 omd a) installed_methods"
    using installed_required_role by (auto simp: list_all_iff)
qed code_simp+

section \<open>The token endpoint\<close>

lemma bearer_prefix: "has_prefix (''Bearer '' @ t) ''Bearer ''" "trim_prefix (''Bearer '' @ t) ''Bearer '' = t"
  by (rule has_prefix_append, rule trim_prefix_append)

text \<open>
  The token endpoint authenticates nobody: whatever the password, a request for a user
  and one of the three roles is answered with a token of that role, which the HTTP
  middleware then accepts on every path that requires the role, for a client the limiter
  has not seen.
\<close>

theorem TokenEndpoint_grants_role:
  assumes "role \<in> {RoleAdmin, RoleOperator, RoleReadOnly}" and "user \<noteq> []" and "ae_secret env \<noteq> []"
    and "ae_unmarshal env (marshal_claims (issued_claims now user role (24 * hour))) =
           Some (issued_claims now user role (24 * hour))"
    and "unix t0 \<le> unix (now + 24 * hour)" and "rl_buckets (as_limiter a) user = None"
  shows "\<exists>tok. TokenEndpoint env now \<lparr>tr_user = user, tr_role = role, tr_password = pw\<rparr> = Inr (tok, role) \<and>
    fst (AuthenticateAndAuthorize role env t0 t1 (\<lambda>ctx s. (v ctx, s))
      \<lparr>rq_path = p, rq_authorization = ''Bearer '' @ tok, rq_api_key = k\<rparr> (a, s)) =
      Inr (v (if exempt_path p then None else Some (issued_claims now user role (24 * hour))))"
proof -
  obtain tok where tok: "IssueToken (ae_hmac env) (ae_secret env) now user role (24 * hour) = Inr tok"
    using assms(1,3) by (auto simp: IssueToken_def getSecretKey_def Let_def)
  have v: "VerifyToken (ae_hmac env) (ae_unmarshal env) (ae_secret env) t0 tok =
      Inr (issued_claims now user role (24 * hour))"
    by (rule VerifyToken_issued [where unmarshal = "ae_unmarshal env", OF tok assms(4,5)])
  have role: "role \<noteq> []" "RoleSatisfies role role" using assms(1) by (auto simp: RoleSatisfies_def)
  have te: "TokenEndpoint env now \<lparr>tr_user = user, tr_role = role, tr_password = pw\<rparr> = Inr (tok, role)"
    unfolding TokenEndpoint_def token_request.select_convs if_not_P [OF assms(2)] if_not_P [OF role(1)] Let_def tok
    by simp
  have al: "fst (Allow t1 user role (as_limiter a))"
    by (simp only: Allow_def assms(6) option.case Let_def fst_conv)
  have cl: "cl_role (issued_claims now user role (24 * hour)) = role"
    "cl_sub (issued_claims now user role (24 * hour)) = user" by (simp_all add: issued_claims_def)
  show ?thesis
  proof (intro exI conjI)
    show "fst (AuthenticateAndAuthorize role env t0 t1 (\<lambda>ctx s. (v ctx, s))
      \<lparr>rq_path = p, rq_authorization = ''Bearer '' @ tok, rq_api_key = k\<rparr> (a, s)) =
      Inr (v (if exempt_path p then None else Some (issued_claims now user role (24 * hour))))"
      unfolding AuthenticateAndAuthorize_def prod.case Let_def http_request.select_convs bearer_prefix if_True
        v sum.case cl
      using al role(2) by (cases "exempt_path p") (simp_all add: case_prod_beta)
  qed (rule te)
qed

section \<open>Concrete calls\<close>

definition demo_env :: "jwt_claims \<Rightarrow> auth_env" where
  "demo_env c = \<lparr>ae_hmac = demo_hmac, ae_sha = demo_sha,
     ae_unmarshal = (\<lambda>s. if s = marshal_claims c then Some c else None), ae_secret = ''s3cret''\<rparr>"

definition demo_auth :: auth_state where
  "demo_auth = \<lparr>as_limiter = NewRateLimiter DefaultRules, as_keys = NewAPIKeyStore\<rparr>"

theorem internal_call_admitted_witness:
  "UnaryClientInterceptor (demo_env (issued_claims 0 ''gw'' RoleReadOnly (5 * minute))) 0 ''gw'' RoleReadOnly (\<lambda>_. [])
      (\<lambda>md. fst (UnaryServerInterceptor metaRoleMap (demo_env (issued_claims 0 ''gw'' RoleReadOnly (5 * minute)))
         second second (Some md) ''/metadata.MetadataService/UpdateNodeStatus'' (\<lambda>s. (Inr True, s)) (demo_auth, ()))) =
    Inr True"
proof -
  let ?c = "issued_claims 0 ''gw'' RoleReadOnly (5 * minute)"
  let ?m = "''/metadata.MetadataService/UpdateNodeStatus''"
  have al: "fst (Allow second ''gw'' RoleReadOnly (as_limiter demo_auth))" by code_simp
  have rs: "RoleSatisfies RoleReadOnly (required_role metaRoleMap ?m)" by code_simp
  have um: "ae_unmarshal (demo_env ?c) (marshal_claims ?c) = Some ?c" by (simp only: demo_env_def auth_env.simps simp_thms if_True)
  have t: "unix second \<le> unix (0 + 5 * minute)" by code_simp
  have role: "RoleReadOnly \<in> {RoleAdmin, RoleOperator, RoleReadOnly}" by (simp only: insert_iff simp_thms)
  have sec: "ae_secret (demo_env ?c) \<noteq> []" by (simp add: demo_env_def)
  show ?thesis
    using internal_call_admitted [OF role sec refl um t, of metaRoleMap second ?m "\<lambda>s. (Inr True, s)" demo_auth "()"]
    by (simp only: al rs if_False if_True not_True_eq_False fst_conv simp_thms)
qed

theorem TokenEndpoint_grants_role_witness:
  "\<exists>tok. TokenEndpoint (demo_env (issued_claims 0 ''eve'' RoleAdmin (24 * hour))) 0
      \<lparr>tr_user = ''eve'', tr_role = RoleAdmin, tr_password = []\<rparr> = Inr (tok, RoleAdmin) \<and>
    fst (AuthenticateAndAuthorize RoleAdmin (demo_env (issued_claims 0 ''eve'' RoleAdmin (24 * hour))) 0 0
      (\<lambda>ctx s. (ctx, s)) \<lparr>rq_path = ''/v1/deployments/rollback'', rq_authorization = ''Bearer '' @ tok,
      rq_api_key = []\<rparr> (demo_auth, ())) =
      Inr (if exempt_path ''/v1/deployments/rollback'' then None else Some (issued_claims 0 ''eve'' RoleAdmin (24 * hour)))"
proof (rule TokenEndpoint_grants_role [where v = "\<lambda>x. x"])
  let ?c = "issued_claims 0 ''eve'' RoleAdmin (24 * hour)"
  show "ae_unmarshal (demo_env ?c) (marshal_claims ?c) = Some ?c" by (simp only: demo_env_def auth_env.simps simp_thms if_True)
  show "RoleAdmin \<in> {RoleAdmin, RoleOperator, RoleReadOnly}" by (simp only: insert_iff simp_thms)
  show "unix 0 \<le> unix (0 + 24 * hour)" by code_simp
  show "ae_secret (demo_env ?c) \<noteq> []" by (simp add: demo_env_def)
  show "rl_buckets (as_limiter demo_auth) ''eve'' = None" by code_simp
qed simp

end
