(* ===== verification/Access.thy ===== *)
theory Access
  imports Middleware
begin

text \<open>
  How the processes use the authentication package: an HTTP mux whose routes are wrapped in
  the middleware with a role each (the \<^verbatim>\<open>RegisterRoutes\<close> functions), and the
  process-wide state of the package, of which every process has its own.
\<close>

section \<open>A mux with a role per route\<close>

definition mux_serve ::
  "('c \<Rightarrow> string option) \<Rightarrow> ('c \<Rightarrow> 'w \<Rightarrow> 'r \<times> 'w) \<Rightarrow> auth_env \<Rightarrow> int \<Rightarrow> int \<Rightarrow> 'c \<Rightarrow> http_request \<Rightarrow>
   auth_state \<times> 'w \<Rightarrow> (http_reject + 'r) \<times> auth_state \<times> 'w" where
  "mux_serve role_of handle env t0 t1 call r st =
     (case role_of call of
        None \<Rightarrow> (let (v, w) = handle call (snd st) in (Inr v, fst st, w))
      | Some role \<Rightarrow> AuthenticateAndAuthorize role env t0 t1 (\<lambda>_. handle call) r st)"

text \<open>A refused request changes nothing behind the mux; without credentials every gated one is refused.\<close>

lemma AuthenticateAndAuthorize_refused:
  assumes "fst (AuthenticateAndAuthorize role env t0 t1 h r (a, s)) = Inl rej"
  shows "snd (snd (AuthenticateAndAuthorize role env t0 t1 h r (a, s))) = s"
  using assms by (auto simp: AuthenticateAndAuthorize_def Let_def split: prod.splits sum.splits if_splits)

lemma AuthenticateAndAuthorize_anonymous:
  assumes "\<not> exempt_path (rq_path r)" and "\<not> has_prefix (rq_authorization r) ''Bearer ''" and "rq_api_key r = []"
  shows "AuthenticateAndAuthorize role env t0 t1 h r (a, s) =
    (Inl (Reject 401 ''Unauthorized: missing authorization credentials''), a, s)"
  using assms by (simp add: AuthenticateAndAuthorize_def)

lemma AuthenticateAndAuthorize_keys:
  "as_keys (fst (snd (AuthenticateAndAuthorize role env t0 t1 h r (a, s)))) = as_keys a"
  by (auto simp: AuthenticateAndAuthorize_def Let_def split: prod.split sum.split)

lemma mux_gate:
  assumes "\<not> exempt_path (rq_path r)"
  shows "(\<forall>rej. fst (mux_serve role_of handle env t0 t1 call r (a, w)) = Inl rej \<longrightarrow>
       snd (snd (mux_serve role_of handle env t0 t1 call r (a, w))) = w) \<and>
    (\<not> has_prefix (rq_authorization r) ''Bearer '' \<and> rq_api_key r = [] \<longrightarrow>
       ((\<exists>v. fst (mux_serve role_of handle env t0 t1 call r (a, w)) = Inr v) \<longleftrightarrow> role_of call = None))"
proof (cases "role_of call")
  case None
  then have "mux_serve role_of handle env t0 t1 call r (a, w) = (case handle call w of (v, w) \<Rightarrow> (Inr v, a, w))"
    by (simp add: mux_serve_def)
  with None show ?thesis by (simp add: case_prod_beta)
next
  case (Some role)
  then have e: "mux_serve role_of handle env t0 t1 call r (a, w) =
      AuthenticateAndAuthorize role env t0 t1 (\<lambda>_. handle call) r (a, w)"
    by (simp add: mux_serve_def)
  show ?thesis
    unfolding e using Some AuthenticateAndAuthorize_refused [of role env t0 t1 "\<lambda>_. handle call" r a w]
      AuthenticateAndAuthorize_anonymous [OF assms, of role env t0 t1 "\<lambda>_. handle call" a w] by auto
qed

section \<open>The key stores of the processes\<close>

text \<open>
  The key store and the limiter are package variables, so each process starts with its own,
  empty. Only the endpoint of the auth service creates keys; every other process checks
  requests and calls.
\<close>

datatype process =
    Auth_Service | Gateway_Process | Control_Plane_Process | Metadata_Process | Scheduler_Process
  | Worker_Process | Deployment_Process | Planner_Process | Sla_Process

definition fresh_process :: auth_state where
  "fresh_process = \<lparr>as_limiter = NewRateLimiter DefaultRules, as_keys = NewAPIKeyStore\<rparr>"

inductive mesh_reach :: "(process \<Rightarrow> auth_state) \<Rightarrow> bool" where
  start: "mesh_reach (\<lambda>_. fresh_process)"
| new_key: "mesh_reach m \<Longrightarrow>
    mesh_reach (m(Auth_Service := snd (APIKeyEndpoint env rnd now0 now1 name role (m Auth_Service))))"
| request: "mesh_reach m \<Longrightarrow>
    mesh_reach (m(p := fst (snd (AuthenticateAndAuthorize role env t0 t1
      (h :: jwt_claims option \<Rightarrow> unit \<Rightarrow> unit \<times> unit) r (m p, ())))))"
| call: "mesh_reach m \<Longrightarrow>
    mesh_reach (m(p := fst (snd (UnaryServerInterceptor roleMap env t0 t1 omd method
      (h :: unit \<Rightarrow> unit rpc \<times> unit) (m p, ())))))"

lemma UnaryServerInterceptor_keys:
  "as_keys (fst (snd (UnaryServerInterceptor roleMap env t0 t1 omd m handler (a, s)))) = as_keys a"
  unfolding UnaryServerInterceptor_def Let_def by (simp split: option.splits sum.splits prod.splits)

lemma mesh_keys: "mesh_reach m \<Longrightarrow> p \<noteq> Auth_Service \<Longrightarrow> as_keys (m p) = NewAPIKeyStore"
  by (induction rule: mesh_reach.induct)
    (auto simp: fresh_process_def AuthenticateAndAuthorize_keys UnaryServerInterceptor_keys)

lemma VerifyAPIKey_empty: "VerifyAPIKey sha k NewAPIKeyStore = Inl ErrInvalidAPIKey"
  by (simp add: VerifyAPIKey_def NewAPIKeyStore_def)

text \<open>
  C26. No service accepts an API key. The auth service creates a key and answers that it is
  good; but keys live in the memory of the process that created them, so whatever has
  happened, a request or a call that presents a key, any key, to any other process is refused
  as one with a non-existent key, and nothing is served.
\<close>

theorem api_keys_accepted_nowhere:
  assumes "mesh_reach m" and "p \<noteq> Auth_Service" and "key \<noteq> []"
  shows "(\<not> exempt_path path \<longrightarrow>
      AuthenticateAndAuthorize role env t0 t1 h \<lparr>rq_path = path, rq_authorization = [], rq_api_key = key\<rparr> (m p, s) =
        (Inl (Reject 401 ''Unauthorized: invalid or non-existent API key''), m p, s)) \<and>
    (md ''authorization'' = [] \<and> md ''x-api-key'' = key # keys \<longrightarrow>
      UnaryServerInterceptor roleMap env t0 t1 (Some md) method handler (m p, s) =
        (Inl (Status Unauthenticated ''invalid API key: invalid or non-existent API key''), m p, s))"
proof -
  have keys: "VerifyAPIKey sha k (as_keys (m p)) = Inl ErrInvalidAPIKey" for sha k
    unfolding mesh_keys [OF assms(1,2)] by (rule VerifyAPIKey_empty)
  have nb: "\<not> has_prefix [] ''Bearer ''" by code_simp
  show ?thesis
  proof (intro conjI impI)
    assume "\<not> exempt_path path"
    with nb assms(3) show "AuthenticateAndAuthorize role env t0 t1 h \<lparr>rq_path = path, rq_authorization = [], rq_api_key = key\<rparr> (m p, s) =
        (Inl (Reject 401 ''Unauthorized: invalid or non-existent API key''), m p, s)"
      by (simp add: AuthenticateAndAuthorize_def keys)
  next
    assume "md ''authorization'' = [] \<and> md ''x-api-key'' = key # keys"
    then show "UnaryServerInterceptor roleMap env t0 t1 (Some md) method handler (m p, s) =
        (Inl (Status Unauthenticated ''invalid API key: invalid or non-existent API key''), m p, s)"
      by (simp add: UnaryServerInterceptor_def rpc_credentials_def keys)
  qed
qed

section \<open>Services share a budget\<close>

text \<open>
  A call between services: the clocks of the caller's token, of the check of the token and of
  the limiter, the service and role the caller's interceptor was built with, the method. The
  handler counts how often it runs.
\<close>

record internal_call =
  ic_now :: int
  ic_t0 :: int
  ic_t1 :: int
  ic_service :: string
  ic_role :: string
  ic_method :: string

definition make_call ::
  "(string \<Rightarrow> string option) \<Rightarrow> auth_env \<Rightarrow> internal_call \<Rightarrow> auth_state \<times> nat \<Rightarrow> auth_state \<times> nat" where
  "make_call roleMap env c st =
     (case IssueToken (ae_hmac env) (ae_secret env) (ic_now c) (ic_service c) (ic_role c) (5 * minute) of
        Inl err \<Rightarrow> st
      | Inr tok \<Rightarrow>
          snd (UnaryServerInterceptor roleMap env (ic_t0 c) (ic_t1 c)
            (Some ((\<lambda>_. [])(''authorization'' := [''Bearer '' @ tok]))) (ic_method c) (\<lambda>n. (Inr (), Suc n)) st))"

fun run_calls ::
  "(string \<Rightarrow> string option) \<Rightarrow> auth_env \<Rightarrow> internal_call list \<Rightarrow> auth_state \<times> nat \<Rightarrow> auth_state \<times> nat" where
  "run_calls roleMap env [] st = st"
| "run_calls roleMap env (c # cs) st = run_calls roleMap env cs (make_call roleMap env c st)"

text \<open>The claims of the call's token survive its JSON text.\<close>

definition parses :: "auth_env \<Rightarrow> internal_call \<Rightarrow> bool" where
  "parses env c \<longleftrightarrow>
     (let claims = issued_claims (ic_now c) (ic_service c) (ic_role c) (5 * minute)
      in ae_unmarshal env (marshal_claims claims) = Some claims)"

lemma make_call_cases:
  assumes "parses env c"
  shows "make_call roleMap env c (a, n) = (a, n) \<or>
    (\<exists>m. make_call roleMap env c (a, n) =
      (a\<lparr>as_limiter := snd (Allow (ic_t1 c) (ic_service c) (ic_role c) (as_limiter a))\<rparr>, m) \<and>
      m \<le> n + (if fst (Allow (ic_t1 c) (ic_service c) (ic_role c) (as_limiter a)) then 1 else 0))"
proof (cases "IssueToken (ae_hmac env) (ae_secret env) (ic_now c) (ic_service c) (ic_role c) (5 * minute)")
  case (Inl e)
  then show ?thesis by (simp add: make_call_def)
next
  case (Inr tok)
  let ?cl = "issued_claims (ic_now c) (ic_service c) (ic_role c) (5 * minute)"
  let ?md = "(\<lambda>_. [])(''authorization'' := [''Bearer '' @ tok])"
  have v: "VerifyToken (ae_hmac env) (ae_unmarshal env) (ae_secret env) (ic_t0 c) tok =
      (if unix (ic_t0 c) \<le> unix (ic_now c + 5 * minute) then Inr ?cl else Inl ErrExpiredToken)"
    by (rule VerifyToken_of_issued [where unmarshal = "ae_unmarshal env", OF Inr])
      (use assms in \<open>simp add: parses_def Let_def\<close>)
  have cr: "rpc_credentials env (ic_t0 c) ?md a =
      (if unix (ic_t0 c) \<le> unix (ic_now c + 5 * minute) then Inr (ic_role c, ic_service c)
       else Inl (Status Unauthenticated (''invalid token: '' @ auth_err_text ErrExpiredToken)))"
    unfolding rpc_credentials_def Let_def fun_upd_same list.size nth_Cons_0 bearer_prefix v
    by (simp add: issued_claims_def)
  have call: "make_call roleMap env c (a, n) =
      snd (UnaryServerInterceptor roleMap env (ic_t0 c) (ic_t1 c) (Some ?md) (ic_method c) (\<lambda>n. (Inr (), Suc n)) (a, n))"
    unfolding make_call_def Inr sum.case ..
  obtain ok limiter where al: "Allow (ic_t1 c) (ic_service c) (ic_role c) (as_limiter a) = (ok, limiter)"
    by (metis surj_pair)
  show ?thesis
    unfolding call UnaryServerInterceptor_def prod.case option.case cr Let_def
    by (cases "unix (ic_t0 c) \<le> unix (ic_now c + 5 * minute)") (auto simp: al)
qed

text \<open>The bucket of an identity whose calls all come with one role is made by the rule of that role.\<close>

definition budget_ok :: "string \<Rightarrow> string \<Rightarrow> auth_state \<Rightarrow> bool" where
  "budget_ok k role a \<longleftrightarrow> rl_rules (as_limiter a) = DefaultRules \<and>
     (\<forall>b. rl_buckets (as_limiter a) k = Some b \<longrightarrow> bucket_ok (rule_for DefaultRules role) b)"

lemma rule_pos: "0 < rr_max (rule_for DefaultRules role)"
  by (simp add: rule_for_def DefaultRules_def split: option.split)

lemma Allow_budget:
  assumes "budget_ok k role a" and "service = k \<longrightarrow> role' = role"
  shows "budget_ok k role (a\<lparr>as_limiter := snd (Allow t service role' (as_limiter a))\<rparr>)"
proof -
  have "bucket_ok (rule_for DefaultRules role) b"
    if "rl_buckets (snd (call_step (t, service, role') (as_limiter a))) k = Some b" for b
    by (rule call_step_ok [OF rule_pos _ _ that]) (use assms in \<open>auto simp: budget_ok_def\<close>)
  then show ?thesis using assms(1) by (simp add: budget_ok_def call_step_def)
qed

lemma make_call_budget:
  assumes "parses env c" and "ic_service c = k \<longrightarrow> ic_role c = role" and "budget_ok k role a"
    and "make_call roleMap env c (a, n) = (a', n')"
  shows "budget_ok k role a'"
  using make_call_cases [OF assms(1), of roleMap a n] Allow_budget [OF assms(3,2)] assms(3,4) by auto

lemma run_calls_budget:
  assumes "list_all (\<lambda>c. parses env c \<and> (ic_service c = k \<longrightarrow> ic_role c = role)) cs" and "budget_ok k role a"
  shows "budget_ok k role (fst (run_calls roleMap env cs (a, n)))"
  using assms
proof (induction cs arbitrary: a n)
  case (Cons c cs)
  obtain a' n' where c: "make_call roleMap env c (a, n) = (a', n')" by (metis surj_pair)
  have "budget_ok k role a'" by (rule make_call_budget [OF _ _ Cons.prems(2) c]) (use Cons.prems(1) in simp_all)
  with Cons show ?case by (simp add: c)
qed simp

definition left_over :: "int \<Rightarrow> string \<Rightarrow> string \<Rightarrow> auth_state \<Rightarrow> int" where
  "left_over s k role a = potential s (rule_for DefaultRules role) (rl_buckets (as_limiter a) k)"

lemma make_call_potential:
  assumes "parses env c" and "ic_service c = k" and "ic_role c = role" and "budget_ok k role a"
    and "s \<le> ic_t1 c" and "ic_t1 c < s + rr_window (rule_for DefaultRules role)"
    and "make_call roleMap env c (a, n) = (a', n')"
  shows "int n' + left_over s k role a' \<le> int n + left_over s k role a"
proof -
  let ?rule = "rule_for DefaultRules role" and ?b = "rl_buckets (as_limiter a) k"
  obtain ok b' where step: "bucket_step (ic_t1 c) ?rule ?b = (ok, b')" by (metis surj_pair)
  have "(if ok then 1 else 0) + potential s ?rule (Some b') \<le> potential s ?rule ?b"
    using bucket_step_potential [OF rule_pos _ assms(5,6), of ?b] assms(4) by (simp add: budget_ok_def step)
  moreover have "Allow (ic_t1 c) k role (as_limiter a) =
      (ok, (as_limiter a)\<lparr>rl_buckets := (rl_buckets (as_limiter a))(k \<mapsto> b')\<rparr>)"
    using assms(4) by (simp add: Allow_eq budget_ok_def step)
  moreover from this have "a' = a \<and> n' = n \<or>
      a' = a\<lparr>as_limiter := (as_limiter a)\<lparr>rl_buckets := (rl_buckets (as_limiter a))(k \<mapsto> b')\<rparr>\<rparr> \<and> n' \<le> n + (if ok then 1 else 0)"
    using make_call_cases [OF assms(1), of roleMap a n] assms(2,3,7) by auto
  ultimately show ?thesis by (cases ok) (auto simp: left_over_def)
qed

lemma run_calls_potential:
  assumes "list_all (\<lambda>c. parses env c \<and> ic_service c = k \<and> ic_role c = role \<and> s \<le> ic_t1 c \<and>
      ic_t1 c < s + rr_window (rule_for DefaultRules role)) cs"
    and "budget_ok k role a" and "run_calls roleMap env cs (a, n) = (a', n')"
  shows "int n' + left_over s k role a' \<le> int n + left_over s k role a"
  using assms
proof (induction cs arbitrary: a n)
  case (Cons c cs)
  obtain a1 n1 where c: "make_call roleMap env c (a, n) = (a1, n1)" by (metis surj_pair)
  have "budget_ok k role a1" by (rule make_call_budget [OF _ _ Cons.prems(2) c]) (use Cons.prems(1) in simp_all)
  then have "int n' + left_over s k role a' \<le> int n1 + left_over s k role a1"
    using Cons by (simp add: c)
  also have "\<dots> \<le> int n + left_over s k role a"
    by (rule make_call_potential [OF _ _ _ Cons.prems(2) _ _ c]) (use Cons.prems(1) in simp_all)
  finally show ?case .
qed simp

text \<open>
  C27. Every process of a service presents the same identity, so they share one bucket: of the
  calls that all instances of a service make within a minute, whatever was called before, a
  server serves at most \<open>2 * max - 1\<close>, where \<open>max\<close> is the limit of the role in the
  service's tokens. The worker nodes together get at most 999 heartbeats a minute through to
  the metadata service, the gateway 199 requests of all its clients.
\<close>

theorem service_identity_budget:
  assumes "list_all (\<lambda>c. parses env c \<and> (ic_service c = k \<longrightarrow> ic_role c = role)) before"
    and "list_all (\<lambda>c. parses env c \<and> ic_service c = k \<and> ic_role c = role \<and> s \<le> ic_t1 c \<and>
      ic_t1 c < s + rr_window (rule_for DefaultRules role)) cs"
  shows "int (snd (run_calls roleMap env cs (fst (run_calls roleMap env before (fresh_process, 0)), 0)))
    \<le> 2 * rr_max (rule_for DefaultRules role) - 1"
proof -
  let ?a = "fst (run_calls roleMap env before (fresh_process, 0))" and ?rule = "rule_for DefaultRules role"
  have "budget_ok k role fresh_process" by (simp add: budget_ok_def fresh_process_def NewRateLimiter_def)
  then have ok: "budget_ok k role ?a" by (rule run_calls_budget [OF assms(1)])
  obtain a' n' where run: "run_calls roleMap env cs (?a, 0) = (a', n')" by (metis surj_pair)
  have "budget_ok k role a'"
    using run_calls_budget [OF _ ok, of env cs roleMap 0] assms(2) run by (simp add: list_all_iff)
  then have "0 \<le> left_over s k role a'"
    using rule_pos [of role] by (auto simp: left_over_def potential_def budget_ok_def bucket_ok_def split: option.split)
  moreover have "left_over s k role ?a \<le> 2 * rr_max ?rule - 1"
    using ok rule_pos [of role] by (auto simp: left_over_def potential_def budget_ok_def bucket_ok_def split: option.split)
  ultimately show ?thesis using run_calls_potential [OF assms(2) ok run] run by simp
qed

lemma role_budgets:
  "rr_max (rule_for DefaultRules RoleOperator) = 500" "rr_max (rule_for DefaultRules RoleReadOnly) = 100"
  "rr_window (rule_for DefaultRules role) = minute"
  by (simp_all add: rule_for_def DefaultRules_def split: option.split)

section \<open>Concrete calls\<close>

definition demo_call :: "int \<Rightarrow> internal_call" where
  "demo_call t = \<lparr>ic_now = 0, ic_t0 = t, ic_t1 = t, ic_service = ''worker-node'', ic_role = RoleOperator,
     ic_method = ''/metadata.MetadataService/SendHeartbeat''\<rparr>"

abbreviation demo_worker_env :: auth_env where
  "demo_worker_env \<equiv> demo_env (issued_claims 0 ''worker-node'' RoleOperator (5 * minute))"

lemma demo_parses: "parses demo_worker_env (demo_call t)"
  by (simp only: parses_def Let_def demo_call_def internal_call.simps demo_env_def auth_env.simps simp_thms if_True)

theorem service_identity_budget_witness:
  "int (snd (run_calls metaRoleMap demo_worker_env [demo_call second, demo_call (2 * second)]
     (fst (run_calls metaRoleMap demo_worker_env [demo_call 0] (fresh_process, 0)), 0))) \<le> 2 * rr_max (rule_for DefaultRules RoleOperator) - 1"
proof (rule service_identity_budget [where k = "''worker-node''" and s = second])
  have c: "ic_service (demo_call t) = ''worker-node''" "ic_role (demo_call t) = RoleOperator" "ic_t1 (demo_call t) = t" for t
    by (simp_all add: demo_call_def)
  show "list_all (\<lambda>c. parses demo_worker_env c \<and> (ic_service c = ''worker-node'' \<longrightarrow> ic_role c = RoleOperator)) [demo_call 0]"
    by (simp only: list.pred_inject c demo_parses simp_thms)
  have "(second :: int) \<le> second" "(second :: int) < second + minute" "second \<le> 2 * (second :: int)" "2 * (second :: int) < second + minute"
    by simp_all
  then show "list_all (\<lambda>c. parses demo_worker_env c \<and> ic_service c = ''worker-node'' \<and> ic_role c = RoleOperator \<and> second \<le> ic_t1 c \<and>
      ic_t1 c < second + rr_window (rule_for DefaultRules RoleOperator)) [demo_call second, demo_call (2 * second)]"
    by (simp only: list.pred_inject c demo_parses role_budgets simp_thms)
qed

definition demo_mesh :: "process \<Rightarrow> auth_state" where
  "demo_mesh = (\<lambda>_. fresh_process)
     (Auth_Service := snd (APIKeyEndpoint demo_worker_env (Some [1, 255]) 1 2 ''ci'' RoleAdmin fresh_process))"

text \<open>The key the auth service has just handed out, presented to the gateway.\<close>

theorem api_keys_accepted_nowhere_witness:
  "fst (APIKeyEndpoint demo_worker_env (Some [1, 255]) 1 2 ''ci'' RoleAdmin fresh_process) = Inr (''key-1'', ''nb_ak_01ff'', RoleAdmin) \<and>
   AuthenticateAndAuthorize RoleReadOnly demo_worker_env 0 0 (\<lambda>_ (s :: unit). ((), s))
      \<lparr>rq_path = ''/v1/databases'', rq_authorization = [], rq_api_key = ''nb_ak_01ff''\<rparr> (demo_mesh Gateway_Process, ()) =
    (Inl (Reject 401 ''Unauthorized: invalid or non-existent API key''), demo_mesh Gateway_Process, ())"
proof (rule conjI)
  show "fst (APIKeyEndpoint demo_worker_env (Some [1, 255]) 1 2 ''ci'' RoleAdmin fresh_process) = Inr (''key-1'', ''nb_ak_01ff'', RoleAdmin)"
    by code_simp
  have m: "mesh_reach demo_mesh"
    unfolding demo_mesh_def
    using mesh_reach.new_key [OF mesh_reach.start, of demo_worker_env "Some [1, 255]" 1 2 "''ci''" RoleAdmin] .
  have e: "\<not> exempt_path ''/v1/databases''" by code_simp
  show "AuthenticateAndAuthorize RoleReadOnly demo_worker_env 0 0 (\<lambda>_ (s :: unit). ((), s))
      \<lparr>rq_path = ''/v1/databases'', rq_authorization = [], rq_api_key = ''nb_ak_01ff''\<rparr> (demo_mesh Gateway_Process, ()) =
    (Inl (Reject 401 ''Unauthorized: invalid or non-existent API key''), demo_mesh Gateway_Process, ())"
    by (rule conjunct1 [OF api_keys_accepted_nowhere [OF m], THEN mp]) (simp_all add: e)
qed

end
