(* ===== verification/Tables.thy ===== *)
theory Tables
  imports Proto
begin

text \<open>
  The tables of the metadata service (\<^verbatim>\<open>services/metadata-service/migrations\<close>)
  and the SQL statements the service sends, each as a function on the tables: the rows it
  touches, the constraints it can violate, in the order the server checks them. What the
  server decides by itself is an argument: its clock, the identifiers it draws, the reading of
  a UUID text, and the failure, if any, of each round trip of a call and of its result rows.
\<close>

datatype db_error = PgError string string | DriverError string

definition unique_violation :: string where "unique_violation = ''23505''"
definition foreign_key_violation :: string where "foreign_key_violation = ''23503''"
definition invalid_text :: string where "invalid_text = ''22P02''"

fun db_err_text :: "db_error \<Rightarrow> string" where
  "db_err_text (PgError code msg) = ''ERROR: '' @ msg @ '' (SQLSTATE '' @ code @ '')''"
| "db_err_text (DriverError msg) = msg"

record pg_env =
  pg_uuid :: "string \<Rightarrow> string option"
  pg_now :: int
  pg_new_id :: string
  pg_fail :: "nat \<Rightarrow> db_error option"
  pg_rows :: "nat \<Rightarrow> nat option"

record region_row =
  rg_id :: string
  rg_name :: string

record cluster_row =
  ct_id :: string
  ct_name :: string
  ct_region :: string

record node_row =
  nr_id :: string
  nr_cluster :: string
  nr_hostname :: string
  nr_status :: string
  nr_cpu :: "go_float option"
  nr_mem :: "go_float option"
  nr_disk :: "go_float option"
  nr_last :: "int option"
  nr_registered :: int

record heartbeat_row =
  hr_node :: string
  hr_cpu :: go_float
  hr_mem :: go_float
  hr_disk :: go_float
  hr_healthy :: bool
  hr_received :: int

record database_row =
  dr_id :: string
  dr_name :: string
  dr_node :: "string option"
  dr_created :: int
  dr_cluster :: "string option"
  dr_status :: string
  dr_attempts :: int
  dr_endpoint :: "string option"
  dr_updated :: int

record replica_row =
  rr_database :: string
  rr_node :: string
  rr_role :: string

record tables =
  tb_regions :: "region_row list"
  tb_clusters :: "cluster_row list"
  tb_nodes :: "node_row list"
  tb_heartbeats :: "heartbeat_row list"
  tb_databases :: "database_row list"
  tb_replicas :: "replica_row list"

section \<open>Statements\<close>

text \<open>Reading an identifier that the column stores as a UUID.\<close>

definition as_uuid :: "pg_env \<Rightarrow> string \<Rightarrow> db_error + string" where
  "as_uuid env s =
     (case pg_uuid env s of Some u \<Rightarrow> Inr u
      | None \<Rightarrow> Inl (PgError invalid_text (''invalid input syntax for type uuid: '' @ quoted s)))"

text \<open>
  The rows of a result the client receives: all of them, or the first ones when the
  connection breaks while they are read, which \<^verbatim>\<open>rows.Next\<close> reports
  like the end of the result.
\<close>

definition delivered :: "pg_env \<Rightarrow> nat \<Rightarrow> 'r list \<Rightarrow> 'r list" where
  "delivered env n rows = (case pg_rows env n of None \<Rightarrow> rows | Some k \<Rightarrow> take k rows)"

lemma set_delivered: "set (delivered env n rows) \<subseteq> set rows"
  by (auto simp: delivered_def dest: in_set_takeD split: option.splits)

text \<open>A round trip that the driver may fail before the server sees the statement.\<close>

definition round_trip :: "pg_env \<Rightarrow> nat \<Rightarrow> (db_error + 'a) \<Rightarrow> db_error + 'a" where
  "round_trip env n r = (case pg_fail env n of Some e \<Rightarrow> Inl e | None \<Rightarrow> r)"

definition find_row :: "('r \<Rightarrow> string) \<Rightarrow> string \<Rightarrow> 'r list \<Rightarrow> 'r option" where
  "find_row key k rows = find (\<lambda>r. key r = k) rows"

definition update_rows :: "('r \<Rightarrow> string) \<Rightarrow> string \<Rightarrow> ('r \<Rightarrow> 'r) \<Rightarrow> 'r list \<Rightarrow> 'r list" where
  "update_rows key k f rows = map (\<lambda>r. if key r = k then f r else r) rows"

definition rows_affected :: "('r \<Rightarrow> string) \<Rightarrow> string \<Rightarrow> 'r list \<Rightarrow> nat" where
  "rows_affected key k rows = length (filter (\<lambda>r. key r = k) rows)"

text \<open>\<^verbatim>\<open>INSERT INTO nodes (cluster_id, hostname, status) VALUES ($1, $2, 'healthy') RETURNING id\<close>\<close>

definition insert_node :: "pg_env \<Rightarrow> string \<Rightarrow> string \<Rightarrow> tables \<Rightarrow> db_error + string \<times> tables" where
  "insert_node env clusterID hostname t =
     (case as_uuid env clusterID of
        Inl e \<Rightarrow> Inl e
      | Inr c \<Rightarrow>
          if \<exists>n \<in> set (tb_nodes t). nr_id n = pg_new_id env \<or> nr_cluster n = c \<and> nr_hostname n = hostname
          then Inl (PgError unique_violation ''duplicate key value violates unique constraint'')
          else if \<forall>k \<in> set (tb_clusters t). ct_id k \<noteq> c
          then Inl (PgError foreign_key_violation ''insert on table nodes violates foreign key constraint'')
          else Inr (pg_new_id env,
                t\<lparr>tb_nodes := tb_nodes t @
                  [\<lparr>nr_id = pg_new_id env, nr_cluster = c, nr_hostname = hostname, nr_status = ''healthy'',
                    nr_cpu = None, nr_mem = None, nr_disk = None, nr_last = None,
                    nr_registered = pg_now env\<rparr>]\<rparr>))"

text \<open>\<^verbatim>\<open>INSERT INTO heartbeats (...) VALUES ($1, $2, $3, $4, $5, now())\<close>\<close>

definition insert_heartbeat ::
  "pg_env \<Rightarrow> string \<Rightarrow> go_float \<Rightarrow> go_float \<Rightarrow> go_float \<Rightarrow> bool \<Rightarrow> tables \<Rightarrow> db_error + tables" where
  "insert_heartbeat env nodeID cpu mem disk healthy t =
     (case as_uuid env nodeID of
        Inl e \<Rightarrow> Inl e
      | Inr n \<Rightarrow>
          if find_row nr_id n (tb_nodes t) = None
          then Inl (PgError foreign_key_violation ''insert on table heartbeats violates foreign key constraint'')
          else Inr (t\<lparr>tb_heartbeats := tb_heartbeats t @
                  [\<lparr>hr_node = n, hr_cpu = cpu, hr_mem = mem, hr_disk = disk, hr_healthy = healthy,
                    hr_received = pg_now env\<rparr>]\<rparr>))"

text \<open>\<^verbatim>\<open>UPDATE nodes SET ... WHERE id = $n\<close>: the number of rows and the tables.\<close>

definition update_node :: "pg_env \<Rightarrow> string \<Rightarrow> (node_row \<Rightarrow> node_row) \<Rightarrow> tables \<Rightarrow> db_error + nat \<times> tables" where
  "update_node env nodeID f t =
     (case as_uuid env nodeID of
        Inl e \<Rightarrow> Inl e
      | Inr n \<Rightarrow> Inr (rows_affected nr_id n (tb_nodes t), t\<lparr>tb_nodes := update_rows nr_id n f (tb_nodes t)\<rparr>))"

text \<open>\<^verbatim>\<open>INSERT INTO databases (...) RETURNING id\<close>, with or without a node.\<close>

definition insert_database ::
  "pg_env \<Rightarrow> string \<Rightarrow> string \<Rightarrow> string \<Rightarrow> string \<Rightarrow> int \<Rightarrow> tables \<Rightarrow> db_error + string \<times> tables" where
  "insert_database env name clusterID nodeID status attempts t =
     (case as_uuid env clusterID of
        Inl e \<Rightarrow> Inl e
      | Inr c \<Rightarrow>
          (case (if nodeID = [] then Inr None else map_sum id Some (as_uuid env nodeID)) of
             Inl e \<Rightarrow> Inl e
           | Inr n \<Rightarrow>
               if \<exists>d \<in> set (tb_databases t). dr_id d = pg_new_id env
               then Inl (PgError unique_violation ''duplicate key value violates unique constraint'')
               else if (\<forall>k \<in> set (tb_clusters t). ct_id k \<noteq> c) \<or>
                       (case n of None \<Rightarrow> False | Some n \<Rightarrow> find_row nr_id n (tb_nodes t) = None)
               then Inl (PgError foreign_key_violation ''insert on table databases violates foreign key constraint'')
               else Inr (pg_new_id env,
                     t\<lparr>tb_databases := tb_databases t @
                       [\<lparr>dr_id = pg_new_id env, dr_name = name, dr_node = n, dr_created = pg_now env,
                         dr_cluster = Some c, dr_status = status, dr_attempts = attempts, dr_endpoint = None,
                         dr_updated = pg_now env\<rparr>]\<rparr>)))"

text \<open>\<^verbatim>\<open>INSERT INTO replicas (database_id, node_id, role) VALUES ($1, $2, 'leader')\<close>\<close>

definition insert_leader :: "pg_env \<Rightarrow> string \<Rightarrow> string \<Rightarrow> tables \<Rightarrow> db_error + tables" where
  "insert_leader env dbID nodeID t =
     (case as_uuid env dbID of
        Inl e \<Rightarrow> Inl e
      | Inr d \<Rightarrow>
          (case as_uuid env nodeID of
             Inl e \<Rightarrow> Inl e
           | Inr n \<Rightarrow>
               if find_row dr_id d (tb_databases t) = None \<or> find_row nr_id n (tb_nodes t) = None
               then Inl (PgError foreign_key_violation ''insert on table replicas violates foreign key constraint'')
               else Inr (t\<lparr>tb_replicas := tb_replicas t @
                     [\<lparr>rr_database = d, rr_node = n, rr_role = ''leader''\<rparr>]\<rparr>)))"

text \<open>
  \<^verbatim>\<open>UPDATE databases SET status, [node_id,] endpoint, attempts, updated_at = now() WHERE id\<close>.
  The node reference is checked when a row changes.
\<close>

definition update_database ::
  "pg_env \<Rightarrow> string \<Rightarrow> string \<Rightarrow> string \<Rightarrow> string \<Rightarrow> int \<Rightarrow> tables \<Rightarrow> db_error + nat \<times> tables" where
  "update_database env dbID status nodeID endpoint attempts t =
     (case as_uuid env dbID of
        Inl e \<Rightarrow> Inl e
      | Inr d \<Rightarrow>
          (case (if nodeID = [] then Inr None else map_sum id Some (as_uuid env nodeID)) of
             Inl e \<Rightarrow> Inl e
           | Inr n \<Rightarrow>
               if rows_affected dr_id d (tb_databases t) > 0 \<and>
                  (case n of None \<Rightarrow> False | Some n \<Rightarrow> find_row nr_id n (tb_nodes t) = None)
               then Inl (PgError foreign_key_violation ''update on table databases violates foreign key constraint'')
               else Inr (rows_affected dr_id d (tb_databases t),
                     t\<lparr>tb_databases := update_rows dr_id d
                         (\<lambda>r. r\<lparr>dr_status := status, dr_node := (case n of None \<Rightarrow> dr_node r | Some n \<Rightarrow> Some n),
                                dr_endpoint := Some endpoint, dr_attempts := attempts, dr_updated := pg_now env\<rparr>)
                         (tb_databases t)\<rparr>)))"

text \<open>\<^verbatim>\<open>DELETE FROM replicas WHERE database_id = $1\<close>\<close>

definition delete_replicas :: "pg_env \<Rightarrow> string \<Rightarrow> tables \<Rightarrow> db_error + tables" where
  "delete_replicas env dbID t =
     (case as_uuid env dbID of
        Inl e \<Rightarrow> Inl e
      | Inr d \<Rightarrow> Inr (t\<lparr>tb_replicas := filter (\<lambda>r. rr_database r \<noteq> d) (tb_replicas t)\<rparr>))"

text \<open>\<^verbatim>\<open>DELETE FROM databases WHERE id = $1\<close>, refused while a replica refers to the row.\<close>

definition delete_database :: "pg_env \<Rightarrow> string \<Rightarrow> tables \<Rightarrow> db_error + nat \<times> tables" where
  "delete_database env dbID t =
     (case as_uuid env dbID of
        Inl e \<Rightarrow> Inl e
      | Inr d \<Rightarrow>
          if rows_affected dr_id d (tb_databases t) > 0 \<and> (\<exists>r \<in> set (tb_replicas t). rr_database r = d)
          then Inl (PgError foreign_key_violation ''delete on table databases violates foreign key constraint'')
          else Inr (rows_affected dr_id d (tb_databases t),
                t\<lparr>tb_databases := filter (\<lambda>r. dr_id r \<noteq> d) (tb_databases t)\<rparr>))"

section \<open>Facts about rows\<close>

lemma find_row_Some: "find_row key k rows = Some r \<Longrightarrow> r \<in> set rows \<and> key r = k"
  unfolding find_row_def by (auto simp: find_Some_iff)

lemma find_row_None: "find_row key k rows = None \<longleftrightarrow> k \<notin> key ` set rows"
  unfolding find_row_def by (auto simp: find_None_iff)

lemma find_row_append:
  "find_row key k (rows @ rows') = (case find_row key k rows of None \<Rightarrow> find_row key k rows' | Some r \<Rightarrow> Some r)"
  unfolding find_row_def by (induction rows) auto

lemma find_row_Cons: "find_row key k (r # rows) = (if key r = k then Some r else find_row key k rows)"
  by (simp add: find_row_def)

lemma find_row_Nil [simp]: "find_row key k [] = None"
  by (simp add: find_row_def)

lemma rows_affected_pos: "0 < rows_affected key k rows \<longleftrightarrow> find_row key k rows \<noteq> None"
  by (auto simp: rows_affected_def find_row_None filter_empty_conv)

lemma update_rows_keys [simp]: "(\<And>r. key (f r) = key r) \<Longrightarrow> map key (update_rows key k f rows) = map key rows"
  by (simp add: update_rows_def)

lemma set_update_rows:
  "set (update_rows key k f rows) = (\<lambda>r. if key r = k then f r else r) ` set rows"
  by (simp add: update_rows_def)

lemma find_update_rows:
  assumes "\<And>r. key (f r) = key r"
  shows "find_row key k' (update_rows key k f rows) =
    map_option (\<lambda>r. if k' = k then f r else r) (find_row key k' rows)"
  using assms unfolding find_row_def update_rows_def by (induction rows) auto

lemma find_filter_rows:
  "find_row key k (filter (\<lambda>r. key r \<noteq> k') rows) = (if k = k' then None else find_row key k rows)"
  unfolding find_row_def by (induction rows) auto

lemma round_trip_Inr: "round_trip env n r = Inr v \<longleftrightarrow> pg_fail env n = None \<and> r = Inr v"
  by (auto simp: round_trip_def split: option.splits)

lemma map_sum_Inr_iff: "map_sum f g x = Inr y \<longleftrightarrow> (\<exists>z. x = Inr z \<and> y = g z)"
  by (cases x) auto

end
