(* ===== verification/Metadata.thy ===== *)
theory Metadata
  imports Tables
begin

text \<open>
  \<^verbatim>\<open>services/metadata-service/grpc/server.go\<close>: the registry of nodes and
  databases. An RPC is a function from the tables to its result and the tables after it; a
  transaction that does not commit leaves the tables as they were.
\<close>

section \<open>Nodes\<close>

record register_response =
  rs_node :: string
  rs_interval :: int

definition RegisterNode :: "pg_env \<Rightarrow> string \<Rightarrow> string \<Rightarrow> tables \<Rightarrow> register_response rpc \<times> tables" where
  "RegisterNode env clusterID hostname t =
     (if clusterID = [] then (Inl (Status InvalidArgument ''cluster_id is required''), t)
      else if hostname = [] then (Inl (Status InvalidArgument ''hostname is required''), t)
      else case round_trip env 0 (insert_node env clusterID hostname t) of
        Inl err \<Rightarrow>
          (Inl (case err of
             PgError code msg \<Rightarrow>
               if code = unique_violation
               then Status AlreadyExists (''node with hostname '' @ quoted hostname @ '' already exists in cluster '' @
                      quoted clusterID)
               else if code = foreign_key_violation
               then Status NotFound (''cluster '' @ quoted clusterID @ '' does not exist'')
               else Status Internal (''failed to register node: '' @ db_err_text err)
           | DriverError msg \<Rightarrow> Status Internal (''failed to register node: '' @ db_err_text err)), t)
      | Inr (nodeID, t') \<Rightarrow> (Inr \<lparr>rs_node = nodeID, rs_interval = 5\<rparr>, t'))"

text \<open>The two forms of the status column's new value.\<close>

definition beat_status :: "bool \<Rightarrow> string \<Rightarrow> string" where
  "beat_status healthy old =
     (if \<not> healthy then ''unhealthy''
      else if old = ''dead'' \<or> old = ''unhealthy'' \<or> old = ''unknown'' then ''healthy'' else old)"

definition beat_row :: "pg_env \<Rightarrow> go_float \<Rightarrow> go_float \<Rightarrow> go_float \<Rightarrow> bool \<Rightarrow> node_row \<Rightarrow> node_row" where
  "beat_row env cpu mem disk healthy r =
     r\<lparr>nr_cpu := Some cpu, nr_mem := Some mem, nr_disk := Some disk, nr_last := Some (pg_now env),
       nr_status := beat_status healthy (nr_status r)\<rparr>"

definition SendHeartbeat ::
  "pg_env \<Rightarrow> string \<Rightarrow> go_float \<Rightarrow> go_float \<Rightarrow> go_float \<Rightarrow> bool \<Rightarrow> tables \<Rightarrow> bool rpc \<times> tables" where
  "SendHeartbeat env nodeID cpu mem disk healthy t =
     (if nodeID = [] then (Inl (Status InvalidArgument ''node_id is required''), t)
      else case round_trip env 0 (Inr ()) of
        Inl e \<Rightarrow> (Inl (Status Internal (''transaction failed: '' @ db_err_text e)), t)
      | Inr _ \<Rightarrow>
        (case round_trip env 1 (insert_heartbeat env nodeID cpu mem disk healthy t) of
           Inl e \<Rightarrow> (Inl (Status Internal (''failed to save heartbeat: '' @ db_err_text e)), t)
         | Inr t1 \<Rightarrow>
           (case round_trip env 2 (update_node env nodeID (beat_row env cpu mem disk healthy) t1) of
              Inl e \<Rightarrow> (Inl (Status Internal (''failed to update node: '' @ db_err_text e)), t)
            | Inr (n, t2) \<Rightarrow>
                if n = 0 then (Inl (Status NotFound (''node '' @ quoted nodeID @ '' not found'')), t)
                else (case round_trip env 3 (Inr ()) of
                        Inl e \<Rightarrow> (Inl (Status Internal (''failed to commit: '' @ db_err_text e)), t)
                      | Inr _ \<Rightarrow> (Inr True, t2)))))"

definition UpdateNodeStatus :: "pg_env \<Rightarrow> string \<Rightarrow> string \<Rightarrow> tables \<Rightarrow> bool rpc \<times> tables" where
  "UpdateNodeStatus env nodeID status t =
     (if nodeID = [] \<or> status = [] then (Inl (Status InvalidArgument ''node_id and status are required''), t)
      else case round_trip env 0 (update_node env nodeID (\<lambda>r. r\<lparr>nr_status := status\<rparr>) t) of
        Inl e \<Rightarrow> (Inl (Status Internal (''failed to update node status: '' @ db_err_text e)), t)
      | Inr (n, t') \<Rightarrow>
          if n = 0 then (Inl (Status NotFound (''node '' @ quoted nodeID @ '' not found'')), t)
          else (Inr True, t'))"

text \<open>The select of \<^verbatim>\<open>GetNodes\<close>: left joins on two primary keys, so one row per node.\<close>

definition region_of :: "tables \<Rightarrow> node_row \<Rightarrow> string" where
  "region_of t n =
     (case find_row ct_id (nr_cluster n) (tb_clusters t) of
        None \<Rightarrow> ''india''
      | Some c \<Rightarrow> (case find_row rg_id (ct_region c) (tb_regions t) of None \<Rightarrow> ''india'' | Some r \<Rightarrow> rg_name r))"

definition coalesce_pct :: "go_float option \<Rightarrow> go_float" where
  "coalesce_pct x = (case x of None \<Rightarrow> Fin 0 | Some v \<Rightarrow> v)"

definition node_message :: "tables \<Rightarrow> node_row \<Rightarrow> node_info" where
  "node_message t n =
     \<lparr>ni_id = nr_id n, ni_cluster = nr_cluster n, ni_hostname = nr_hostname n, ni_status = nr_status n,
      ni_cpu = coalesce_pct (nr_cpu n), ni_mem = coalesce_pct (nr_mem n), ni_disk = coalesce_pct (nr_disk n),
      ni_last_heartbeat = (case nr_last n of None \<Rightarrow> OtherText [] | Some h \<Rightarrow> format_rfc3339 h),
      ni_registered_at = format_rfc3339 (nr_registered n), ni_region = region_of t n\<rparr>"

definition GetNodes ::
  "(node_row list \<Rightarrow> node_row list) \<Rightarrow> pg_env \<Rightarrow> string \<Rightarrow> tables \<Rightarrow> node_info list rpc" where
  "GetNodes rng env clusterID t =
     (case round_trip env 0
        (if clusterID \<noteq> []
         then map_sum id (\<lambda>c. filter (\<lambda>n. nr_cluster n = c) (tb_nodes t)) (as_uuid env clusterID)
         else Inr (tb_nodes t)) of
        Inl e \<Rightarrow> Inl (Status Internal (''query failed: '' @ db_err_text e))
      | Inr rows \<Rightarrow> Inr (map (node_message t) (delivered env 0 (rng rows))))"

section \<open>Databases\<close>

definition CreateDatabaseRecord ::
  "pg_env \<Rightarrow> string \<Rightarrow> string \<Rightarrow> string \<Rightarrow> string \<Rightarrow> int \<Rightarrow> tables \<Rightarrow> string rpc \<times> tables" where
  "CreateDatabaseRecord env name clusterID nodeID status attempts t =
     (if name = [] \<or> clusterID = [] \<or> status = []
      then (Inl (Status InvalidArgument ''name, cluster_id, and status are required''), t)
      else case round_trip env 0 (Inr ()) of
        Inl e \<Rightarrow> (Inl (Status Internal (''transaction failed: '' @ db_err_text e)), t)
      | Inr _ \<Rightarrow>
        (case round_trip env 1 (insert_database env name clusterID nodeID status attempts t) of
           Inl e \<Rightarrow> (Inl (Status Internal (''failed to insert database: '' @ db_err_text e)), t)
         | Inr (dbID, t1) \<Rightarrow>
           (case (if nodeID \<noteq> [] then round_trip env 2 (insert_leader env dbID nodeID t1) else Inr t1) of
              Inl e \<Rightarrow> (Inl (Status Internal (''failed to insert replica: '' @ db_err_text e)), t)
            | Inr t2 \<Rightarrow>
              (case round_trip env 3 (Inr ()) of
                 Inl e \<Rightarrow> (Inl (Status Internal (''failed to commit: '' @ db_err_text e)), t)
               | Inr _ \<Rightarrow> (Inr dbID, t2)))))"

definition UpdateDatabaseStatus ::
  "pg_env \<Rightarrow> string \<Rightarrow> string \<Rightarrow> string \<Rightarrow> string \<Rightarrow> int \<Rightarrow> tables \<Rightarrow> bool rpc \<times> tables" where
  "UpdateDatabaseStatus env dbID status nodeID endpoint attempts t =
     (if dbID = [] \<or> status = []
      then (Inl (Status InvalidArgument ''database_id and status are required''), t)
      else case round_trip env 0 (Inr ()) of
        Inl e \<Rightarrow> (Inl (Status Internal (''transaction failed: '' @ db_err_text e)), t)
      | Inr _ \<Rightarrow>
        (case round_trip env 1 (update_database env dbID status nodeID endpoint attempts t) of
           Inl e \<Rightarrow> (Inl (Status Internal (''failed to update database status: '' @ db_err_text e)), t)
         | Inr (n, t1) \<Rightarrow>
             if n = 0 then (Inl (Status NotFound (''database '' @ quoted dbID @ '' not found'')), t)
             else
             (case (if nodeID \<noteq> [] then map_sum (Pair ''failed to clear replicas: '') id
                        (round_trip env 2 (delete_replicas env dbID t1))
                    else Inr t1) of
                Inl (msg, e) \<Rightarrow> (Inl (Status Internal (msg @ db_err_text e)), t)
              | Inr t2 \<Rightarrow>
                (case (if nodeID \<noteq> [] then round_trip env 3 (insert_leader env dbID nodeID t2) else Inr t2) of
                   Inl e \<Rightarrow> (Inl (Status Internal (''failed to update replica: '' @ db_err_text e)), t)
                 | Inr t3 \<Rightarrow>
                   (case round_trip env 4 (Inr ()) of
                      Inl e \<Rightarrow> (Inl (Status Internal (''failed to commit: '' @ db_err_text e)), t)
                    | Inr _ \<Rightarrow> (Inr True, t3))))))"

text \<open>A row into a message; a null cluster does not scan into a string.\<close>

definition database_message :: "database_row \<Rightarrow> db_error + database_info" where
  "database_message r =
     (case dr_cluster r of
        None \<Rightarrow> Inl (DriverError ''cannot scan NULL into *string'')
      | Some c \<Rightarrow>
          Inr \<lparr>di_id = dr_id r, di_name = dr_name r, di_cluster = c,
               di_node = (case dr_node r of None \<Rightarrow> [] | Some n \<Rightarrow> n), di_status = dr_status r,
               di_endpoint = (case dr_endpoint r of None \<Rightarrow> [] | Some e \<Rightarrow> e), di_attempts = dr_attempts r,
               di_created = format_rfc3339 (dr_created r), di_updated = format_rfc3339 (dr_updated r)\<rparr>)"

definition GetDatabase :: "pg_env \<Rightarrow> string \<Rightarrow> tables \<Rightarrow> database_info rpc" where
  "GetDatabase env dbID t =
     (if dbID = [] then Inl (Status InvalidArgument ''database_id is required'')
      else case round_trip env 0 (map_sum id (\<lambda>d. find_row dr_id d (tb_databases t)) (as_uuid env dbID)) of
        Inl e \<Rightarrow> Inl (Status Internal (''failed to fetch database: '' @ db_err_text e))
      | Inr None \<Rightarrow> Inl (Status NotFound (''database '' @ quoted dbID @ '' not found''))
      | Inr (Some r) \<Rightarrow>
          (case database_message r of
             Inl e \<Rightarrow> Inl (Status Internal (''failed to fetch database: '' @ db_err_text e))
           | Inr m \<Rightarrow> Inr m))"

fun scan_databases :: "database_row list \<Rightarrow> database_info list \<Rightarrow> database_info list rpc" where
  "scan_databases [] acc = Inr acc"
| "scan_databases (r # rs) acc =
     (case database_message r of
        Inl e \<Rightarrow> Inl (Status Internal (''failed to scan databases list: '' @ db_err_text e))
      | Inr m \<Rightarrow> scan_databases rs (acc @ [m]))"

definition ListDatabases ::
  "(database_row list \<Rightarrow> database_row list) \<Rightarrow> pg_env \<Rightarrow> string \<Rightarrow> tables \<Rightarrow> database_info list rpc" where
  "ListDatabases rng env clusterID t =
     (case round_trip env 0
        (if clusterID \<noteq> []
         then map_sum id (\<lambda>c. filter (\<lambda>r. dr_cluster r = Some c) (tb_databases t)) (as_uuid env clusterID)
         else Inr (tb_databases t)) of
        Inl e \<Rightarrow> Inl (Status Internal (''failed to list databases: '' @ db_err_text e))
      | Inr rows \<Rightarrow> scan_databases (delivered env 0 (rng rows)) [])"

definition DeleteDatabaseRecord :: "pg_env \<Rightarrow> string \<Rightarrow> tables \<Rightarrow> bool rpc \<times> tables" where
  "DeleteDatabaseRecord env dbID t =
     (if dbID = [] then (Inl (Status InvalidArgument ''database_id is required''), t)
      else case round_trip env 0 (Inr ()) of
        Inl e \<Rightarrow> (Inl (Status Internal (''transaction failed: '' @ db_err_text e)), t)
      | Inr _ \<Rightarrow>
        (case round_trip env 1 (delete_replicas env dbID t) of
           Inl e \<Rightarrow> (Inl (Status Internal (''failed to delete database replicas: '' @ db_err_text e)), t)
         | Inr t1 \<Rightarrow>
           (case round_trip env 2 (delete_database env dbID t1) of
              Inl e \<Rightarrow> (Inl (Status Internal (''failed to delete database: '' @ db_err_text e)), t)
            | Inr (n, t2) \<Rightarrow>
                if n = 0 then (Inl (Status NotFound (''database '' @ quoted dbID @ '' not found'')), t)
                else (case round_trip env 3 (Inr ()) of
                        Inl e \<Rightarrow> (Inl (Status Internal (''failed to commit: '' @ db_err_text e)), t)
                      | Inr _ \<Rightarrow> (Inr True, t2)))))"

section \<open>The registry's invariant\<close>

text \<open>Primary keys, the unique constraint on host names, and every foreign key.\<close>

definition node_keys_ok :: "tables \<Rightarrow> bool" where
  "node_keys_ok t \<longleftrightarrow>
     distinct (map nr_id (tb_nodes t)) \<and>
     distinct (map (\<lambda>n. (nr_cluster n, nr_hostname n)) (tb_nodes t)) \<and>
     (\<forall>n \<in> set (tb_nodes t). nr_cluster n \<in> ct_id ` set (tb_clusters t)) \<and>
     (\<forall>h \<in> set (tb_heartbeats t). hr_node h \<in> nr_id ` set (tb_nodes t))"

definition database_keys_ok :: "tables \<Rightarrow> bool" where
  "database_keys_ok t \<longleftrightarrow>
     distinct (map dr_id (tb_databases t)) \<and>
     (\<forall>d \<in> set (tb_databases t). dr_cluster d \<in> Some ` ct_id ` set (tb_clusters t)) \<and>
     (\<forall>d \<in> set (tb_databases t). dr_node d \<in> insert None (Some ` nr_id ` set (tb_nodes t))) \<and>
     (\<forall>r \<in> set (tb_replicas t). rr_database r \<in> dr_id ` set (tb_databases t))"

text \<open>
  Replica consistency: the replicas of a database are exactly one leader on the node the
  database names, or none while it names no node.
\<close>

definition expected_replicas :: "database_row \<Rightarrow> replica_row list" where
  "expected_replicas d =
     (case dr_node d of None \<Rightarrow> []
      | Some n \<Rightarrow> [\<lparr>rr_database = dr_id d, rr_node = n, rr_role = ''leader''\<rparr>])"

definition replicas_of :: "tables \<Rightarrow> string \<Rightarrow> replica_row list" where
  "replicas_of t d = filter (\<lambda>r. rr_database r = d) (tb_replicas t)"

definition replicas_ok :: "tables \<Rightarrow> bool" where
  "replicas_ok t \<longleftrightarrow> (\<forall>d \<in> set (tb_databases t). replicas_of t (dr_id d) = expected_replicas d)"

definition registry_ok :: "tables \<Rightarrow> bool" where
  "registry_ok t \<longleftrightarrow> node_keys_ok t \<and> database_keys_ok t \<and> replicas_ok t"

lemmas registry_defs = registry_ok_def node_keys_ok_def database_keys_ok_def replicas_ok_def replicas_of_def

lemma update_node_ok:
  assumes "registry_ok t" and "update_node env i f t = Inr (n, t')"
    and "\<And>r. nr_id (f r) = nr_id r \<and> nr_cluster (f r) = nr_cluster r \<and> nr_hostname (f r) = nr_hostname r"
  shows "registry_ok t'"
proof -
  obtain u where t': "t' = t\<lparr>tb_nodes := update_rows nr_id u f (tb_nodes t)\<rparr>"
    using assms(2) by (auto simp: update_node_def split: sum.splits)
  have m: "map nr_id (update_rows nr_id u f (tb_nodes t)) = map nr_id (tb_nodes t)"
    "map (\<lambda>n. (nr_cluster n, nr_hostname n)) (update_rows nr_id u f (tb_nodes t)) =
       map (\<lambda>n. (nr_cluster n, nr_hostname n)) (tb_nodes t)"
    using assms(3) by (auto simp: update_rows_def)
  from m(1) have ids: "nr_id ` set (update_rows nr_id u f (tb_nodes t)) = nr_id ` set (tb_nodes t)"
    by (metis list.set_map)
  have "\<exists>n' \<in> set (tb_nodes t). nr_cluster n' = nr_cluster n" if "n \<in> set (update_rows nr_id u f (tb_nodes t))" for n
    using that assms(3) by (auto simp: update_rows_def)
  then show ?thesis
    using assms(1) unfolding registry_defs t' by (simp add: m ids) metis
qed

lemma insert_node_ok:
  assumes "registry_ok t" and "insert_node env c h t = Inr (i, t')"
  shows "registry_ok t'"
proof -
  obtain c' where c': "c' \<in> ct_id ` set (tb_clusters t)"
    and new: "\<forall>n \<in> set (tb_nodes t). nr_id n \<noteq> pg_new_id env \<and> (nr_cluster n = c' \<longrightarrow> nr_hostname n \<noteq> h)"
    and t': "t' = t\<lparr>tb_nodes := tb_nodes t @
      [\<lparr>nr_id = pg_new_id env, nr_cluster = c', nr_hostname = h, nr_status = ''healthy'',
        nr_cpu = None, nr_mem = None, nr_disk = None, nr_last = None, nr_registered = pg_now env\<rparr>]\<rparr>"
    using assms(2) by (auto simp: insert_node_def split: sum.splits if_splits)
  from new have "pg_new_id env \<notin> nr_id ` set (tb_nodes t)"
    and "(c', h) \<notin> (\<lambda>n. (nr_cluster n, nr_hostname n)) ` set (tb_nodes t)" by auto
  with assms(1) c' show ?thesis unfolding registry_defs t' by simp blast
qed

lemma insert_heartbeat_ok:
  assumes "registry_ok t" and "insert_heartbeat env i c m d h t = Inr t'"
  shows "registry_ok t'"
proof -
  obtain n where "n \<in> nr_id ` set (tb_nodes t)"
    and t': "t' = t\<lparr>tb_heartbeats := tb_heartbeats t @
      [\<lparr>hr_node = n, hr_cpu = c, hr_mem = m, hr_disk = d, hr_healthy = h, hr_received = pg_now env\<rparr>]\<rparr>"
    using assms(2) by (auto simp: insert_heartbeat_def find_row_None split: sum.splits if_splits)
  with assms(1) show ?thesis unfolding registry_defs t' by simp
qed

section \<open>Errors change nothing; what success does\<close>

lemmas rpc_defs = RegisterNode_def SendHeartbeat_def UpdateNodeStatus_def CreateDatabaseRecord_def
  UpdateDatabaseStatus_def DeleteDatabaseRecord_def

lemma RegisterNode_error: "RegisterNode env c h t = (Inl e, t') \<Longrightarrow> t' = t"
  by (auto simp: RegisterNode_def split: sum.splits if_splits)

lemma SendHeartbeat_error: "SendHeartbeat env i c m d h t = (Inl e, t') \<Longrightarrow> t' = t"
  by (auto simp: SendHeartbeat_def split: sum.splits if_splits)

lemma UpdateNodeStatus_error: "UpdateNodeStatus env i st t = (Inl e, t') \<Longrightarrow> t' = t"
  by (auto simp: UpdateNodeStatus_def split: sum.splits if_splits)

lemma CreateDatabaseRecord_error: "CreateDatabaseRecord env n c i st a t = (Inl e, t') \<Longrightarrow> t' = t"
  by (auto simp: CreateDatabaseRecord_def split: sum.splits if_splits)

lemma UpdateDatabaseStatus_error: "UpdateDatabaseStatus env d st i ep a t = (Inl e, t') \<Longrightarrow> t' = t"
  by (auto simp: UpdateDatabaseStatus_def split: sum.splits if_splits)

lemma DeleteDatabaseRecord_error: "DeleteDatabaseRecord env d t = (Inl e, t') \<Longrightarrow> t' = t"
  by (auto simp: DeleteDatabaseRecord_def split: sum.splits if_splits)

lemma RegisterNode_success:
  "RegisterNode env c h t = (Inr r, t') \<Longrightarrow> insert_node env c h t = Inr (rs_node r, t')"
  by (auto simp: RegisterNode_def round_trip_Inr split: sum.splits if_splits)

lemma beat_row_keys:
  "nr_id (beat_row env c m d h r) = nr_id r \<and> nr_cluster (beat_row env c m d h r) = nr_cluster r \<and>
   nr_hostname (beat_row env c m d h r) = nr_hostname r"
  by (simp add: beat_row_def)

lemma SendHeartbeat_success:
  assumes "SendHeartbeat env i c m d h t = (Inr v, t')"
  obtains t1 n where "insert_heartbeat env i c m d h t = Inr t1" "update_node env i (beat_row env c m d h) t1 = Inr (n, t')" "0 < n"
  using assms by (auto simp: SendHeartbeat_def round_trip_Inr split: sum.splits if_splits)

lemma UpdateNodeStatus_success:
  assumes "UpdateNodeStatus env i st t = (Inr v, t')"
  obtains n where "update_node env i (\<lambda>r. r\<lparr>nr_status := st\<rparr>) t = Inr (n, t')" "0 < n"
  using assms by (auto simp: UpdateNodeStatus_def round_trip_Inr split: sum.splits if_splits)

text \<open>A database row and its leader enter the tables together.\<close>

definition new_database :: "pg_env \<Rightarrow> string \<Rightarrow> string \<Rightarrow> string option \<Rightarrow> string \<Rightarrow> int \<Rightarrow> database_row" where
  "new_database env name c n status attempts =
     \<lparr>dr_id = pg_new_id env, dr_name = name, dr_node = n, dr_created = pg_now env, dr_cluster = Some c,
      dr_status = status, dr_attempts = attempts, dr_endpoint = None, dr_updated = pg_now env\<rparr>"

definition node_ref :: "pg_env \<Rightarrow> string \<Rightarrow> string option" where
  "node_ref env nodeID = (if nodeID = [] then None else pg_uuid env nodeID)"

lemma insert_database_success:
  assumes "insert_database env name c i st att t = Inr (d, t1)"
  obtains c' where "d = pg_new_id env" "pg_uuid env c = Some c'" "c' \<in> ct_id ` set (tb_clusters t)"
    "d \<notin> dr_id ` set (tb_databases t)" "i \<noteq> [] \<longrightarrow> node_ref env i \<noteq> None"
    "node_ref env i \<in> insert None (Some ` nr_id ` set (tb_nodes t))"
    "t1 = t\<lparr>tb_databases := tb_databases t @ [new_database env name c' (node_ref env i) st att]\<rparr>"
  using assms
  by (fastforce simp: insert_database_def as_uuid_def new_database_def node_ref_def find_row_None
      split: if_splits option.splits)

lemma insert_leader_success:
  assumes "insert_leader env d i t = Inr t'"
  obtains d' n where "pg_uuid env d = Some d'" "pg_uuid env i = Some n" "d' \<in> dr_id ` set (tb_databases t)"
    "t' = t\<lparr>tb_replicas := tb_replicas t @ [\<lparr>rr_database = d', rr_node = n, rr_role = ''leader''\<rparr>]\<rparr>"
  using assms by (auto simp: insert_leader_def as_uuid_def find_row_None split: if_splits option.splits)

lemma CreateDatabaseRecord_steps:
  assumes "CreateDatabaseRecord env name c i st att t = (Inr d, t')"
  obtains t1 where "insert_database env name c i st att t = Inr (d, t1)"
    "if i = [] then t' = t1 else insert_leader env d i t1 = Inr t'"
  using assms by (auto simp: CreateDatabaseRecord_def round_trip_Inr split: sum.splits if_splits)

lemma CreateDatabaseRecord_success:
  assumes "CreateDatabaseRecord env name c i st att t = (Inr d, t')"
    and uuid: "pg_uuid env (pg_new_id env) = Some (pg_new_id env)"
  obtains c' where "d = pg_new_id env" "pg_uuid env c = Some c'" "c' \<in> ct_id ` set (tb_clusters t)"
    "d \<notin> dr_id ` set (tb_databases t)"
    "node_ref env i \<in> insert None (Some ` nr_id ` set (tb_nodes t))"
    "t' = t\<lparr>tb_databases := tb_databases t @ [new_database env name c' (node_ref env i) st att],
            tb_replicas := tb_replicas t @ expected_replicas (new_database env name c' (node_ref env i) st att)\<rparr>"
proof -
  obtain t1 where ins: "insert_database env name c i st att t = Inr (d, t1)"
    and lead: "if i = [] then t' = t1 else insert_leader env d i t1 = Inr t'"
    using assms(1) by (rule CreateDatabaseRecord_steps)
  obtain c' where c': "d = pg_new_id env" "pg_uuid env c = Some c'" "c' \<in> ct_id ` set (tb_clusters t)"
    "d \<notin> dr_id ` set (tb_databases t)"
    "node_ref env i \<in> insert None (Some ` nr_id ` set (tb_nodes t))"
    and t1: "t1 = t\<lparr>tb_databases := tb_databases t @ [new_database env name c' (node_ref env i) st att]\<rparr>"
    using ins by (rule insert_database_success)
  have "t' = t1\<lparr>tb_replicas := tb_replicas t @ expected_replicas (new_database env name c' (node_ref env i) st att)\<rparr>"
  proof (cases "i = []")
    case True
    with lead show ?thesis by (simp add: t1 expected_replicas_def new_database_def node_ref_def)
  next
    case False
    with lead have "insert_leader env d i t1 = Inr t'" by simp
    then show ?thesis
      by (rule insert_leader_success)
        (use False uuid c'(1) in \<open>simp add: t1 expected_replicas_def new_database_def node_ref_def\<close>)
  qed
  with c' show thesis by (intro that [of c']) (simp_all add: t1)
qed

text \<open>An update rewrites one row, and its leader when it names a node.\<close>

definition updated_database :: "pg_env \<Rightarrow> string \<Rightarrow> string option \<Rightarrow> string \<Rightarrow> int \<Rightarrow> database_row \<Rightarrow> database_row" where
  "updated_database env status n endpoint attempts r =
     r\<lparr>dr_status := status, dr_node := (case n of None \<Rightarrow> dr_node r | Some n \<Rightarrow> Some n),
       dr_endpoint := Some endpoint, dr_attempts := attempts, dr_updated := pg_now env\<rparr>"

lemma update_database_success:
  assumes "update_database env d st i ep att t = Inr (k, t1)" and "0 < k"
  obtains d' where "pg_uuid env d = Some d'" "find_row dr_id d' (tb_databases t) \<noteq> None"
    "i \<noteq> [] \<longrightarrow> node_ref env i \<noteq> None"
    "node_ref env i \<in> insert None (Some ` nr_id ` set (tb_nodes t))"
    "t1 = t\<lparr>tb_databases := update_rows dr_id d' (updated_database env st (node_ref env i) ep att) (tb_databases t)\<rparr>"
proof -
  obtain d' where d': "pg_uuid env d = Some d'" using assms(1)
    by (auto simp: update_database_def as_uuid_def split: option.splits)
  then have du: "as_uuid env d = Inr d'" by (simp add: as_uuid_def)
  have ref: "(if i = [] then Inr None else map_sum id Some (as_uuid env i)) = (Inr (node_ref env i) :: db_error + string option)"
    "i \<noteq> [] \<Longrightarrow> node_ref env i \<noteq> None"
    using assms(1) by (auto simp: update_database_def as_uuid_def node_ref_def d' du split: if_splits option.splits)
  have upd: "update_database env d st i ep att t =
      (if rows_affected dr_id d' (tb_databases t) > 0 \<and>
          (case node_ref env i of None \<Rightarrow> False | Some n \<Rightarrow> find_row nr_id n (tb_nodes t) = None)
       then Inl (PgError foreign_key_violation ''update on table databases violates foreign key constraint'')
       else Inr (rows_affected dr_id d' (tb_databases t),
             t\<lparr>tb_databases := update_rows dr_id d' (updated_database env st (node_ref env i) ep att) (tb_databases t)\<rparr>))"
    unfolding update_database_def ref(1) du sum.case updated_database_def ..
  have "find_row dr_id d' (tb_databases t) \<noteq> None"
    using assms by (auto simp: upd rows_affected_pos split: if_splits)
  moreover have "node_ref env i \<in> insert None (Some ` nr_id ` set (tb_nodes t))"
    using assms calculation by (cases "node_ref env i") (auto simp: upd rows_affected_pos find_row_None split: if_splits)
  ultimately show thesis
    using assms(1) ref(2) d' that [of d'] by (auto simp: upd split: if_splits)
qed

lemma UpdateDatabaseStatus_steps:
  assumes "UpdateDatabaseStatus env d st i ep att t = (Inr v, t')"
  obtains k t1 where "update_database env d st i ep att t = Inr (k, t1)" "0 < k"
    "if i = [] then t' = t1 else \<exists>t2. delete_replicas env d t1 = Inr t2 \<and> insert_leader env d i t2 = Inr t'"
  using assms
  by (auto simp: UpdateDatabaseStatus_def round_trip_Inr map_sum_Inr_iff split: sum.splits if_splits)

lemma delete_replicas_success:
  "delete_replicas env d t = Inr t' \<Longrightarrow> pg_uuid env d = Some d' \<Longrightarrow>
     t' = t\<lparr>tb_replicas := filter (\<lambda>r. rr_database r \<noteq> d') (tb_replicas t)\<rparr>"
  by (simp add: delete_replicas_def as_uuid_def)

lemma UpdateDatabaseStatus_success:
  assumes "UpdateDatabaseStatus env d st i ep att t = (Inr v, t')"
  obtains d' where "pg_uuid env d = Some d'" "find_row dr_id d' (tb_databases t) \<noteq> None"
    "node_ref env i \<in> insert None (Some ` nr_id ` set (tb_nodes t))"
    "t' = t\<lparr>tb_databases := update_rows dr_id d' (updated_database env st (node_ref env i) ep att) (tb_databases t),
            tb_replicas := (case node_ref env i of None \<Rightarrow> tb_replicas t
              | Some n \<Rightarrow> filter (\<lambda>r. rr_database r \<noteq> d') (tb_replicas t) @
                  [\<lparr>rr_database = d', rr_node = n, rr_role = ''leader''\<rparr>])\<rparr>"
proof -
  obtain k t1 where upd: "update_database env d st i ep att t = Inr (k, t1)" and k: "0 < k"
    and rest: "if i = [] then t' = t1 else \<exists>t2. delete_replicas env d t1 = Inr t2 \<and> insert_leader env d i t2 = Inr t'"
    using assms by (rule UpdateDatabaseStatus_steps)
  obtain d' where d': "pg_uuid env d = Some d'" "find_row dr_id d' (tb_databases t) \<noteq> None"
      "node_ref env i \<in> insert None (Some ` nr_id ` set (tb_nodes t))"
    and ref: "i \<noteq> [] \<longrightarrow> node_ref env i \<noteq> None"
    and t1: "t1 = t\<lparr>tb_databases := update_rows dr_id d' (updated_database env st (node_ref env i) ep att) (tb_databases t)\<rparr>"
    using upd k by (rule update_database_success)
  show thesis
  proof (cases "i = []")
    case True
    with rest t1 d' show thesis by (intro that [OF d']) (simp add: node_ref_def)
  next
    case False
    with rest obtain t2 where t2: "delete_replicas env d t1 = Inr t2" and t': "insert_leader env d i t2 = Inr t'" by auto
    from t' obtain n where "pg_uuid env i = Some n"
      and "t' = t2\<lparr>tb_replicas := tb_replicas t2 @ [\<lparr>rr_database = d', rr_node = n, rr_role = ''leader''\<rparr>]\<rparr>"
      by (rule insert_leader_success) (simp add: d')
    with delete_replicas_success [OF t2 d'(1)] False show thesis
      by (intro that [OF d']) (simp add: t1 node_ref_def)
  qed
qed

lemma UpdateDatabaseStatus_frame:
  assumes "UpdateDatabaseStatus env d st i ep att t = (Inr v, t')"
  shows "tb_nodes t' = tb_nodes t \<and> dr_id ` set (tb_databases t') = dr_id ` set (tb_databases t)"
proof -
  obtain d' where "pg_uuid env d = Some d'" "find_row dr_id d' (tb_databases t) \<noteq> None"
      "node_ref env i \<in> insert None (Some ` nr_id ` set (tb_nodes t))"
    and t': "t' = t\<lparr>tb_databases := update_rows dr_id d' (updated_database env st (node_ref env i) ep att) (tb_databases t),
            tb_replicas := (case node_ref env i of None \<Rightarrow> tb_replicas t
              | Some n \<Rightarrow> filter (\<lambda>r. rr_database r \<noteq> d') (tb_replicas t) @
                  [\<lparr>rr_database = d', rr_node = n, rr_role = ''leader''\<rparr>])\<rparr>"
    using assms by (rule UpdateDatabaseStatus_success)
  have "map dr_id (tb_databases t') = map dr_id (tb_databases t)" by (simp add: t' updated_database_def)
  then have "dr_id ` set (tb_databases t') = dr_id ` set (tb_databases t)" by (metis list.set_map)
  then show ?thesis by (simp add: t')
qed

lemma UpdateDatabaseStatus_total:
  assumes "pg_fail env = (\<lambda>_. None)" and "pg_uuid env d = Some d'" and "d \<noteq> []" and "st \<noteq> []"
    and "d' \<in> dr_id ` set (tb_databases t)"
    and "i = [] \<or> (\<exists>n. pg_uuid env i = Some n \<and> n \<in> nr_id ` set (tb_nodes t))"
  shows "\<exists>t'. UpdateDatabaseStatus env d st i ep att t = (Inr True, t')"
proof -
  have row: "find_row dr_id d' (tb_databases t) \<noteq> None" using assms(5) by (simp add: find_row_None)
  then have aff: "rows_affected dr_id d' (tb_databases t) \<noteq> 0"
    using rows_affected_pos [of dr_id d' "tb_databases t"] by simp
  have node: "find_row nr_id n (tb_nodes t) \<noteq> None" if "n \<in> nr_id ` set (tb_nodes t)" for n
    using that by (simp add: find_row_None)
  show ?thesis
  proof (cases "i = []")
    case True
    then show ?thesis
      using assms(2-4) aff by (simp add: UpdateDatabaseStatus_def round_trip_def assms(1) update_database_def as_uuid_def)
  next
    case False
    with assms(6) obtain n where "pg_uuid env i = Some n" "find_row nr_id n (tb_nodes t) \<noteq> None" using node by auto
    with False show ?thesis
      using assms(2-4) aff row
      by (simp add: UpdateDatabaseStatus_def round_trip_def assms(1) update_database_def as_uuid_def
          delete_replicas_def insert_leader_def find_update_rows)
  qed
qed

lemma DeleteDatabaseRecord_success:
  assumes "DeleteDatabaseRecord env d t = (Inr v, t')"
  obtains d' where "pg_uuid env d = Some d'" "find_row dr_id d' (tb_databases t) \<noteq> None"
    "t' = t\<lparr>tb_databases := filter (\<lambda>r. dr_id r \<noteq> d') (tb_databases t),
            tb_replicas := filter (\<lambda>r. rr_database r \<noteq> d') (tb_replicas t)\<rparr>"
proof -
  obtain t1 k where t1: "delete_replicas env d t = Inr t1" and k: "delete_database env d t1 = Inr (k, t')" "0 < k"
    using assms by (auto simp: DeleteDatabaseRecord_def round_trip_Inr split: sum.splits if_splits)
  obtain d' where d': "pg_uuid env d = Some d'"
    using t1 by (auto simp: delete_replicas_def as_uuid_def split: option.splits)
  have t1': "t1 = t\<lparr>tb_replicas := filter (\<lambda>r. rr_database r \<noteq> d') (tb_replicas t)\<rparr>"
    by (rule delete_replicas_success [OF t1 d'])
  have "0 < rows_affected dr_id d' (tb_databases t)"
    and "t' = t1\<lparr>tb_databases := filter (\<lambda>r. dr_id r \<noteq> d') (tb_databases t)\<rparr>"
    using k unfolding delete_database_def as_uuid_def d' t1' by (auto split: if_splits)
  then show thesis by (intro that [OF d' rows_affected_pos [THEN iffD1]]) (simp_all add: t1')
qed

lemma DeleteDatabaseRecord_total:
  assumes "pg_fail env = (\<lambda>_. None)" and "pg_uuid env d = Some d'" and "d \<noteq> []"
    and "d' \<in> dr_id ` set (tb_databases t)"
  shows "\<exists>t'. DeleteDatabaseRecord env d t = (Inr True, t')"
proof -
  have "rows_affected dr_id d' (tb_databases t) \<noteq> 0"
    using assms(4) rows_affected_pos [of dr_id d' "tb_databases t"] by (simp add: find_row_None)
  then show ?thesis
    using assms(1-3)
    by (simp add: DeleteDatabaseRecord_def round_trip_def delete_replicas_def delete_database_def as_uuid_def)
qed

section \<open>The invariant is kept by every operation\<close>

text \<open>A replica list filtered for another database.\<close>

lemma replicas_other: "d \<noteq> d' \<Longrightarrow>
  filter (\<lambda>r. rr_database r \<noteq> d' \<and> rr_database r = d) rs = filter (\<lambda>r. rr_database r = d) rs"
  by (rule filter_cong) auto

lemma CreateDatabaseRecord_ok:
  assumes ok: "registry_ok t" and uuid: "pg_uuid env (pg_new_id env) = Some (pg_new_id env)"
    and cr: "CreateDatabaseRecord env name c i st att t = (r, t')"
  shows "registry_ok t'"
proof (cases r)
  case (Inl e)
  with cr ok show ?thesis using CreateDatabaseRecord_error by blast
next
  case (Inr d)
  then obtain c' where c': "c' \<in> ct_id ` set (tb_clusters t)" and new: "pg_new_id env \<notin> dr_id ` set (tb_databases t)"
    and ref: "node_ref env i \<in> insert None (Some ` nr_id ` set (tb_nodes t))"
    and t': "t' = t\<lparr>tb_databases := tb_databases t @ [new_database env name c' (node_ref env i) st att],
            tb_replicas := tb_replicas t @ expected_replicas (new_database env name c' (node_ref env i) st att)\<rparr>"
    using cr uuid by (blast elim: CreateDatabaseRecord_success)
  have "filter (\<lambda>r. rr_database r = pg_new_id env) (tb_replicas t) = []"
    using ok new unfolding registry_defs filter_empty_conv by metis
  with ok c' new ref show ?thesis
    unfolding registry_defs t'
    by (auto simp: new_database_def expected_replicas_def split: option.splits)
qed

lemma UpdateDatabaseStatus_ok:
  assumes ok: "registry_ok t" and up: "UpdateDatabaseStatus env d st i ep att t = (r, t')"
  shows "registry_ok t'"
proof (cases r)
  case (Inl e)
  with up ok show ?thesis using UpdateDatabaseStatus_error by blast
next
  case (Inr v)
  then obtain d' where d': "find_row dr_id d' (tb_databases t) \<noteq> None"
    and ref: "node_ref env i \<in> insert None (Some ` nr_id ` set (tb_nodes t))"
    and t': "t' = t\<lparr>tb_databases := update_rows dr_id d' (updated_database env st (node_ref env i) ep att) (tb_databases t),
            tb_replicas := (case node_ref env i of None \<Rightarrow> tb_replicas t
              | Some n \<Rightarrow> filter (\<lambda>r. rr_database r \<noteq> d') (tb_replicas t) @
                  [\<lparr>rr_database = d', rr_node = n, rr_role = ''leader''\<rparr>])\<rparr>"
    using up by (blast elim: UpdateDatabaseStatus_success)
  let ?dbs = "update_rows dr_id d' (updated_database env st (node_ref env i) ep att) (tb_databases t)"
  have m: "map dr_id ?dbs = map dr_id (tb_databases t)"
    by (rule update_rows_keys) (simp add: updated_database_def)
  then have ids: "dr_id ` set ?dbs = dr_id ` set (tb_databases t)" by (metis list.set_map)
  have cl: "\<forall>x \<in> set ?dbs. dr_cluster x \<in> Some ` ct_id ` set (tb_clusters t)"
    using ok unfolding registry_defs by (auto simp: set_update_rows updated_database_def)
  have nd: "\<forall>x \<in> set ?dbs. dr_node x \<in> insert None (Some ` nr_id ` set (tb_nodes t))"
    using ok ref unfolding registry_defs by (auto simp: set_update_rows updated_database_def split: option.splits)
  have db: "\<forall>r \<in> set (tb_replicas t'). rr_database r \<in> dr_id ` set ?dbs"
    using ok d' unfolding registry_defs ids t' find_row_None by (auto split: option.splits)
  have rep: "replicas_of t' (dr_id x) = expected_replicas x" if mem: "x \<in> set ?dbs" for x
  proof -
    obtain y where y: "y \<in> set (tb_databases t)"
      and x: "x = (if dr_id y = d' then updated_database env st (node_ref env i) ep att y else y)"
      using mem unfolding set_update_rows by blast
    have "replicas_of t (dr_id y) = expected_replicas y" using ok y unfolding registry_defs by blast
    then show ?thesis
      by (auto simp: x t' replicas_of_def replicas_other expected_replicas_def updated_database_def split: option.splits)
  qed
  show ?thesis
    using ok cl nd db rep unfolding registry_ok_def node_keys_ok_def database_keys_ok_def replicas_ok_def
    by (simp add: t' m)
qed

lemma DeleteDatabaseRecord_ok:
  assumes ok: "registry_ok t" and de: "DeleteDatabaseRecord env d t = (r, t')"
  shows "registry_ok t'"
proof (cases r)
  case (Inl e)
  with de ok show ?thesis using DeleteDatabaseRecord_error by blast
next
  case (Inr v)
  then obtain d' where t': "t' = t\<lparr>tb_databases := filter (\<lambda>r. dr_id r \<noteq> d') (tb_databases t),
            tb_replicas := filter (\<lambda>r. rr_database r \<noteq> d') (tb_replicas t)\<rparr>"
    using de by (blast elim: DeleteDatabaseRecord_success)
  have "\<forall>r \<in> set (tb_replicas t). rr_database r \<noteq> d' \<longrightarrow>
      rr_database r \<in> dr_id ` set (filter (\<lambda>r. dr_id r \<noteq> d') (tb_databases t))"
    using ok unfolding registry_defs by fastforce
  with ok show ?thesis
    unfolding registry_defs t' by (auto simp: distinct_map_filter replicas_other)
qed

lemma RegisterNode_ok: "registry_ok t \<Longrightarrow> RegisterNode env c h t = (r, t') \<Longrightarrow> registry_ok t'"
  by (cases r) (auto dest: RegisterNode_error RegisterNode_success insert_node_ok)

lemma SendHeartbeat_ok:
  assumes "registry_ok t" and sh: "SendHeartbeat env i c m d h t = (r, t')" shows "registry_ok t'"
proof (cases r)
  case (Inr v)
  obtain t1 n where hb: "insert_heartbeat env i c m d h t = Inr t1" and un: "update_node env i (beat_row env c m d h) t1 = Inr (n, t')"
    using SendHeartbeat_success [OF sh [unfolded Inr]] by metis
  show ?thesis by (rule update_node_ok [OF insert_heartbeat_ok [OF assms(1) hb] un beat_row_keys])
qed (use assms SendHeartbeat_error in blast)

lemma UpdateNodeStatus_ok:
  assumes "registry_ok t" and us: "UpdateNodeStatus env i st t = (r, t')" shows "registry_ok t'"
proof (cases r)
  case (Inr v)
  then obtain n where "update_node env i (\<lambda>r. r\<lparr>nr_status := st\<rparr>) t = Inr (n, t')"
    using us by (blast elim: UpdateNodeStatus_success)
  with assms(1) show ?thesis by (rule update_node_ok) simp
qed (use assms UpdateNodeStatus_error in blast)

section \<open>Requests as data\<close>

datatype meta_request =
    ReqRegisterNode string string
  | ReqSendHeartbeat string go_float go_float go_float bool
  | ReqUpdateNodeStatus string string
  | ReqCreateDatabase string string string string int
  | ReqUpdateDatabase string string string string int
  | ReqDeleteDatabase string

definition serve :: "('a rpc \<times> tables) \<Rightarrow> unit rpc \<times> tables" where
  "serve r = (map_sum id (\<lambda>_. ()) (fst r), snd r)"

fun meta_serve :: "pg_env \<Rightarrow> meta_request \<Rightarrow> tables \<Rightarrow> unit rpc \<times> tables" where
  "meta_serve env (ReqRegisterNode c h) t = serve (RegisterNode env c h t)"
| "meta_serve env (ReqSendHeartbeat i c m d h) t = serve (SendHeartbeat env i c m d h t)"
| "meta_serve env (ReqUpdateNodeStatus i st) t = serve (UpdateNodeStatus env i st t)"
| "meta_serve env (ReqCreateDatabase n c i st a) t = serve (CreateDatabaseRecord env n c i st a t)"
| "meta_serve env (ReqUpdateDatabase d st i ep a) t = serve (UpdateDatabaseStatus env d st i ep a t)"
| "meta_serve env (ReqDeleteDatabase d) t = serve (DeleteDatabaseRecord env d t)"

lemma serve_Inl: "serve r = (Inl e, t) \<longleftrightarrow> r = (Inl e, t)"
  by (cases r; cases "fst r") (auto simp: serve_def)

lemma meta_serve_ok:
  assumes "registry_ok t" and "pg_uuid env (pg_new_id env) = Some (pg_new_id env)"
  shows "registry_ok (snd (meta_serve env req t))"
  using assms
  by (cases req)
    (simp_all add: serve_def, metis RegisterNode_ok prod.collapse, metis SendHeartbeat_ok prod.collapse,
      metis UpdateNodeStatus_ok prod.collapse, metis CreateDatabaseRecord_ok prod.collapse,
      metis UpdateDatabaseStatus_ok prod.collapse, metis DeleteDatabaseRecord_ok prod.collapse)


text \<open>
  C20. Create, then read: a created database reads back with its name, its cluster and node
  in canonical form, its status, attempts and time stamps, an empty endpoint, and exactly one
  replica, the leader on its node, or none when it was created without a node.
\<close>

theorem CreateDatabaseRecord_GetDatabase:
  assumes "registry_ok t" and "CreateDatabaseRecord env name c i st att t = (Inr d, t')"
    and "pg_uuid env (pg_new_id env) = Some (pg_new_id env)"
    and "pg_fail env' 0 = None" and "pg_uuid env' d = Some d" and "d \<noteq> []"
  shows "\<exists>c'. pg_uuid env c = Some c' \<and>
    GetDatabase env' d t' = Inr \<lparr>di_id = d, di_name = name, di_cluster = c',
       di_node = (case node_ref env i of None \<Rightarrow> [] | Some n \<Rightarrow> n), di_status = st, di_endpoint = [],
       di_attempts = att, di_created = format_rfc3339 (pg_now env), di_updated = format_rfc3339 (pg_now env)\<rparr> \<and>
    replicas_of t' d = (case node_ref env i of None \<Rightarrow> []
      | Some n \<Rightarrow> [\<lparr>rr_database = d, rr_node = n, rr_role = ''leader''\<rparr>])"
proof -
  obtain c' where d: "d = pg_new_id env" and c': "pg_uuid env c = Some c'"
    and new: "d \<notin> dr_id ` set (tb_databases t)"
    and t': "t' = t\<lparr>tb_databases := tb_databases t @ [new_database env name c' (node_ref env i) st att],
            tb_replicas := tb_replicas t @ expected_replicas (new_database env name c' (node_ref env i) st att)\<rparr>"
    using assms(2,3) by (rule CreateDatabaseRecord_success)
  have none: "filter (\<lambda>r. rr_database r = d) (tb_replicas t) = []"
    using assms(1) new unfolding registry_defs filter_empty_conv by metis
  have "find_row dr_id d (tb_databases t') = Some (new_database env name c' (node_ref env i) st att)"
    using new by (auto simp: t' find_row_append find_row_Cons find_row_None [THEN iffD2] new_database_def d)
  with assms(4-6) have "GetDatabase env' d t' = Inr \<lparr>di_id = d, di_name = name, di_cluster = c',
       di_node = (case node_ref env i of None \<Rightarrow> [] | Some n \<Rightarrow> n), di_status = st, di_endpoint = [],
       di_attempts = att, di_created = format_rfc3339 (pg_now env), di_updated = format_rfc3339 (pg_now env)\<rparr>"
    by (simp add: GetDatabase_def round_trip_def as_uuid_def database_message_def new_database_def d)
  moreover have "replicas_of t' d = (case node_ref env i of None \<Rightarrow> []
      | Some n \<Rightarrow> [\<lparr>rr_database = d, rr_node = n, rr_role = ''leader''\<rparr>])"
    by (simp add: replicas_of_def t' none [unfolded d] expected_replicas_def new_database_def d split: option.splits)
  ultimately show ?thesis using c' by blast
qed

text \<open>
  Delete, then read: after a deletion succeeded the database is not found, it has no
  replicas, and every other database and its replicas are as before.
\<close>

theorem DeleteDatabaseRecord_GetDatabase:
  assumes "DeleteDatabaseRecord env d t = (Inr v, t')" and "pg_fail env' 0 = None"
    and "pg_uuid env' = pg_uuid env"
  shows "GetDatabase env' d t' = Inl (Status NotFound (''database '' @ quoted d @ '' not found'')) \<and>
    (\<exists>d'. pg_uuid env d = Some d' \<and> replicas_of t' d' = [] \<and>
       (\<forall>x. x \<noteq> d' \<longrightarrow> find_row dr_id x (tb_databases t') = find_row dr_id x (tb_databases t) \<and>
          replicas_of t' x = replicas_of t x))"
proof -
  obtain d' where d': "pg_uuid env d = Some d'"
    and t': "t' = t\<lparr>tb_databases := filter (\<lambda>r. dr_id r \<noteq> d') (tb_databases t),
            tb_replicas := filter (\<lambda>r. rr_database r \<noteq> d') (tb_replicas t)\<rparr>"
    using assms(1) by (rule DeleteDatabaseRecord_success)
  have "d \<noteq> []" using assms(1) by (auto simp: DeleteDatabaseRecord_def)
  then have "GetDatabase env' d t' = Inl (Status NotFound (''database '' @ quoted d @ '' not found''))"
    using assms(2,3) d' by (simp add: GetDatabase_def round_trip_def as_uuid_def t' find_filter_rows)
  then show ?thesis
    using d' by (auto simp: replicas_of_def t' find_filter_rows replicas_other)
qed

text \<open>
  Heartbeats of unknown nodes: \<^verbatim>\<open>SendHeartbeat\<close> never answers
  \<^verbatim>\<open>NotFound\<close>. The foreign key of the heartbeat row fails first, so a node
  the registry does not have is answered with an internal error and the branch for zero
  updated rows cannot be reached.
\<close>

theorem SendHeartbeat_never_NotFound:
  "(case fst (SendHeartbeat env i c m d h t) of Inl e \<Rightarrow> code_of e \<noteq> NotFound | Inr _ \<Rightarrow> True) \<and>
   (find_row nr_id n (tb_nodes t) = None \<and> pg_uuid env i = Some n \<and> i \<noteq> [] \<and> pg_fail env 0 = None \<and>
      pg_fail env 1 = None \<longrightarrow>
    (\<exists>msg. SendHeartbeat env i c m d h t = (Inl (Status Internal msg), t)))"
proof -
  have "0 < k" if "insert_heartbeat env i c m d h t = Inr t1" "update_node env i f t1 = Inr (k, t2)" for t1 t2 f k
    using that by (auto simp: insert_heartbeat_def update_node_def rows_affected_pos split: sum.splits if_splits)
  then have "code_of e \<noteq> NotFound" if "fst (SendHeartbeat env i c m d h t) = Inl e" for e
    using that by (fastforce simp: SendHeartbeat_def round_trip_Inr split: sum.splits if_splits)
  then show ?thesis
    by (auto simp: SendHeartbeat_def round_trip_def insert_heartbeat_def as_uuid_def split: sum.splits)
qed

text \<open>
  A broken result is a short answer: when the connection breaks while the rows are read,
  \<^verbatim>\<open>GetNodes\<close> succeeds with the rows it has, since \<^verbatim>\<open>rows.Err\<close>
  is never consulted; only a complete result lists every node.
\<close>

theorem GetNodes_truncated:
  assumes "pg_fail env 0 = None" and "pg_rows env 0 = Some k"
  shows "GetNodes rng env [] t = Inr (map (node_message t) (take k (rng (tb_nodes t))))"
  using assms by (simp add: GetNodes_def round_trip_def delivered_def)

section \<open>A concrete registry\<close>

definition demo_pg :: "string \<Rightarrow> int \<Rightarrow> pg_env" where
  "demo_pg new now = \<lparr>pg_uuid = (\<lambda>s. if s = [] then None else Some (to_lower s)), pg_now = now,
     pg_new_id = new, pg_fail = (\<lambda>_. None), pg_rows = (\<lambda>_. None)\<rparr>"

definition demo_row :: "string \<Rightarrow> string \<Rightarrow> node_row" where
  "demo_row i st = \<lparr>nr_id = i, nr_cluster = ''c1'', nr_hostname = ''h-'' @ i, nr_status = st,
     nr_cpu = Some (Fin 20), nr_mem = Some (Fin 30), nr_disk = Some (Fin 40), nr_last = Some 0, nr_registered = 0\<rparr>"

definition demo_tables :: tables where
  "demo_tables = \<lparr>tb_regions = [\<lparr>rg_id = ''r1'', rg_name = ''japan''\<rparr>],
     tb_clusters = [\<lparr>ct_id = ''c1'', ct_name = ''cluster-japan'', ct_region = ''r1''\<rparr>],
     tb_nodes = [demo_row ''n1'' ''healthy'', demo_row ''n2'' ''draining''],
     tb_heartbeats = [], tb_databases = [], tb_replicas = []\<rparr>"

lemma demo_tables_ok: "registry_ok demo_tables"
  by code_simp

definition demo_created :: tables where
  "demo_created = snd (CreateDatabaseRecord (demo_pg ''d1'' 7) ''orders'' ''C1'' ''N1'' ''provisioning'' 1 demo_tables)"

lemma demo_created: "CreateDatabaseRecord (demo_pg ''d1'' 7) ''orders'' ''C1'' ''N1'' ''provisioning'' 1 demo_tables =
    (Inr ''d1'', demo_created)"
proof -
  have "fst (CreateDatabaseRecord (demo_pg ''d1'' 7) ''orders'' ''C1'' ''N1'' ''provisioning'' 1 demo_tables) = Inr ''d1''"
    by code_simp
  then show ?thesis unfolding demo_created_def by (metis prod.collapse)
qed

theorem CreateDatabaseRecord_GetDatabase_witness:
  "\<exists>c'. pg_uuid (demo_pg ''d1'' 7) ''C1'' = Some c' \<and>
    GetDatabase (demo_pg ''x'' 9) ''d1'' demo_created = Inr \<lparr>di_id = ''d1'', di_name = ''orders'', di_cluster = c',
       di_node = (case node_ref (demo_pg ''d1'' 7) ''N1'' of None \<Rightarrow> [] | Some n \<Rightarrow> n), di_status = ''provisioning'',
       di_endpoint = [], di_attempts = 1, di_created = format_rfc3339 (pg_now (demo_pg ''d1'' 7)),
       di_updated = format_rfc3339 (pg_now (demo_pg ''d1'' 7))\<rparr> \<and>
    replicas_of demo_created ''d1'' = (case node_ref (demo_pg ''d1'' 7) ''N1'' of None \<Rightarrow> []
      | Some n \<Rightarrow> [\<lparr>rr_database = ''d1'', rr_node = n, rr_role = ''leader''\<rparr>])"
  by (rule CreateDatabaseRecord_GetDatabase [OF demo_tables_ok demo_created]) code_simp+

definition demo_deleted :: tables where
  "demo_deleted = snd (DeleteDatabaseRecord (demo_pg ''x'' 9) ''D1'' demo_created)"

theorem DeleteDatabaseRecord_GetDatabase_witness:
  "GetDatabase (demo_pg ''y'' 10) ''D1'' demo_deleted = Inl (Status NotFound (''database '' @ quoted ''D1'' @ '' not found''))"
proof -
  have "fst (DeleteDatabaseRecord (demo_pg ''x'' 9) ''D1'' demo_created) = Inr True" by code_simp
  then have "DeleteDatabaseRecord (demo_pg ''x'' 9) ''D1'' demo_created = (Inr True, demo_deleted)"
    unfolding demo_deleted_def by (metis prod.collapse)
  then show ?thesis
    by (rule conjunct1 [OF DeleteDatabaseRecord_GetDatabase]) (simp_all add: demo_pg_def)
qed

theorem SendHeartbeat_never_NotFound_witness:
  "\<exists>msg. SendHeartbeat (demo_pg ''x'' 9) ''n9'' (Fin 1) (Fin 1) (Fin 1) True demo_tables = (Inl (Status Internal msg), demo_tables)"
  by (rule conjunct2 [OF SendHeartbeat_never_NotFound [where n = "''n9''"], THEN mp]) code_simp

definition demo_cut :: pg_env where
  "demo_cut = (demo_pg ''x'' 9)\<lparr>pg_rows := (\<lambda>_. Some 1)\<rparr>"

theorem GetNodes_truncated_witness:
  "GetNodes (go_range 0) demo_cut [] demo_tables =
     Inr (map (node_message demo_tables) (take 1 (go_range 0 (tb_nodes demo_tables))))"
  by (rule GetNodes_truncated) (simp_all add: demo_cut_def demo_pg_def)

end
