(* ===== verification/Simulation.thy ===== *)
theory Simulation
  imports Prelude
begin

text \<open>
  Components as machines that answer requests, their runs, and the contract under which one
  implements an abstract specification of its state.
\<close>

fun runs :: "('q \<Rightarrow> 'c \<Rightarrow> 'r \<times> 'c) \<Rightarrow> 'q list \<Rightarrow> 'c \<Rightarrow> 'r list \<times> 'c" where
  "runs conc [] c = ([], c)"
| "runs conc (q # qs) c = (let (r, c1) = conc q c; (rs, c2) = runs conc qs c1 in (r # rs, c2))"

lemma runs_Cons:
  "runs conc (q # qs) c =
     (fst (conc q c) # fst (runs conc qs (snd (conc q c))), snd (runs conc qs (snd (conc q c))))"
  by (simp add: case_prod_beta)

declare runs.simps(2) [simp del]

lemma length_runs [simp]: "length (fst (runs conc qs c)) = length qs"
  by (induction qs arbitrary: c) (simp_all add: runs_Cons)

text \<open>An answer is what the machine says in the state the earlier requests left.\<close>

lemma nth_runs:
  "i < length qs \<Longrightarrow> fst (runs conc qs c) ! i = fst (conc (qs ! i) (snd (runs conc (take i qs) c)))"
  by (induction qs arbitrary: c i) (auto simp: runs_Cons less_Suc_eq_0_disj)

text \<open>The abstract run: the specification sees each request with the answer it got.\<close>

definition spec_runs :: "('q \<Rightarrow> 'r \<Rightarrow> 'a \<Rightarrow> 'a) \<Rightarrow> 'q list \<Rightarrow> 'r list \<Rightarrow> 'a \<Rightarrow> 'a" where
  "spec_runs spec qs rs a = fold (\<lambda>(q, r). spec q r) (zip qs rs) a"

lemma spec_runs_simps [simp]:
  "spec_runs spec [] rs a = a" "spec_runs spec (q # qs) (r # rs) a = spec_runs spec qs rs (spec q r a)"
  by (simp_all add: spec_runs_def)

locale data_refinement =
  fixes conc :: "'q \<Rightarrow> 'c \<Rightarrow> 'r \<times> 'c" and spec :: "'q \<Rightarrow> 'r \<Rightarrow> 'a \<Rightarrow> 'a" and absf :: "'c \<Rightarrow> 'a"
    and inv :: "'c \<Rightarrow> bool" and ok :: "'q \<Rightarrow> bool"
  assumes keeps: "inv c \<Longrightarrow> ok q \<Longrightarrow> inv (snd (conc q c))"
    and simulates: "inv c \<Longrightarrow> ok q \<Longrightarrow> absf (snd (conc q c)) = spec q (fst (conc q c)) (absf c)"
begin

lemma runs_keep: "inv c \<Longrightarrow> list_all ok qs \<Longrightarrow> inv (snd (runs conc qs c))"
  by (induction qs arbitrary: c) (simp_all add: runs_Cons keeps)

lemma runs_simulate:
  "inv c \<Longrightarrow> list_all ok qs \<Longrightarrow>
     absf (snd (runs conc qs c)) = spec_runs spec qs (fst (runs conc qs c)) (absf c)"
  by (induction qs arbitrary: c) (simp_all add: runs_Cons keeps simulates)

end

end
