(* ===== verification/Store.thy ===== *)
theory Store
  imports Simulation Metadata
begin

text \<open>
  What the metadata service promises, without its tables: two finite maps, from node and
  database identifiers to their rows. A request that is answered with success updates one
  entry; one that fails updates none. Replicas are not part of the abstract state: they are a
  view of the databases.
\<close>

section \<open>The abstract store\<close>

record store =
  so_nodes :: "string \<Rightarrow> node_row option"
  so_databases :: "string \<Rightarrow> database_row option"

definition abs_store :: "tables \<Rightarrow> store" where
  "abs_store t =
     \<lparr>so_nodes = (\<lambda>i. find_row nr_id i (tb_nodes t)), so_databases = (\<lambda>d. find_row dr_id d (tb_databases t))\<rparr>"

definition modify :: "string \<Rightarrow> ('r \<Rightarrow> 'r) \<Rightarrow> (string \<Rightarrow> 'r option) \<Rightarrow> string \<Rightarrow> 'r option" where
  "modify k f m = m(k := map_option f (m k))"

definition new_node :: "pg_env \<Rightarrow> string \<Rightarrow> string \<Rightarrow> node_row" where
  "new_node env c h =
     \<lparr>nr_id = pg_new_id env, nr_cluster = c, nr_hostname = h, nr_status = ''healthy'', nr_cpu = None,
      nr_mem = None, nr_disk = None, nr_last = None, nr_registered = pg_now env\<rparr>"

text \<open>An identifier in the form the database stores.\<close>

definition canon :: "pg_env \<Rightarrow> string \<Rightarrow> string" where
  "canon env s = (case pg_uuid env s of Some u \<Rightarrow> u | None \<Rightarrow> s)"

fun store_step :: "pg_env \<times> meta_request \<Rightarrow> unit rpc \<Rightarrow> store \<Rightarrow> store" where
  "store_step (env, req) (Inl e) s = s"
| "store_step (env, ReqRegisterNode c h) (Inr _) s =
     s\<lparr>so_nodes := (so_nodes s)(pg_new_id env \<mapsto> new_node env (canon env c) h)\<rparr>"
| "store_step (env, ReqSendHeartbeat i c m d h) (Inr _) s =
     s\<lparr>so_nodes := modify (canon env i) (beat_row env c m d h) (so_nodes s)\<rparr>"
| "store_step (env, ReqUpdateNodeStatus i st) (Inr _) s =
     s\<lparr>so_nodes := modify (canon env i) (\<lambda>r. r\<lparr>nr_status := st\<rparr>) (so_nodes s)\<rparr>"
| "store_step (env, ReqCreateDatabase n c i st a) (Inr _) s =
     s\<lparr>so_databases := (so_databases s)(pg_new_id env \<mapsto> new_database env n (canon env c) (node_ref env i) st a)\<rparr>"
| "store_step (env, ReqUpdateDatabase d st i ep a) (Inr _) s =
     s\<lparr>so_databases := modify (canon env d) (updated_database env st (node_ref env i) ep a) (so_databases s)\<rparr>"
| "store_step (env, ReqDeleteDatabase d) (Inr _) s =
     s\<lparr>so_databases := (so_databases s)(canon env d := None)\<rparr>"

text \<open>The replicas of a database, read off the store.\<close>

definition replica_view :: "store \<Rightarrow> string \<Rightarrow> replica_row list" where
  "replica_view s d = (case so_databases s d of None \<Rightarrow> [] | Some r \<Rightarrow> expected_replicas r)"

section \<open>The tables implement it\<close>

lemma abs_update_nodes:
  assumes "\<And>r. nr_id (f r) = nr_id r"
  shows "abs_store (t\<lparr>tb_nodes := update_rows nr_id i f (tb_nodes t)\<rparr>) =
    (abs_store t)\<lparr>so_nodes := modify i f (so_nodes (abs_store t))\<rparr>"
  using assms by (simp add: abs_store_def modify_def fun_eq_iff find_update_rows option.map_ident)

lemma abs_update_databases:
  assumes "\<And>r. dr_id (f r) = dr_id r"
  shows "abs_store (t\<lparr>tb_databases := update_rows dr_id d f (tb_databases t), tb_replicas := rs\<rparr>) =
    (abs_store t)\<lparr>so_databases := modify d f (so_databases (abs_store t))\<rparr>"
  using assms by (simp add: abs_store_def modify_def fun_eq_iff find_update_rows option.map_ident)

lemma abs_register:
  assumes "RegisterNode env c h t = (Inr r, t')"
  shows "abs_store t' = store_step (env, ReqRegisterNode c h) (Inr ()) (abs_store t)"
proof -
  have ins: "insert_node env c h t = Inr (rs_node r, t')" using assms by (rule RegisterNode_success)
  then obtain c' where c': "pg_uuid env c = Some c'" by (auto simp: insert_node_def as_uuid_def split: option.splits)
  have "insert_node env c h t = Inr (rs_node r, t') \<Longrightarrow>
      t' = t\<lparr>tb_nodes := tb_nodes t @ [new_node env c' h]\<rparr> \<and> pg_new_id env \<notin> nr_id ` set (tb_nodes t)"
    unfolding insert_node_def as_uuid_def c' new_node_def option.case sum.case
    by (metis (no_types, lifting) Inl_Inr_False Inr_inject imageE prod.inject)
  with ins have t': "t' = t\<lparr>tb_nodes := tb_nodes t @ [new_node env c' h]\<rparr>" and new: "pg_new_id env \<notin> nr_id ` set (tb_nodes t)"
    by blast+
  from new have "find_row nr_id (pg_new_id env) (tb_nodes t) = None" by (simp only: find_row_None not_False_eq_True)
  then show ?thesis
    by (auto simp: t' abs_store_def canon_def c' fun_eq_iff find_row_append find_row_Cons new_node_def split: option.split)
qed

lemma update_node_success:
  assumes "update_node env i f t = Inr (n, t')" and "\<And>r. nr_id (f r) = nr_id r"
  shows "abs_store t' = (abs_store t)\<lparr>so_nodes := modify (canon env i) f (so_nodes (abs_store t))\<rparr>"
proof -
  obtain u where "pg_uuid env i = Some u" and "t' = t\<lparr>tb_nodes := update_rows nr_id u f (tb_nodes t)\<rparr>"
    using assms(1) by (auto simp: update_node_def as_uuid_def split: option.splits)
  then show ?thesis by (simp add: abs_update_nodes assms(2) canon_def)
qed

lemma abs_heartbeat:
  assumes "SendHeartbeat env i c m d h t = (Inr v, t')"
  shows "abs_store t' = store_step (env, ReqSendHeartbeat i c m d h) (Inr ()) (abs_store t)"
proof -
  obtain t1 n where t1: "insert_heartbeat env i c m d h t = Inr t1"
    and upd: "update_node env i (beat_row env c m d h) t1 = Inr (n, t')"
    using assms by (rule SendHeartbeat_success)
  have "abs_store t1 = abs_store t"
    using t1 by (auto simp: insert_heartbeat_def abs_store_def split: sum.splits if_splits)
  then show ?thesis using update_node_success [OF upd] beat_row_keys by simp
qed

lemma abs_node_status:
  assumes "UpdateNodeStatus env i st t = (Inr v, t')"
  shows "abs_store t' = store_step (env, ReqUpdateNodeStatus i st) (Inr ()) (abs_store t)"
proof -
  obtain n where "update_node env i (\<lambda>r. r\<lparr>nr_status := st\<rparr>) t = Inr (n, t')"
    using assms by (rule UpdateNodeStatus_success)
  from update_node_success [OF this] show ?thesis by simp
qed

lemma abs_create:
  assumes "CreateDatabaseRecord env n c i st a t = (Inr d, t')" and "pg_uuid env (pg_new_id env) = Some (pg_new_id env)"
  shows "abs_store t' = store_step (env, ReqCreateDatabase n c i st a) (Inr ()) (abs_store t)"
proof -
  obtain c' where d: "d = pg_new_id env" and c': "pg_uuid env c = Some c'" "c' \<in> ct_id ` set (tb_clusters t)"
    and new: "d \<notin> dr_id ` set (tb_databases t)" "node_ref env i \<in> insert None (Some ` nr_id ` set (tb_nodes t))"
    and t': "t' = t\<lparr>tb_databases := tb_databases t @ [new_database env n c' (node_ref env i) st a],
            tb_replicas := tb_replicas t @ expected_replicas (new_database env n c' (node_ref env i) st a)\<rparr>"
    using assms by (rule CreateDatabaseRecord_success)
  have "find_row dr_id (pg_new_id env) (tb_databases t) = None"
    using new(1) unfolding d by (simp only: find_row_None not_False_eq_True)
  then show ?thesis
    by (auto simp: t' abs_store_def canon_def c' fun_eq_iff find_row_append find_row_Cons new_database_def split: option.split)
qed

lemma abs_update:
  assumes "UpdateDatabaseStatus env d st i ep a t = (Inr v, t')"
  shows "abs_store t' = store_step (env, ReqUpdateDatabase d st i ep a) (Inr ()) (abs_store t)"
proof -
  obtain d' where d': "pg_uuid env d = Some d'" "find_row dr_id d' (tb_databases t) \<noteq> None"
      "node_ref env i \<in> insert None (Some ` nr_id ` set (tb_nodes t))"
    and t': "t' = t\<lparr>tb_databases := update_rows dr_id d' (updated_database env st (node_ref env i) ep a) (tb_databases t),
            tb_replicas := (case node_ref env i of None \<Rightarrow> tb_replicas t
              | Some n \<Rightarrow> filter (\<lambda>r. rr_database r \<noteq> d') (tb_replicas t) @
                  [\<lparr>rr_database = d', rr_node = n, rr_role = ''leader''\<rparr>])\<rparr>"
    using assms by (rule UpdateDatabaseStatus_success)
  have "dr_id (updated_database env st (node_ref env i) ep a r) = dr_id r" for r by (simp add: updated_database_def)
  then show ?thesis by (simp add: t' abs_update_databases canon_def d'(1))
qed

lemma abs_delete:
  assumes "DeleteDatabaseRecord env d t = (Inr v, t')"
  shows "abs_store t' = store_step (env, ReqDeleteDatabase d) (Inr ()) (abs_store t)"
proof -
  obtain d' where "pg_uuid env d = Some d'" "find_row dr_id d' (tb_databases t) \<noteq> None"
    "t' = t\<lparr>tb_databases := filter (\<lambda>r. dr_id r \<noteq> d') (tb_databases t),
            tb_replicas := filter (\<lambda>r. rr_database r \<noteq> d') (tb_replicas t)\<rparr>"
    using assms by (rule DeleteDatabaseRecord_success)
  then show ?thesis by (simp add: abs_store_def canon_def fun_eq_iff find_filter_rows)
qed

text \<open>The tables as a machine: a request with the state of the database server that serves it.\<close>

definition meta_machine :: "pg_env \<times> meta_request \<Rightarrow> tables \<Rightarrow> unit rpc \<times> tables" where
  "meta_machine q t = meta_serve (fst q) (snd q) t"

definition draws_uuid :: "pg_env \<times> meta_request \<Rightarrow> bool" where
  "draws_uuid q \<longleftrightarrow> pg_uuid (fst q) (pg_new_id (fst q)) = Some (pg_new_id (fst q))"

lemma serve_Inr: "serve r = (Inr u, t) \<longleftrightarrow> (\<exists>v. r = (Inr v, t))"
  by (cases r; cases "fst r") (auto simp: serve_def)

lemma meta_machine_simulates:
  assumes "draws_uuid q"
  shows "abs_store (snd (meta_machine q t)) = store_step q (fst (meta_machine q t)) (abs_store t)"
proof -
  obtain env req where q: "q = (env, req)" by (cases q)
  obtain r t' where s: "meta_serve env req t = (r, t')" by (metis surj_pair)
  have "abs_store t' = store_step (env, req) r (abs_store t)"
  proof (cases r)
    case (Inl e)
    then have "t' = t" using s
      by (cases req) (auto simp: serve_Inl dest: RegisterNode_error SendHeartbeat_error UpdateNodeStatus_error
          CreateDatabaseRecord_error UpdateDatabaseStatus_error DeleteDatabaseRecord_error)
    then show ?thesis by (simp add: Inl)
  next
    case (Inr u)
    have id: "pg_uuid env (pg_new_id env) = Some (pg_new_id env)" using assms by (simp add: draws_uuid_def q)
    have "r = Inr ()" by (simp add: Inr)
    with s have s: "meta_serve env req t = (Inr (), t')" and r: "r = Inr ()" by simp_all
    show ?thesis
      unfolding r using s
      by (cases req; hypsubst; simp only: meta_serve.simps serve_Inr; elim exE)
        (erule abs_register abs_heartbeat abs_node_status abs_create [OF _ id] abs_update abs_delete)+
  qed
  then show ?thesis by (simp add: meta_machine_def q s)
qed

interpretation meta: data_refinement meta_machine store_step abs_store registry_ok draws_uuid
  by unfold_locales (simp_all add: meta_machine_simulates, simp add: meta_machine_def draws_uuid_def meta_serve_ok)

lemma replica_view_eq: "registry_ok t \<Longrightarrow> replicas_of t d = replica_view (abs_store t) d"
proof -
  assume ok: "registry_ok t"
  show ?thesis
  proof (cases "find_row dr_id d (tb_databases t)")
    case None
    then have "\<forall>r \<in> set (tb_replicas t). rr_database r \<noteq> d"
      using ok by (force simp: find_row_None registry_ok_def database_keys_ok_def)
    with None show ?thesis by (simp add: replica_view_def abs_store_def replicas_of_def filter_empty_conv)
  next
    case (Some r)
    with find_row_Some [OF Some] ok show ?thesis
      by (auto simp: replica_view_def abs_store_def registry_ok_def replicas_ok_def)
  qed
qed


section \<open>A concrete run\<close>

definition demo_session :: "(pg_env \<times> meta_request) list" where
  "demo_session =
     [(demo_pg ''d1'' 7, ReqCreateDatabase ''orders'' ''C1'' ''n1'' ''provisioning'' 1),
      (demo_pg ''d1'' 8, ReqCreateDatabase ''orders'' ''C1'' ''n1'' ''provisioning'' 1),
      (demo_pg ''x'' 9, ReqUpdateDatabase ''D1'' ''active'' ''N2'' ''h/db/d1'' 1)]"


end
