(* ===== verification/Health.thy ===== *)
theory Health
  imports Metadata
begin

text \<open>
  \<^verbatim>\<open>services/metadata-service/db/health_manager.go\<close>: the daemon that reclassifies
  every node from the age of its last heartbeat and its last three load reports. The round
  trips of a check are numbered: 0 the node query, then two per node. The clock is read once
  per node, so it is a function of the node.
\<close>

section \<open>The check\<close>

definition above_90 :: "heartbeat_row \<Rightarrow> bool" where
  "above_90 h \<longleftrightarrow> flt (Fin 90) (hr_cpu h) \<or> flt (Fin 90) (hr_mem h) \<or> flt (Fin 90) (hr_disk h)"

text \<open>
  \<^verbatim>\<open>SELECT ... WHERE node_id = $1 ORDER BY received_at DESC LIMIT 3\<close>: rows of the
  same time come in any order, hence the sorting routine as an argument.
\<close>

type_synonym beat_sort = "(heartbeat_row \<Rightarrow> heartbeat_row \<Rightarrow> bool) \<Rightarrow> heartbeat_row list \<Rightarrow> heartbeat_row list"

definition last_beats :: "beat_sort \<Rightarrow> string \<Rightarrow> tables \<Rightarrow> heartbeat_row list" where
  "last_beats srt n t =
     take 3 (srt (\<lambda>a b. hr_received b < hr_received a) (filter (\<lambda>h. hr_node h = n) (tb_heartbeats t)))"

fun count_overload :: "heartbeat_row list \<Rightarrow> nat \<Rightarrow> nat \<Rightarrow> nat \<times> nat" where
  "count_overload [] cnt over = (cnt, over)"
| "count_overload (h # hs) cnt over = count_overload hs (cnt + 1) (if above_90 h then over + 1 else over)"

definition checkIfOverloaded :: "beat_sort \<Rightarrow> pg_env \<Rightarrow> nat \<Rightarrow> string \<Rightarrow> tables \<Rightarrow> db_error + bool" where
  "checkIfOverloaded srt env rt nodeID t =
     (case round_trip env rt (map_sum id (\<lambda>n. last_beats srt n t) (as_uuid env nodeID)) of
        Inl e \<Rightarrow> Inl e
      | Inr rows \<Rightarrow>
          (let (cnt, over) = count_overload (delivered env rt rows) 0 0 in Inr (cnt \<ge> 3 \<and> over = cnt)))"

text \<open>A failed status update is logged and skipped.\<close>

definition updateNodeStatus :: "pg_env \<Rightarrow> nat \<Rightarrow> string \<Rightarrow> string \<Rightarrow> tables \<Rightarrow> tables" where
  "updateNodeStatus env rt nodeID status t =
     (case round_trip env rt (update_node env nodeID (\<lambda>r. r\<lparr>nr_status := status\<rparr>) t) of
        Inl _ \<Rightarrow> t | Inr (_, t') \<Rightarrow> t')"

definition check_node :: "beat_sort \<Rightarrow> pg_env \<Rightarrow> (string \<Rightarrow> int) \<Rightarrow> nat \<Rightarrow> node_row \<Rightarrow> tables \<Rightarrow> tables" where
  "check_node srt env clock k n t =
     (if nr_status n = ''draining'' then t
      else case nr_last n of
        None \<Rightarrow>
          if nr_status n \<noteq> ''unknown'' then updateNodeStatus env (2 * k + 2) (nr_id n) ''unknown'' t else t
      | Some h \<Rightarrow>
          (let elapsed = clock (nr_id n) - h
           in if elapsed \<ge> 60 * second then
                if nr_status n \<noteq> ''dead'' then updateNodeStatus env (2 * k + 2) (nr_id n) ''dead'' t else t
              else if elapsed \<ge> 15 * second then
                if nr_status n \<noteq> ''unhealthy'' then updateNodeStatus env (2 * k + 2) (nr_id n) ''unhealthy'' t else t
              else
                (case checkIfOverloaded srt env (2 * k + 1) (nr_id n) t of
                   Inl _ \<Rightarrow> t
                 | Inr isOverloaded \<Rightarrow>
                     (let target = (if isOverloaded then ''overloaded'' else ''healthy'')
                      in if nr_status n \<noteq> target then updateNodeStatus env (2 * k + 2) (nr_id n) target t else t))))"

fun check_loop :: "beat_sort \<Rightarrow> pg_env \<Rightarrow> (string \<Rightarrow> int) \<Rightarrow> nat \<Rightarrow> node_row list \<Rightarrow> tables \<Rightarrow> tables" where
  "check_loop srt env clock k [] t = t"
| "check_loop srt env clock k (n # ns) t =
     check_loop srt env clock (k + 1) ns (check_node srt env clock k n t)"

definition CheckHealth ::
  "beat_sort \<Rightarrow> (node_row list \<Rightarrow> node_row list) \<Rightarrow> pg_env \<Rightarrow> (string \<Rightarrow> int) \<Rightarrow> tables \<Rightarrow>
   db_error option \<times> tables" where
  "CheckHealth srt rng env clock t =
     (case round_trip env 0 (Inr (rng (tb_nodes t))) of
        Inl e \<Rightarrow> (Some e, t)
      | Inr rows \<Rightarrow> (None, check_loop srt env clock 0 (delivered env 0 rows) t))"

section \<open>Classification\<close>

text \<open>What the status of a node should be.\<close>

definition classify :: "beat_sort \<Rightarrow> int \<Rightarrow> tables \<Rightarrow> node_row \<Rightarrow> string" where
  "classify srt now t n =
     (if nr_status n = ''draining'' then ''draining''
      else case nr_last n of
        None \<Rightarrow> ''unknown''
      | Some h \<Rightarrow>
          if 60 * second \<le> now - h then ''dead''
          else if 15 * second \<le> now - h then ''unhealthy''
          else if length (last_beats srt (nr_id n) t) = 3 \<and> list_all above_90 (last_beats srt (nr_id n) t)
          then ''overloaded'' else ''healthy'')"

lemma count_overload_eq: "count_overload hs c d = (c + length hs, d + length (filter above_90 hs))"
  by (induction hs arbitrary: c d) auto

lemma filter_length_eq: "length (filter P xs) = length xs \<longleftrightarrow> list_all P xs"
proof (induction xs)
  case (Cons x xs)
  have "length (filter P xs) \<noteq> Suc (length xs)" using length_filter_le [of P xs] by linarith
  with Cons show ?case by auto
qed simp

definition env_fine :: "pg_env \<Rightarrow> bool" where
  "env_fine env \<longleftrightarrow> pg_fail env = (\<lambda>_. None) \<and> pg_rows env = (\<lambda>_. None)"

lemma checkIfOverloaded_eq:
  assumes "env_fine env" and "pg_uuid env i = Some i"
  shows "checkIfOverloaded srt env rt i t =
    Inr (length (last_beats srt i t) = 3 \<and> list_all above_90 (last_beats srt i t))"
proof -
  have "length (last_beats srt i t) \<le> 3" by (simp add: last_beats_def)
  with assms show ?thesis
    by (auto simp: checkIfOverloaded_def round_trip_def as_uuid_def env_fine_def delivered_def
        count_overload_eq filter_length_eq)
qed

definition set_status :: "string \<Rightarrow> string \<Rightarrow> tables \<Rightarrow> tables" where
  "set_status i st t = t\<lparr>tb_nodes := update_rows nr_id i (\<lambda>r. r\<lparr>nr_status := st\<rparr>) (tb_nodes t)\<rparr>"

lemma updateNodeStatus_eq:
  "env_fine env \<Longrightarrow> pg_uuid env i = Some i \<Longrightarrow> updateNodeStatus env rt i st t = set_status i st t"
  by (simp add: updateNodeStatus_def round_trip_def as_uuid_def env_fine_def update_node_def set_status_def)

lemma set_status_same:
  assumes "distinct (map nr_id (tb_nodes t))" and "n \<in> set (tb_nodes t)"
  shows "set_status (nr_id n) (nr_status n) t = t"
proof -
  have "r\<lparr>nr_status := nr_status n\<rparr> = r" if "r \<in> set (tb_nodes t)" "nr_id r = nr_id n" for r
    using that assms by (metis eq_key_imp_eq_value distinct_map inj_on_def node_row.surjective node_row.update_convs(4))
  then have "update_rows nr_id (nr_id n) (\<lambda>r. r\<lparr>nr_status := nr_status n\<rparr>) (tb_nodes t) = tb_nodes t"
    unfolding update_rows_def by (intro map_idI) auto
  then show ?thesis by (simp add: set_status_def)
qed

lemma check_node_eq:
  assumes "env_fine env" and "pg_uuid env (nr_id n) = Some (nr_id n)"
    and "distinct (map nr_id (tb_nodes t))" and "n \<in> set (tb_nodes t)"
  shows "check_node srt env clock k n t = set_status (nr_id n) (classify srt (clock (nr_id n)) t n) t"
proof -
  have upd_if: "(if nr_status n \<noteq> st then set_status (nr_id n) st t else t) = set_status (nr_id n) st t" for st
    using set_status_same [OF assms(3,4)] by (cases "nr_status n = st") auto
  have dr: "set_status (nr_id n) ''draining'' t = t" if "nr_status n = ''draining''"
    using set_status_same [OF assms(3,4)] unfolding that .
  note dist = if_distrib [of "\<lambda>s. set_status (nr_id n) s t"]
  show ?thesis
    unfolding check_node_def classify_def updateNodeStatus_eq [OF assms(1,2)] checkIfOverloaded_eq [OF assms(1,2)]
      Let_def sum.case upd_if
  proof (cases "nr_status n = ''draining''")
    case True
    then show "(if nr_status n = ''draining'' then t else A) = set_status (nr_id n) (if nr_status n = ''draining'' then ''draining'' else B) t"
      for A B using True dr [OF True] by (simp only: if_True simp_thms)
  next
    case False
    show "(if nr_status n = ''draining'' then t else
        case nr_last n of None \<Rightarrow> set_status (nr_id n) a t
        | Some h \<Rightarrow> if P h then set_status (nr_id n) b t else if Q h then set_status (nr_id n) c t
            else set_status (nr_id n) d t) =
      set_status (nr_id n) (if nr_status n = ''draining'' then ''draining'' else
        case nr_last n of None \<Rightarrow> a | Some h \<Rightarrow> if P h then b else if Q h then c else d) t" for a b c d P Q
      using False by (cases "nr_last n") (simp_all only: if_False option.case dist)
  qed
qed

section \<open>The loop\<close>

lemma set_status_frame [simp]:
  "tb_heartbeats (set_status i st t) = tb_heartbeats t"
  "map nr_id (tb_nodes (set_status i st t)) = map nr_id (tb_nodes t)"
  "last_beats srt n (set_status i st t) = last_beats srt n t"
  by (simp_all add: set_status_def last_beats_def)

lemma classify_set_status [simp]: "classify srt now (set_status i st t) n = classify srt now t n"
  unfolding classify_def set_status_frame ..

text \<open>The nodes a loop has visited have their class, the others their status.\<close>

definition reclassified :: "beat_sort \<Rightarrow> (string \<Rightarrow> int) \<Rightarrow> tables \<Rightarrow> string set \<Rightarrow> node_row \<Rightarrow> node_row" where
  "reclassified srt clock t is r =
     (if nr_id r \<in> is then r\<lparr>nr_status := classify srt (clock (nr_id r)) t r\<rparr> else r)"

lemma check_loop_eq:
  assumes "env_fine env" and "\<And>n. n \<in> set ns \<Longrightarrow> pg_uuid env (nr_id n) = Some (nr_id n)"
    and "distinct (map nr_id (tb_nodes t))" and "set ns \<subseteq> set (tb_nodes t)" and "distinct (map nr_id ns)"
  shows "check_loop srt env clock k ns t =
    t\<lparr>tb_nodes := map (reclassified srt clock t (nr_id ` set ns)) (tb_nodes t)\<rparr>"
  using assms(2-)
proof (induction ns arbitrary: t k)
  case Nil
  show ?case by (simp add: reclassified_def)
next
  case (Cons n ns)
  let ?t = "set_status (nr_id n) (classify srt (clock (nr_id n)) t n) t"
  have n: "n \<in> set (tb_nodes t)" using Cons.prems(3) by simp
  have step: "check_node srt env clock k n t = ?t"
    by (rule check_node_eq [OF assms(1) _ Cons.prems(2) n]) (use Cons.prems(1) in simp)
  have rest: "set ns \<subseteq> set (tb_nodes ?t)"
  proof
    fix m assume m: "m \<in> set ns"
    then have "nr_id m \<in> nr_id ` set ns" by (rule imageI)
    then have "nr_id m \<noteq> nr_id n" using Cons.prems(4) by auto
    then show "m \<in> set (tb_nodes ?t)"
      using m Cons.prems(3) by (auto simp: set_status_def set_update_rows image_iff intro!: bexI [of _ m])
  qed
  have "check_loop srt env clock (k + 1) ns ?t =
      ?t\<lparr>tb_nodes := map (reclassified srt clock ?t (nr_id ` set ns)) (tb_nodes ?t)\<rparr>"
    by (rule Cons.IH [OF _ _ rest]) (use Cons.prems in \<open>simp_all add: Cons.prems(1)\<close>)
  moreover have "map (reclassified srt clock ?t (nr_id ` set ns)) (tb_nodes ?t) =
      map (reclassified srt clock t (nr_id ` set (n # ns))) (tb_nodes t)"
  proof -
    have "reclassified srt clock ?t (nr_id ` set ns) (if nr_id r = nr_id n then r\<lparr>nr_status := classify srt (clock (nr_id n)) t n\<rparr> else r) =
        reclassified srt clock t (nr_id ` set (n # ns)) r" if "r \<in> set (tb_nodes t)" for r
    proof (cases "nr_id r = nr_id n")
      case True
      then have "r = n" using Cons.prems(2) that n by (metis eq_key_imp_eq_value distinct_map inj_on_def)
      moreover have "nr_id n \<notin> nr_id ` set ns" using Cons.prems(4) by simp
      ultimately show ?thesis by (simp add: reclassified_def)
    qed (simp add: reclassified_def)
    then show ?thesis by (simp add: set_status_def update_rows_def)
  qed
  ultimately show ?case by (simp add: step) (simp add: set_status_def)
qed

section \<open>What a check does\<close>

lemma CheckHealth_eq:
  assumes "registry_ok t" and "env_fine env" and "\<And>n. n \<in> set (tb_nodes t) \<Longrightarrow> pg_uuid env (nr_id n) = Some (nr_id n)"
    and "mset (rng (tb_nodes t)) = mset (tb_nodes t)"
  shows "CheckHealth srt rng env clock t =
    (None, t\<lparr>tb_nodes := map (\<lambda>n. n\<lparr>nr_status := classify srt (clock (nr_id n)) t n\<rparr>) (tb_nodes t)\<rparr>)"
proof -
  have set: "set (rng (tb_nodes t)) = set (tb_nodes t)" using assms(4) by (metis set_mset_mset)
  have dist: "distinct (map nr_id (tb_nodes t))" using assms(1) by (simp add: registry_defs)
  have "mset (map nr_id (rng (tb_nodes t))) = mset (map nr_id (tb_nodes t))" using assms(4) by simp
  then have "distinct (map nr_id (rng (tb_nodes t)))" using dist by (metis mset_eq_imp_distinct_iff)
  then have "check_loop srt env clock 0 (rng (tb_nodes t)) t =
      t\<lparr>tb_nodes := map (reclassified srt clock t (nr_id ` set (rng (tb_nodes t)))) (tb_nodes t)\<rparr>"
    by (intro check_loop_eq [OF assms(2)]) (use assms(3) dist set in auto)
  moreover have "map (reclassified srt clock t (nr_id ` set (rng (tb_nodes t)))) (tb_nodes t) =
      map (\<lambda>n. n\<lparr>nr_status := classify srt (clock (nr_id n)) t n\<rparr>) (tb_nodes t)"
    by (simp add: set reclassified_def)
  ultimately show ?thesis
    using assms(2) by (simp add: CheckHealth_def round_trip_def delivered_def env_fine_def)
qed

text \<open>
  Without failures a check gives every node the status its class demands and changes
  nothing else: draining nodes stay draining, nodes without a heartbeat are unknown, those
  whose last one is 60 seconds old are dead, 15 seconds unhealthy, and the others are
  overloaded when their last three reports each exceed 90 percent somewhere, else healthy.
  The order in which the nodes are visited does not matter.
\<close>

theorem CheckHealth_classifies:
  assumes "registry_ok t" and "env_fine env" and "\<And>n. n \<in> set (tb_nodes t) \<Longrightarrow> pg_uuid env (nr_id n) = Some (nr_id n)"
    and "mset (rng (tb_nodes t)) = mset (tb_nodes t)"
  shows "CheckHealth srt rng env clock t =
    (None, t\<lparr>tb_nodes := map (\<lambda>n. n\<lparr>nr_status := classify srt (clock (nr_id n)) t n\<rparr>) (tb_nodes t)\<rparr>)"
  by (rule CheckHealth_eq [where rng = rng and env = env and t = t, OF assms])

text \<open>
  A drained node does not stay drained: the manager skips \<^verbatim>\<open>draining\<close>
  only, so at the next check a node set to \<^verbatim>\<open>drained\<close> (or
  \<^verbatim>\<open>unhealthy\<close>, reported by the node itself) whose heartbeats are fresh and
  not overloaded is healthy again, and the scheduler places workloads on it.
\<close>

theorem drained_becomes_healthy:
  assumes "registry_ok t" and "env_fine env" and "\<And>n. n \<in> set (tb_nodes t) \<Longrightarrow> pg_uuid env (nr_id n) = Some (nr_id n)"
    and "mset (rng (tb_nodes t)) = mset (tb_nodes t)"
    and "n \<in> set (tb_nodes t)" and "nr_status n \<in> {''drained'', ''unhealthy''}"
    and "nr_last n = Some h" and "clock (nr_id n) - h < 15 * second"
    and "length (last_beats srt (nr_id n) t) < 3 \<or> \<not> list_all above_90 (last_beats srt (nr_id n) t)"
  shows "n\<lparr>nr_status := ''healthy''\<rparr> \<in> set (tb_nodes (snd (CheckHealth srt rng env clock t)))"
proof -
  have "nr_status n \<noteq> ''draining''" using assms(6) by auto
  then have "classify srt (clock (nr_id n)) t n = ''healthy''"
    using assms(7-9) unfolding classify_def by (auto simp only: option.case if_False if_True not_less split: if_splits)
  moreover have "CheckHealth srt rng env clock t =
    (None, t\<lparr>tb_nodes := map (\<lambda>n. n\<lparr>nr_status := classify srt (clock (nr_id n)) t n\<rparr>) (tb_nodes t)\<rparr>)"
    by (rule CheckHealth_eq) (fact assms)+
  ultimately show ?thesis using assms(5) by (auto intro: rev_image_eqI)
qed

section \<open>Reachable registries\<close>

text \<open>The registry evolves by requests and by health checks, each possibly failing midway.\<close>

inductive registry_reach :: "tables \<Rightarrow> tables \<Rightarrow> bool" for t0 where
  start: "registry_reach t0 t0"
| request: "registry_reach t0 t \<Longrightarrow> pg_uuid env (pg_new_id env) = Some (pg_new_id env) \<Longrightarrow>
    registry_reach t0 (snd (meta_serve env req t))"
| check: "registry_reach t0 t \<Longrightarrow> registry_reach t0 (snd (CheckHealth srt rng env clock t))"

lemma updateNodeStatus_ok: "registry_ok t \<Longrightarrow> registry_ok (updateNodeStatus env rt i st t)"
proof -
  assume ok: "registry_ok t"
  have "registry_ok t'" if "update_node env i (\<lambda>r. r\<lparr>nr_status := st\<rparr>) t = Inr (n, t')" for n t'
    using ok that by (rule update_node_ok) simp
  with ok show ?thesis by (auto simp: updateNodeStatus_def round_trip_def split: sum.splits option.splits)
qed

lemma check_node_ok: "registry_ok t \<Longrightarrow> registry_ok (check_node srt env clock k n t)"
  unfolding check_node_def Let_def by (simp add: updateNodeStatus_ok split: option.split sum.split)

lemma check_loop_ok: "registry_ok t \<Longrightarrow> registry_ok (check_loop srt env clock k ns t)"
  by (induction ns arbitrary: k t) (simp_all add: check_node_ok)

text \<open>
  C1. The registry invariant holds in every reachable state, whatever requests are served
  and whatever fails: primary keys and host names are unique, every reference resolves, and
  each database that names a node has exactly one replica, its leader on that node, while
  one that names none has no replica.
\<close>

theorem registry_reach_ok:
  assumes "registry_reach t0 t" and "registry_ok t0"
  shows "registry_ok t"
  using assms
proof (induction rule: registry_reach.induct)
  case (request t env req)
  then show ?case by (intro meta_serve_ok)
next
  case (check t srt rng env clock)
  then show ?case by (auto simp: CheckHealth_def check_loop_ok split: sum.splits)
qed

section \<open>The health endpoint and the node list\<close>

text \<open>
  \<^verbatim>\<open>handlers/health.go\<close>: the status code and the two fields of the answer, from
  the pool and its ping; \<^verbatim>\<open>handlers/nodes.go\<close>: the answer to a method.
\<close>

definition HealthHandler :: "db_error option option \<Rightarrow> nat \<times> string \<times> string" where
  "HealthHandler pool =
     (let (dbStatus, statusCode) =
        (case pool of
           None \<Rightarrow> (''disconnected'', 503)
         | Some (Some err) \<Rightarrow> (''disconnected'', 503)
         | Some None \<Rightarrow> (''connected'', 200 :: nat))
      in (statusCode, if statusCode = 503 then ''DOWN'' else ''UP'', dbStatus))"

datatype nodes_answer = Empty_OK | Error_Body nat string | Node_List "node_info list"

definition NodesHandler ::
  "(node_row list \<Rightarrow> node_row list) \<Rightarrow> pg_env \<Rightarrow> string \<Rightarrow> tables \<Rightarrow> nodes_answer" where
  "NodesHandler rng env method t =
     (if method = ''OPTIONS'' then Empty_OK
      else if method \<noteq> ''GET'' then Error_Body 405 ''method not allowed''
      else case round_trip env 0 (Inr (rng (tb_nodes t))) of
        Inl e \<Rightarrow> Error_Body 500 ''failed to query nodes''
      | Inr rows \<Rightarrow> Node_List (map (node_message t) (delivered env 0 rows)))"

section \<open>Concrete checks\<close>

definition demo_clock :: "string \<Rightarrow> int" where
  "demo_clock n = 20 * second"

theorem CheckHealth_classifies_witness:
  "CheckHealth go_isort (go_range 1) (demo_pg ''x'' 0) demo_clock demo_tables =
    (None, demo_tables\<lparr>tb_nodes :=
       map (\<lambda>n. n\<lparr>nr_status := classify go_isort (demo_clock (nr_id n)) demo_tables n\<rparr>) (tb_nodes demo_tables)\<rparr>)"
proof (rule CheckHealth_classifies [OF demo_tables_ok])
  show "env_fine (demo_pg ''x'' 0)" by (simp add: env_fine_def demo_pg_def)
  have "list_all (\<lambda>n. pg_uuid (demo_pg ''x'' 0) (nr_id n) = Some (nr_id n)) (tb_nodes demo_tables)" by code_simp
  then show "pg_uuid (demo_pg ''x'' 0) (nr_id n) = Some (nr_id n)" if "n \<in> set (tb_nodes demo_tables)" for n
    using that by (simp add: list_all_iff)
  show "mset (go_range 1 (tb_nodes demo_tables)) = mset (tb_nodes demo_tables)" by (rule ranged.rng_mset)
qed

definition demo_drained :: tables where
  "demo_drained = snd (UpdateNodeStatus (demo_pg ''x'' 0) ''n1'' ''drained'' demo_tables)"

theorem drained_becomes_healthy_witness:
  "(demo_row ''n1'' ''drained'')\<lparr>nr_status := ''healthy''\<rparr> \<in>
     set (tb_nodes (snd (CheckHealth go_isort (go_range 1) (demo_pg ''x'' 0) (\<lambda>_. second) demo_drained)))"
proof (rule drained_becomes_healthy [where h = 0])
  show "registry_ok demo_drained" by code_simp
  show "env_fine (demo_pg ''x'' 0)" by (simp add: env_fine_def demo_pg_def)
  have "list_all (\<lambda>n. pg_uuid (demo_pg ''x'' 0) (nr_id n) = Some (nr_id n)) (tb_nodes demo_drained)" by code_simp
  then show "pg_uuid (demo_pg ''x'' 0) (nr_id n) = Some (nr_id n)" if "n \<in> set (tb_nodes demo_drained)" for n
    using that by (simp add: list_all_iff)
  show "mset (go_range 1 (tb_nodes demo_drained)) = mset (tb_nodes demo_drained)" by (rule ranged.rng_mset)
qed code_simp+

theorem registry_reach_ok_witness:
  "registry_ok (snd (CheckHealth go_isort (go_range 1) (demo_pg ''x'' 0) demo_clock
     (snd (meta_serve (demo_pg ''d1'' 7) (ReqCreateDatabase ''orders'' ''c1'' ''n1'' ''ready'' 1) demo_tables))))"
proof (rule registry_reach_ok [OF _ demo_tables_ok])
  have "pg_uuid (demo_pg ''d1'' 7) (pg_new_id (demo_pg ''d1'' 7)) = Some (pg_new_id (demo_pg ''d1'' 7))" by code_simp
  then show "registry_reach demo_tables (snd (CheckHealth go_isort (go_range 1) (demo_pg ''x'' 0) demo_clock
     (snd (meta_serve (demo_pg ''d1'' 7) (ReqCreateDatabase ''orders'' ''c1'' ''n1'' ''ready'' 1) demo_tables))))"
    by (intro registry_reach.check registry_reach.request registry_reach.start)
qed

end
