(* ===== verification/Agent.thy ===== *)
theory Agent
  imports Proto "HOL-Library.AList"
begin

text \<open>
  \<^verbatim>\<open>services/worker-node/agent/server.go\<close> without the vector search: the
  databases of a worker node, its data directories and its vectors. A Go map is an
  association list with distinct keys, since some operations range over it; a nil map is the
  empty list. Each operation below is one critical section of the server's mutex;
  \<^verbatim>\<open>DrainNode\<close> is a snapshot followed by one critical section per database.
\<close>

section \<open>Paths\<close>

text \<open>\<^verbatim>\<open>filepath.Clean\<close> and \<^verbatim>\<open>filepath.Join\<close> on Unix, lexically.\<close>

fun clean_parts :: "bool \<Rightarrow> string list \<Rightarrow> string list \<Rightarrow> string list" where
  "clean_parts rooted acc [] = rev acc"
| "clean_parts rooted acc (p # ps) =
     (if p = [] \<or> p = ''.'' then clean_parts rooted acc ps
      else if p = ''..'' then
        (case acc of
           [] \<Rightarrow> clean_parts rooted (if rooted then [] else [p]) ps
         | a # as \<Rightarrow> if a = ''..'' then clean_parts rooted (p # acc) ps else clean_parts rooted as ps)
      else clean_parts rooted (p # acc) ps)"

definition clean_path :: "string \<Rightarrow> string" where
  "clean_path s =
     (let rooted = has_prefix s ''/'';
          body = str_join ''/'' (clean_parts rooted [] (str_split ''/'' s))
      in if rooted then ''/'' @ body else if body = [] then ''.'' else body)"

definition join_path :: "string \<Rightarrow> string \<Rightarrow> string" where
  "join_path a b =
     (if a = [] \<and> b = [] then [] else if a = [] then clean_path b
      else if b = [] then clean_path a else clean_path (a @ ''/'' @ b))"

text \<open>\<^verbatim>\<open>os.RemoveAll\<close> takes a directory and everything below it.\<close>

definition below :: "string \<Rightarrow> string \<Rightarrow> bool" where
  "below p q \<longleftrightarrow> q = p \<or> has_prefix q (p @ ''/'')"

definition remove_all :: "string \<Rightarrow> string list \<Rightarrow> string list" where
  "remove_all p dirs = filter (\<lambda>q. \<not> below p q) dirs"

section \<open>State\<close>

record vector_entry =
  ve_id :: string
  ve_data :: string
  ve_embedding :: "go_float list"
  ve_metadata :: "(string \<times> string) list option"

record agent =
  ag_by_name :: "(string \<times> string) list"
  ag_by_id :: "(string \<times> string) list"
  ag_vectors :: "string \<Rightarrow> (string \<times> vector_entry) list"
  ag_next_lsn :: "64 word"
  ag_data_dir :: string
  ag_hostname :: string
  ag_fail :: int
  ag_hang :: int
  ag_dirs :: "string list"

definition NewServer :: "string \<Rightarrow> string \<Rightarrow> agent" where
  "NewServer dataDir hostname =
     \<lparr>ag_by_name = [], ag_by_id = [], ag_vectors = (\<lambda>_. []), ag_next_lsn = 0, ag_data_dir = dataDir,
      ag_hostname = hostname, ag_fail = 0, ag_hang = 0, ag_dirs = []\<rparr>"

section \<open>Databases\<close>

record create_response =
  cr_success :: bool
  cr_endpoint :: string
  cr_error :: string

text \<open>
  The first two steps run outside the mutex: injected failures, and an injected hang of 15
  seconds, which the end of the call's context interrupts with the error \<open>ctx\<close>. \<open>mkdir\<close> is the
  error of creating the directory, if any.
\<close>

definition CreateDatabase ::
  "rpc_error option \<Rightarrow> string option \<Rightarrow> string \<Rightarrow> string \<Rightarrow> agent \<Rightarrow> create_response rpc \<times> agent" where
  "CreateDatabase ctx mkdir name dbID s =
     (if name = [] \<or> dbID = [] then (Inl (Status InvalidArgument ''name and database_id are required''), s)
      else if ag_fail s > 0
      then (Inr \<lparr>cr_success = False, cr_endpoint = [], cr_error = ''simulated agent creation failure''\<rparr>,
            s\<lparr>ag_fail := ag_fail s - 1\<rparr>)
      else
        let hung = (ag_hang s > 0); s = (if hung then s\<lparr>ag_hang := ag_hang s - 1\<rparr> else s)
        in if hung \<and> ctx \<noteq> None then (Inl (the ctx), s)
           else if (case map_of (ag_by_name s) name of Some existingID \<Rightarrow> existingID \<noteq> dbID | None \<Rightarrow> False)
           then (Inl (Status AlreadyExists
                   (''database with name '' @ quoted name @ '' already exists on this node'')), s)
           else if (case map_of (ag_by_id s) dbID of Some existingName \<Rightarrow> existingName \<noteq> name | None \<Rightarrow> False)
           then (Inl (Status AlreadyExists
                   (''database with ID '' @ quoted dbID @ '' already exists on this node'')), s)
           else case mkdir of
             Some err \<Rightarrow> (Inl (Status Internal (''failed to allocate directory: '' @ err)), s)
           | None \<Rightarrow>
               (Inr \<lparr>cr_success = True, cr_endpoint = ag_hostname s @ ''/db/'' @ dbID, cr_error = []\<rparr>,
                s\<lparr>ag_dirs := List.insert (join_path (ag_data_dir s) dbID) (ag_dirs s),
                  ag_by_name := AList.update name dbID (ag_by_name s),
                  ag_by_id := AList.update dbID name (ag_by_id s)\<rparr>))"

definition DeleteDatabase :: "string \<Rightarrow> agent \<Rightarrow> bool rpc \<times> agent" where
  "DeleteDatabase dbID s =
     (if dbID = [] then (Inl (Status InvalidArgument ''database_id is required''), s)
      else case map_of (ag_by_id s) dbID of
        None \<Rightarrow> (Inl (Status NotFound (''database with ID '' @ quoted dbID @ '' not found'')), s)
      | Some name \<Rightarrow>
          (Inr True,
           s\<lparr>ag_by_id := AList.delete dbID (ag_by_id s), ag_by_name := AList.delete name (ag_by_name s),
             ag_dirs := remove_all (join_path (ag_data_dir s) dbID) (ag_dirs s)\<rparr>))"

definition BackupDatabase :: "bool rpc" where
  "BackupDatabase = Inl (Status Unimplemented ''BackupDatabase is unimplemented in Phase 2'')"

definition RestoreDatabase :: "bool rpc" where
  "RestoreDatabase = Inl (Status Unimplemented ''RestoreDatabase is unimplemented in Phase 2'')"

text \<open>One turn of the evacuation loop; a database removed meanwhile reads as the empty name.\<close>

definition evacuate :: "string \<Rightarrow> agent \<Rightarrow> agent" where
  "evacuate dbID s =
     (let name = (case map_of (ag_by_id s) dbID of Some n \<Rightarrow> n | None \<Rightarrow> [])
      in s\<lparr>ag_by_id := AList.delete dbID (ag_by_id s), ag_by_name := AList.delete name (ag_by_name s),
           ag_dirs := remove_all (join_path (ag_data_dir s) dbID) (ag_dirs s)\<rparr>)"

definition DrainNode :: "(string list \<Rightarrow> string list) \<Rightarrow> agent \<Rightarrow> (bool \<times> int) \<times> agent" where
  "DrainNode rng s =
     (let dbIDs = rng (map fst (ag_by_id s))
      in ((True, int32 (int (length dbIDs))), fold evacuate dbIDs s))"

section \<open>Vectors\<close>

definition default_db :: "string \<Rightarrow> string" where
  "default_db dbID = (if dbID = [] then ''default'' else dbID)"

definition InsertVector ::
  "string \<Rightarrow> string \<Rightarrow> string \<Rightarrow> go_float list \<Rightarrow> (string \<times> string) list option \<Rightarrow> agent \<Rightarrow>
   64 word rpc \<times> agent" where
  "InsertVector dbID vecID data embedding metadata s =
     (let dbID = default_db dbID
      in if vecID = [] then (Inl (Status InvalidArgument ''vector id is required''), s)
         else
           let lsn = ag_next_lsn s + 1;
               entry = \<lparr>ve_id = vecID, ve_data = data, ve_embedding = embedding, ve_metadata = metadata\<rparr>
           in (Inr lsn,
               s\<lparr>ag_next_lsn := lsn,
                 ag_vectors := (ag_vectors s)(dbID := AList.update vecID entry (ag_vectors s dbID))\<rparr>))"

section \<open>Failure injection\<close>

text \<open>\<^verbatim>\<open>/debug/inject-failure\<close>: a parameter that is present is stored.\<close>

definition inject_failure :: "int option \<Rightarrow> int option \<Rightarrow> agent \<Rightarrow> agent" where
  "inject_failure attempts hang s =
     s\<lparr>ag_fail := (case attempts of None \<Rightarrow> ag_fail s | Some a \<Rightarrow> int32 a),
       ag_hang := (case hang of None \<Rightarrow> ag_hang s | Some h \<Rightarrow> int32 h)\<rparr>"

section \<open>The two maps are inverse\<close>

definition inverse_maps :: "(string \<Rightarrow> string option) \<Rightarrow> (string \<Rightarrow> string option) \<Rightarrow> bool" where
  "inverse_maps f g \<longleftrightarrow> (\<forall>n i. f n = Some i \<longleftrightarrow> g i = Some n) \<and> f [] = None \<and> g [] = None"

definition agent_ok :: "agent \<Rightarrow> bool" where
  "agent_ok s \<longleftrightarrow>
     distinct (map fst (ag_by_name s)) \<and> distinct (map fst (ag_by_id s)) \<and>
     inverse_maps (map_of (ag_by_name s)) (map_of (ag_by_id s))"

lemma map_of_AList [simp]:
  "map_of (AList.update k v m) = (map_of m)(k \<mapsto> v)" "map_of (AList.delete k m) = (map_of m)(k := None)"
  by (simp_all add: update_conv' delete_conv')

lemma distinct_AList [simp]:
  "distinct (map fst m) \<Longrightarrow> distinct (map fst (AList.update k v m))"
  "distinct (map fst m) \<Longrightarrow> distinct (map fst (AList.delete k m))"
  by (simp_all add: distinct_update distinct_delete)

lemma agent_ok_new: "agent_ok (NewServer d h)"
  by (simp add: agent_ok_def inverse_maps_def NewServer_def)

lemma agent_ok_frame:
  "ag_by_name s' = ag_by_name s \<Longrightarrow> ag_by_id s' = ag_by_id s \<Longrightarrow> agent_ok s' = agent_ok s"
  by (simp add: agent_ok_def)

text \<open>Registering a pair that conflicts with no entry keeps the maps inverse.\<close>

lemma inverse_insert:
  assumes "inverse_maps f g" and "a \<noteq> []" and "b \<noteq> []"
    and "\<not> (case f a of Some j \<Rightarrow> j \<noteq> b | None \<Rightarrow> False)"
    and "\<not> (case g b of Some m \<Rightarrow> m \<noteq> a | None \<Rightarrow> False)"
  shows "inverse_maps (f(a \<mapsto> b)) (g(b \<mapsto> a))"
proof -
  have fa: "j = b" if "f a = Some j" for j using assms(4) that by simp
  have gb: "m = a" if "g b = Some m" for m using assms(5) that by simp
  have i: "f n = Some i \<longleftrightarrow> g i = Some n" for n i using assms(1) by (simp add: inverse_maps_def)
  have "(f(a \<mapsto> b)) n = Some i \<longleftrightarrow> (g(b \<mapsto> a)) i = Some n" for n i
  proof (cases "n = a")
    case True
    then show ?thesis using fa [of i] i [of a i] by (cases "i = b") (simp_all, blast)
  next
    case False
    then show ?thesis using gb [of n] i [of n b] i [of n i] by (cases "i = b") (simp_all, blast)
  qed
  with assms(1-3) show ?thesis by (simp add: inverse_maps_def)
qed

lemma inverse_delete:
  assumes "inverse_maps f g" and "g b = Some a"
  shows "inverse_maps (f(a := None)) (g(b := None))"
proof -
  have i: "f n = Some i \<longleftrightarrow> g i = Some n" for n i using assms(1) by (simp add: inverse_maps_def)
  have "(f(a := None)) n = Some i \<longleftrightarrow> (g(b := None)) i = Some n" for n i
    using i [of a i] i [of n b] i [of n i] i [of a b] assms(2) by auto
  with assms(1) show ?thesis by (simp add: inverse_maps_def)
qed

lemma agent_ok_update:
  "agent_ok s \<Longrightarrow> inverse_maps ((map_of (ag_by_name s))(n \<mapsto> i)) ((map_of (ag_by_id s))(i \<mapsto> n)) \<Longrightarrow>
   agent_ok (s\<lparr>ag_dirs := ds, ag_by_name := AList.update n i (ag_by_name s), ag_by_id := AList.update i n (ag_by_id s)\<rparr>)"
  by (simp add: agent_ok_def)

lemma agent_ok_delete:
  "agent_ok s \<Longrightarrow> inverse_maps ((map_of (ag_by_name s))(n := None)) ((map_of (ag_by_id s))(i := None)) \<Longrightarrow>
   agent_ok (s\<lparr>ag_by_id := AList.delete i (ag_by_id s), ag_by_name := AList.delete n (ag_by_name s), ag_dirs := ds\<rparr>)"
  by (simp add: agent_ok_def)

text \<open>Past the injected faults, creation is registration.\<close>

definition register_db :: "string option \<Rightarrow> string \<Rightarrow> string \<Rightarrow> agent \<Rightarrow> create_response rpc \<times> agent" where
  "register_db mkdir name dbID s =
     (if (case map_of (ag_by_name s) name of Some existingID \<Rightarrow> existingID \<noteq> dbID | None \<Rightarrow> False)
      then (Inl (Status AlreadyExists
              (''database with name '' @ quoted name @ '' already exists on this node'')), s)
      else if (case map_of (ag_by_id s) dbID of Some existingName \<Rightarrow> existingName \<noteq> name | None \<Rightarrow> False)
      then (Inl (Status AlreadyExists
              (''database with ID '' @ quoted dbID @ '' already exists on this node'')), s)
      else case mkdir of
        Some err \<Rightarrow> (Inl (Status Internal (''failed to allocate directory: '' @ err)), s)
      | None \<Rightarrow>
          (Inr \<lparr>cr_success = True, cr_endpoint = ag_hostname s @ ''/db/'' @ dbID, cr_error = []\<rparr>,
           s\<lparr>ag_dirs := List.insert (join_path (ag_data_dir s) dbID) (ag_dirs s),
             ag_by_name := AList.update name dbID (ag_by_name s),
             ag_by_id := AList.update dbID name (ag_by_id s)\<rparr>))"

lemma CreateDatabase_eq:
  "CreateDatabase ctx mkdir name dbID s =
     (if name = [] \<or> dbID = [] then (Inl (Status InvalidArgument ''name and database_id are required''), s)
      else if ag_fail s > 0
      then (Inr \<lparr>cr_success = False, cr_endpoint = [], cr_error = ''simulated agent creation failure''\<rparr>,
            s\<lparr>ag_fail := ag_fail s - 1\<rparr>)
      else if ag_hang s > 0
      then (case ctx of Some e \<Rightarrow> (Inl e, s\<lparr>ag_hang := ag_hang s - 1\<rparr>)
            | None \<Rightarrow> register_db mkdir name dbID (s\<lparr>ag_hang := ag_hang s - 1\<rparr>))
      else register_db mkdir name dbID s)"
proof -
  consider "name = [] \<or> dbID = []" | "\<not> (name = [] \<or> dbID = [])" "ag_fail s > 0"
    | "\<not> (name = [] \<or> dbID = [])" "\<not> ag_fail s > 0" "ag_hang s > 0"
    | "\<not> (name = [] \<or> dbID = [])" "\<not> ag_fail s > 0" "\<not> ag_hang s > 0" by blast
  then show ?thesis
    by cases ((cases ctx)?, simp_all only: CreateDatabase_def Let_def register_db_def if_True if_False
        simp_thms option.case option.distinct option.sel)+
qed

lemma register_db_ok:
  assumes "agent_ok s" and "name \<noteq> []" and "dbID \<noteq> []"
  shows "agent_ok (snd (register_db mkdir name dbID s))"
proof (cases "fst (register_db mkdir name dbID s)")
  case (Inl e)
  then have "snd (register_db mkdir name dbID s) = s"
    unfolding register_db_def by (auto split: if_splits option.splits)
  with assms show ?thesis by simp
next
  case (Inr r)
  have i: "inverse_maps ((map_of (ag_by_name s))(name \<mapsto> dbID)) ((map_of (ag_by_id s))(dbID \<mapsto> name))"
  proof (rule inverse_insert)
    show "inverse_maps (map_of (ag_by_name s)) (map_of (ag_by_id s))" using assms(1) by (simp add: agent_ok_def)
    show c: "\<not> (case map_of (ag_by_name s) name of Some j \<Rightarrow> j \<noteq> dbID | None \<Rightarrow> False)"
      by (rule notI) (use Inr in \<open>simp add: register_db_def del: map_of_eq_Some_iff\<close>)
    show "\<not> (case map_of (ag_by_id s) dbID of Some m \<Rightarrow> m \<noteq> name | None \<Rightarrow> False)"
      by (rule notI) (use Inr c in \<open>simp add: register_db_def del: map_of_eq_Some_iff\<close>)
  qed (fact assms)+
  have "snd (register_db mkdir name dbID s) =
      s\<lparr>ag_dirs := List.insert (join_path (ag_data_dir s) dbID) (ag_dirs s),
        ag_by_name := AList.update name dbID (ag_by_name s), ag_by_id := AList.update dbID name (ag_by_id s)\<rparr>"
    using Inr unfolding register_db_def by (simp split: if_splits option.splits)
  with agent_ok_update [OF assms(1) i] show ?thesis by simp
qed

lemma CreateDatabase_ok:
  assumes "agent_ok s" shows "agent_ok (snd (CreateDatabase ctx mkdir name dbID s))"
proof -
  have fr: "agent_ok (s\<lparr>ag_fail := x\<rparr>)" "agent_ok (s\<lparr>ag_hang := x\<rparr>)" for x
    using assms by (simp_all add: agent_ok_def)
  show ?thesis
    unfolding CreateDatabase_eq by (simp add: assms fr register_db_ok split: option.split)
qed

lemma DeleteDatabase_ok:
  assumes "agent_ok s" shows "agent_ok (snd (DeleteDatabase dbID s))"
proof (cases "map_of (ag_by_id s) dbID")
  case (Some n)
  have "inverse_maps ((map_of (ag_by_name s))(n := None)) ((map_of (ag_by_id s))(dbID := None))"
    using assms Some by (intro inverse_delete) (simp_all add: agent_ok_def)
  from agent_ok_delete [OF assms this] Some assms show ?thesis by (simp add: DeleteDatabase_def)
qed (use assms in \<open>simp add: DeleteDatabase_def\<close>)

lemma evacuate_ok:
  assumes "agent_ok s" shows "agent_ok (evacuate dbID s)"
proof (cases "map_of (ag_by_id s) dbID")
  case None
  have "(map_of (ag_by_name s))([] := None) = map_of (ag_by_name s)"
    "(map_of (ag_by_id s))(dbID := None) = map_of (ag_by_id s)"
    using assms None by (simp_all add: agent_ok_def inverse_maps_def fun_upd_idem)
  then have "inverse_maps ((map_of (ag_by_name s))([] := None)) ((map_of (ag_by_id s))(dbID := None))"
    using assms by (simp add: agent_ok_def)
  from agent_ok_delete [OF assms this] None show ?thesis by (simp add: evacuate_def)
next
  case (Some n)
  have "inverse_maps ((map_of (ag_by_name s))(n := None)) ((map_of (ag_by_id s))(dbID := None))"
    using assms Some by (intro inverse_delete) (simp_all add: agent_ok_def)
  from agent_ok_delete [OF assms this] Some show ?thesis by (simp add: evacuate_def)
qed

section \<open>Reachable agents\<close>

text \<open>
  The critical sections of concurrent calls in any order; the turns of a drain appear one by
  one, so other calls may run between them.
\<close>

inductive agent_step :: "agent \<Rightarrow> agent \<Rightarrow> bool" where
  create: "agent_step s (snd (CreateDatabase ctx mkdir name dbID s))"
| delete: "agent_step s (snd (DeleteDatabase dbID s))"
| evacuate: "agent_step s (evacuate dbID s)"
| insert_vector: "agent_step s (snd (InsertVector dbID vecID data embedding metadata s))"
| inject: "agent_step s (inject_failure attempts hang s)"

inductive agent_reach :: "string \<Rightarrow> string \<Rightarrow> agent \<Rightarrow> bool" for dataDir hostname where
  new: "agent_reach dataDir hostname (NewServer dataDir hostname)"
| step: "agent_reach dataDir hostname s \<Longrightarrow> agent_step s s' \<Longrightarrow> agent_reach dataDir hostname s'"

lemma InsertVector_frame [simp]:
  "ag_by_name (snd (InsertVector dbID vecID data embedding metadata s)) = ag_by_name s"
  "ag_by_id (snd (InsertVector dbID vecID data embedding metadata s)) = ag_by_id s"
  by (simp_all add: InsertVector_def Let_def)

lemma agent_ok_others:
  "agent_ok s \<Longrightarrow> agent_ok (snd (InsertVector dbID vecID data embedding metadata s))"
  "agent_ok s \<Longrightarrow> agent_ok (inject_failure attempts hang s)"
  by (simp_all add: agent_ok_def inject_failure_def)

lemma agent_step_ok: "agent_step s s' \<Longrightarrow> agent_ok s \<Longrightarrow> agent_ok s'"
  by (cases rule: agent_step.cases) (auto simp: CreateDatabase_ok DeleteDatabase_ok evacuate_ok agent_ok_others)

lemma agent_reach_ok: "agent_reach dataDir hostname s \<Longrightarrow> agent_ok s"
  by (induction rule: agent_reach.induct) (auto simp: agent_ok_new dest: agent_step_ok)

text \<open>
  C33. On every interleaving of calls the two maps of a node agent stay inverse: a name is
  registered for an ID exactly when the ID is registered for the name, and the empty name
  and ID never are. So no two databases of a node share a name or an ID.
\<close>

theorem agent_maps_inverse:
  assumes "agent_reach dataDir hostname s"
  shows "(map_of (ag_by_name s) n = Some i \<longleftrightarrow> map_of (ag_by_id s) i = Some n) \<and>
    map_of (ag_by_name s) [] = None \<and> map_of (ag_by_id s) [] = None"
  using agent_reach_ok [OF assms] by (simp add: agent_ok_def inverse_maps_def del: map_of_eq_Some_iff)

section \<open>Creating, deleting, draining\<close>

definition no_faults :: "agent \<Rightarrow> bool" where
  "no_faults s \<longleftrightarrow> ag_fail s \<le> 0 \<and> ag_hang s \<le> 0"

text \<open>
  Creation is idempotent and exclusive: once a creation succeeded on a node without
  injected faults, repeating it succeeds with the same endpoint and leaves the lookups as
  they are, while its name with another ID, or its ID with another name, is refused with
  \<^verbatim>\<open>AlreadyExists\<close> and changes nothing.
\<close>

theorem CreateDatabase_exclusive:
  assumes "CreateDatabase ctx mkdir name dbID s = (Inr r, s')" and "cr_success r" and "no_faults s"
  shows "fst (CreateDatabase ctx' None name dbID s') = Inr r \<and>
    map_of (ag_by_id (snd (CreateDatabase ctx' None name dbID s'))) = map_of (ag_by_id s') \<and>
    map_of (ag_by_id s') dbID = Some name \<and>
    (\<forall>i. i \<noteq> [] \<and> i \<noteq> dbID \<longrightarrow>
       (\<exists>msg. CreateDatabase ctx' mkdir' name i s' = (Inl (Status AlreadyExists msg), s'))) \<and>
    (\<forall>n. n \<noteq> [] \<and> n \<noteq> name \<longrightarrow>
       (\<exists>msg. CreateDatabase ctx' mkdir' n dbID s' = (Inl (Status AlreadyExists msg), s')))"
proof -
  have ne: "name \<noteq> []" "dbID \<noteq> []" using assms(1) by (auto simp: CreateDatabase_eq split: if_splits)
  have nf: "\<not> ag_fail s > 0" "\<not> ag_hang s > 0" using assms(3) by (simp_all add: no_faults_def)
  then have "register_db mkdir name dbID s = (Inr r, s')"
    using assms(1) ne by (simp add: CreateDatabase_eq)
  then have r: "r = \<lparr>cr_success = True, cr_endpoint = ag_hostname s @ ''/db/'' @ dbID, cr_error = []\<rparr>"
    and s': "s' = s\<lparr>ag_dirs := List.insert (join_path (ag_data_dir s) dbID) (ag_dirs s),
             ag_by_name := AList.update name dbID (ag_by_name s),
             ag_by_id := AList.update dbID name (ag_by_id s)\<rparr>"
    unfolding register_db_def by (simp_all split: if_splits option.splits)
  have eq: "CreateDatabase ctx' m n i s' = register_db m n i s'" if "n \<noteq> []" "i \<noteq> []" for m n i
    using that nf by (simp add: CreateDatabase_eq s')
  have "fst (register_db None name dbID s') = Inr r"
    "map_of (ag_by_id (snd (register_db None name dbID s'))) = map_of (ag_by_id s')"
    "map_of (ag_by_id s') dbID = Some name"
    by (simp_all add: register_db_def s' r del: map_of_eq_Some_iff)
  moreover have "\<exists>msg. register_db mkdir' name i s' = (Inl (Status AlreadyExists msg), s')" if "i \<noteq> dbID" for i
    using that by (simp add: register_db_def s' del: map_of_eq_Some_iff)
  moreover have "\<exists>msg. register_db mkdir' n dbID s' = (Inl (Status AlreadyExists msg), s')" if "n \<noteq> name" for n
    using that unfolding register_db_def by (auto simp: s' simp del: map_of_eq_Some_iff split: option.splits)
  ultimately show ?thesis using ne by (simp add: eq del: map_of_eq_Some_iff)
qed

lemma evacuate_id [simp]: "map_of (ag_by_id (evacuate d s)) = (map_of (ag_by_id s))(d := None)"
  by (simp add: evacuate_def Let_def)

lemma fold_evacuate: "map_of (ag_by_id (fold evacuate ds s)) i = (if i \<in> set ds then None else map_of (ag_by_id s) i)"
  by (induction ds arbitrary: s) (auto simp del: map_of_eq_Some_iff)

lemma fold_evacuate_ok: "agent_ok s \<Longrightarrow> agent_ok (fold evacuate ds s)"
  by (induction ds arbitrary: s) (simp_all add: evacuate_ok)

lemma fold_evacuate_vectors [simp]: "ag_vectors (fold evacuate ds s) = ag_vectors s"
  by (induction ds arbitrary: s) (simp_all add: evacuate_def Let_def)

text \<open>
  A drain that nothing interleaves with leaves no database on the node, in either map,
  and reports how many there were, whatever the order in which the map is ranged over.
\<close>

theorem DrainNode_empties:
  assumes "agent_ok s" and "set (rng (map fst (ag_by_id s))) = fst ` set (ag_by_id s)"
    and "length (rng (map fst (ag_by_id s))) = length (ag_by_id s)" and "length (ag_by_id s) < 2 ^ 31"
  shows "fst (DrainNode rng s) = (True, int (length (ag_by_id s))) \<and>
    ag_by_id (snd (DrainNode rng s)) = [] \<and> ag_by_name (snd (DrainNode rng s)) = []"
proof -
  let ?s = "snd (DrainNode rng s)"
  have "map_of (ag_by_id ?s) i = None" for i
    using assms(2) by (auto simp: DrainNode_def Let_def fold_evacuate map_of_eq_None_iff)
  then have "map_of (ag_by_id ?s) = Map.empty" by (rule ext)
  then have id: "ag_by_id ?s = []" by (simp only: map_of_eq_empty_iff)
  have "agent_ok ?s" using assms(1) by (simp add: DrainNode_def Let_def fold_evacuate_ok)
  then have "map_of (ag_by_name ?s) n \<noteq> Some i" for n i
    using id by (simp add: agent_ok_def inverse_maps_def del: map_of_eq_Some_iff)
  then have "map_of (ag_by_name ?s) = Map.empty" by (intro ext) (metis not_None_eq)
  then have "ag_by_name ?s = []" by (simp only: map_of_eq_empty_iff)
  moreover have "int32 (int (length (ag_by_id s))) = int (length (ag_by_id s))"
    using assms(4) by (intro int32_id) simp_all
  ultimately show ?thesis using id assms(3) by (simp add: DrainNode_def Let_def)
qed

text \<open>
  Vectors outlive their database: deleting a database and draining the node both leave
  every stored vector in place, so a search of a deleted database still answers from its
  vectors and a new database of the same ID starts with them.
\<close>

theorem vectors_survive_delete:
  "ag_vectors (snd (DeleteDatabase dbID s)) = ag_vectors s \<and>
   ag_vectors (snd (DrainNode rng s)) = ag_vectors s"
  by (auto simp: DeleteDatabase_def DrainNode_def Let_def split: option.splits)

text \<open>
  Sequence numbers: each stored vector gets the next number, strictly above all earlier
  ones, until the 64-bit counter wraps to zero after \<open>2 ^ 64 - 1\<close> inserts.
\<close>

theorem InsertVector_lsn:
  assumes "InsertVector dbID vecID data emb meta s = (Inr lsn, s')"
  shows "ag_next_lsn s' = lsn \<and>
    (if ag_next_lsn s = - 1 then lsn = 0 else unat lsn = unat (ag_next_lsn s) + 1) \<and>
    map_of (ag_vectors s' (default_db dbID)) vecID =
      Some \<lparr>ve_id = vecID, ve_data = data, ve_embedding = emb, ve_metadata = meta\<rparr>"
proof -
  have lsn: "lsn = ag_next_lsn s + 1" and s': "ag_next_lsn s' = lsn"
    "map_of (ag_vectors s' (default_db dbID)) vecID =
      Some \<lparr>ve_id = vecID, ve_data = data, ve_embedding = emb, ve_metadata = meta\<rparr>"
    using assms by (auto simp: InsertVector_def Let_def simp del: map_of_eq_Some_iff split: if_splits)
  show ?thesis
  proof (cases "ag_next_lsn s = - 1")
    case False
    then have "lsn \<noteq> 0" using lsn by (metis add.commute add_eq_0_iff)
    then have "unat lsn = unat (ag_next_lsn s) + 1"
      using unatSuc [of "ag_next_lsn s"] by (simp add: lsn add.commute)
    with False s' show ?thesis by simp
  qed (use lsn s' in simp)
qed

text \<open>
  Database IDs are joined to the data directory unchecked, and joining cleans the path:
  a database whose ID is \<^verbatim>\<open>..\<close> has the parent of the data directory as its
  own, and deleting it removes every directory below that parent, those of all other
  databases included.
\<close>

theorem DeleteDatabase_escapes_data_dir:
  "join_path ''/var/data'' ''..'' = ''/var'' \<and>
   remove_all (join_path ''/var/data'' ''..'') [''/var/data/db1'', ''/var/log'', ''/home''] = [''/home''] \<and>
   fst (DeleteDatabase ''..'' (snd (CreateDatabase None None ''evil'' ''..'' (NewServer ''/var/data'' ''h'')))) = Inr True"
  by (intro conjI; code_simp)

section \<open>A concrete node\<close>

definition demo_agent :: agent where
  "demo_agent = snd (CreateDatabase None None ''orders'' ''db1'' (NewServer ''data'' ''worker-1''))"

lemma demo_create:
  "CreateDatabase None None ''orders'' ''db1'' (NewServer ''data'' ''worker-1'') =
     (Inr \<lparr>cr_success = True, cr_endpoint = ''worker-1/db/db1'', cr_error = []\<rparr>, demo_agent)"
proof -
  have "fst (CreateDatabase None None ''orders'' ''db1'' (NewServer ''data'' ''worker-1'')) =
      Inr \<lparr>cr_success = True, cr_endpoint = ''worker-1/db/db1'', cr_error = []\<rparr>" by code_simp
  then show ?thesis unfolding demo_agent_def by (metis prod.collapse)
qed

theorem agent_maps_inverse_witness:
  "map_of (ag_by_name demo_agent) ''orders'' = Some ''db1'' \<longleftrightarrow> map_of (ag_by_id demo_agent) ''db1'' = Some ''orders''"
proof (rule conjunct1 [OF agent_maps_inverse])
  show "agent_reach ''data'' ''worker-1'' demo_agent"
    unfolding demo_agent_def by (intro agent_reach.step [OF agent_reach.new] agent_step.create)
qed

theorem CreateDatabase_exclusive_witness:
  "\<exists>msg. CreateDatabase None None ''other'' ''db1'' demo_agent = (Inl (Status AlreadyExists msg), demo_agent)"
proof -
  have "no_faults (NewServer ''data'' ''worker-1'')" by (simp add: no_faults_def NewServer_def)
  then have "\<forall>n. n \<noteq> [] \<and> n \<noteq> ''orders'' \<longrightarrow>
      (\<exists>msg. CreateDatabase None None n ''db1'' demo_agent = (Inl (Status AlreadyExists msg), demo_agent))"
    using CreateDatabase_exclusive [OF demo_create, where ctx' = None and mkdir' = None] by simp
  then show ?thesis by (rule spec [where x = "''other''", THEN mp]) simp
qed

theorem DrainNode_empties_witness:
  "fst (DrainNode (go_range 0) demo_agent) = (True, int (length (ag_by_id demo_agent))) \<and>
    ag_by_id (snd (DrainNode (go_range 0) demo_agent)) = [] \<and> ag_by_name (snd (DrainNode (go_range 0) demo_agent)) = []"
proof (rule DrainNode_empties)
  show "agent_ok demo_agent" unfolding demo_agent_def by (rule CreateDatabase_ok [OF agent_ok_new])
  show "set (go_range 0 (map fst (ag_by_id demo_agent))) = fst ` set (ag_by_id demo_agent)"
    unfolding ranged.rng_set list.set_map ..
  show "length (go_range 0 (map fst (ag_by_id demo_agent))) = length (ag_by_id demo_agent)"
    unfolding ranged.rng_length length_map ..
  show "length (ag_by_id demo_agent) < 2 ^ 31"
    by (simp add: demo_agent_def CreateDatabase_def NewServer_def)
qed

theorem InsertVector_lsn_witness:
  "\<exists>lsn s'. InsertVector ''db1'' ''v1'' ''x'' [Fin 1] None demo_agent = (Inr lsn, s') \<and>
     map_of (ag_vectors s' (default_db ''db1'')) ''v1'' =
       Some \<lparr>ve_id = ''v1'', ve_data = ''x'', ve_embedding = [Fin 1], ve_metadata = None\<rparr>"
proof -
  obtain lsn s' where "InsertVector ''db1'' ''v1'' ''x'' [Fin 1] None demo_agent = (Inr lsn, s')"
    by (simp add: InsertVector_def Let_def)
  with InsertVector_lsn [OF this] show ?thesis by blast
qed

end
