(* ===== verification/Vector_Search.thy ===== *)
theory Vector_Search
  imports Agent
begin

text \<open>
  The vector search of \<^verbatim>\<open>services/worker-node/agent/server.go\<close>: cosine
  similarity in single precision, the metadata filter and the ranking. Ranging over a map
  takes the order as an argument, and sorting the routine.
\<close>

section \<open>Similarity\<close>

fun cosine_loop :: "go_float list \<Rightarrow> go_float list \<Rightarrow> go_float \<Rightarrow> go_float \<Rightarrow> go_float \<Rightarrow> go_float \<times> go_float \<times> go_float" where
  "cosine_loop (x # a) (y # b) dot normA normB =
     cosine_loop a b (fadd F32 dot (fmul F32 x y)) (fadd F32 normA (fmul F32 x x)) (fadd F32 normB (fmul F32 y y))"
| "cosine_loop _ _ dot normA normB = (dot, normA, normB)"

text \<open>\<^verbatim>\<open>float32(math.Sqrt(float64(x)))\<close>; widening is exact.\<close>

definition sqrt32 :: "go_float \<Rightarrow> go_float" where
  "sqrt32 x = fconv F32 (fsqrt F64 (fconv F64 x))"

definition cosineSimilarity :: "go_float list \<Rightarrow> go_float list \<Rightarrow> go_float" where
  "cosineSimilarity a b =
     (if length a \<noteq> length b \<or> length a = 0 then Fin 0
      else let (dot, normA, normB) = cosine_loop a b (Fin 0) (Fin 0) (Fin 0)
           in if feq normA (Fin 0) \<or> feq normB (Fin 0) then Fin 0
              else fdiv F32 dot (fmul F32 (sqrt32 normA) (sqrt32 normB)))"

section \<open>The metadata filter\<close>

definition quotes :: string where
  "quotes = [char_of (39 :: nat), dquote]"

text \<open>Keys are looked up trimmed and lower-cased; a missing key reads as the empty string.\<close>

definition filter_lookup :: "(string \<times> string) list \<Rightarrow> string \<Rightarrow> string" where
  "filter_lookup meta =
     fold (\<lambda>(k, v) look. look(to_lower (trim_space k) := trim_space v)) meta (\<lambda>_. [])"

definition filter_clauses :: "string \<Rightarrow> string list" where
  "filter_clauses expr =
     (if str_contains (to_upper expr) '' AND ''
      then (let clauses = str_split '' AND '' expr
            in if length clauses \<le> 1 then str_split '' and '' expr else clauses)
      else if str_contains expr '','' then str_split '','' expr
      else [expr])"

text \<open>The two sides of a clause around the operator.\<close>

definition clause_key :: "string \<Rightarrow> string \<Rightarrow> string" where
  "clause_key clause oper = to_lower (trim_space (split_two clause oper ! 0))"

definition clause_val :: "string \<Rightarrow> string \<Rightarrow> string" where
  "clause_val clause oper = trim_set (trim_space (split_two clause oper ! 1)) quotes"

text \<open>A clause that refuses the entry; one without an operator refuses nothing.\<close>

definition clause_refuses :: "(string \<Rightarrow> string) \<Rightarrow> string \<Rightarrow> bool" where
  "clause_refuses lookup clause0 =
     (let clause = trim_space clause0
      in if clause = [] then False
         else if str_contains clause ''!='' then equal_fold (lookup (clause_key clause ''!='')) (clause_val clause ''!='')
         else if str_contains clause ''=='' then \<not> equal_fold (lookup (clause_key clause ''=='')) (clause_val clause ''=='')
         else if str_contains clause ''='' then \<not> equal_fold (lookup (clause_key clause ''='')) (clause_val clause ''='')
         else False)"

fun clause_loop :: "(string \<Rightarrow> string) \<Rightarrow> string list \<Rightarrow> bool" where
  "clause_loop lookup [] = True"
| "clause_loop lookup (c # cs) = (if clause_refuses lookup c then False else clause_loop lookup cs)"

definition matchesFilter ::
  "((string \<times> string) list \<Rightarrow> (string \<times> string) list) \<Rightarrow> (string \<times> string) list option \<Rightarrow> string \<Rightarrow> bool" where
  "matchesFilter rng meta filterExpr =
     (let expr = trim_space filterExpr
      in if expr = [] then True
         else case meta of
           None \<Rightarrow> False
         | Some m \<Rightarrow> clause_loop (filter_lookup (rng m)) (filter_clauses expr))"

section \<open>Search\<close>

type_synonym scored_result = "string \<times> go_float"
type_synonym result_sort = "(scored_result \<Rightarrow> scored_result \<Rightarrow> bool) \<Rightarrow> scored_result list \<Rightarrow> scored_result list"
type_synonym meta_range = "(string \<times> string) list \<Rightarrow> (string \<times> string) list"
type_synonym entry_range = "(string \<times> vector_entry) list \<Rightarrow> (string \<times> vector_entry) list"

definition search_candidates :: "meta_range \<Rightarrow> entry_range \<Rightarrow> string \<Rightarrow> string \<Rightarrow> agent \<Rightarrow> vector_entry list" where
  "search_candidates rngm rng dbID filterExpr s =
     filter (\<lambda>v. matchesFilter rngm (ve_metadata v) filterExpr)
       (map snd (rng (ag_vectors s (default_db dbID))))"

definition score_entry :: "go_float list \<Rightarrow> vector_entry \<Rightarrow> scored_result" where
  "score_entry query c = (ve_id c, cosineSimilarity query (ve_embedding c))"

definition more_similar :: "scored_result \<Rightarrow> scored_result \<Rightarrow> bool" where
  "more_similar a b = flt (snd b) (snd a)"

definition effective_k :: "int \<Rightarrow> int" where
  "effective_k topK = (if topK \<le> 0 then 10 else topK)"

definition SearchVector ::
  "result_sort \<Rightarrow> meta_range \<Rightarrow> entry_range \<Rightarrow> string \<Rightarrow> go_float list \<Rightarrow> int \<Rightarrow> string \<Rightarrow> agent \<Rightarrow>
   scored_result list" where
  "SearchVector srt rngm rng dbID query topK filterExpr s =
     (let scored = map (score_entry query) (search_candidates rngm rng dbID filterExpr s);
          sorted = srt more_similar scored;
          k = effective_k topK
      in take (if k > int (length scored) then length scored else nat k) sorted)"

section \<open>Facts\<close>

lemma cosine_loop_swap:
  "length a = length b \<Longrightarrow>
   cosine_loop b a dot normB normA =
     (case cosine_loop a b dot normA normB of (d, na, nb) \<Rightarrow> (d, nb, na))"
proof (induction a b dot normA normB rule: cosine_loop.induct)
  case (1 x a y b dot normA normB)
  then show ?case by (simp add: fmul_comm [of F32 y x])
qed auto

lemma clause_loop_all: "clause_loop lookup cs \<longleftrightarrow> (\<forall>c \<in> set cs. \<not> clause_refuses lookup c)"
  by (induction cs) auto

section \<open>Plain clauses\<close>

text \<open>A plain word has none of the characters the filter language uses.\<close>

definition plain :: "string \<Rightarrow> bool" where
  "plain w \<longleftrightarrow> w \<noteq> [] \<and>
     (\<forall>c \<in> set w. \<not> is_space c \<and> c \<notin> {CHR '','', CHR ''='', CHR ''!''} \<and> c \<notin> set quotes)"

definition plain_clause :: "string \<times> string \<Rightarrow> string" where
  "plain_clause kv = fst kv @ ''='' @ snd kv"

lemma str_contains_chars: "str_contains s sub \<Longrightarrow> set sub \<subseteq> set s"
  by (auto simp: str_contains_iff)

lemma upper_char_space: "upper_char c = CHR '' '' \<Longrightarrow> c = CHR '' ''"
proof -
  have "(of_char (upper_char c) :: nat) \<noteq> 32 \<or> c = CHR '' ''"
  proof (cases "97 \<le> (of_char c :: nat) \<and> (of_char c :: nat) \<le> 122")
    case True
    then have lt: "(of_char c :: nat) - 32 < 256" by linarith
    have "(of_char (upper_char c) :: nat) = (of_char c - 32) mod 256"
      using True by (simp add: upper_char_def Let_def)
    then have "(of_char (upper_char c) :: nat) = of_char c - 32" using lt by (simp only: mod_less)
    with True have "(of_char (upper_char c) :: nat) \<noteq> 32" by linarith
    then show ?thesis ..
  next
    case False
    then have "upper_char c = c" by (auto simp: upper_char_def Let_def)
    moreover have "c = char_of (of_char c :: nat)" by simp
    moreover have "char_of (32 :: nat) = CHR '' ''" by code_simp
    ultimately show ?thesis by metis
  qed
  then show "upper_char c = CHR '' '' \<Longrightarrow> c = CHR '' ''" by auto
qed

lemma trim_space_plain:
  assumes "s \<noteq> []" and "\<not> is_space (hd s)" and "\<not> is_space (last s)"
  shows "trim_space s = s"
  unfolding trim_space_def by (rule trim_by_id) (use assms in simp)

lemma plainD:
  assumes "plain w"
  shows "w \<noteq> []" and "c \<in> set w \<Longrightarrow> \<not> is_space c" and "CHR '','' \<notin> set w" and "CHR ''='' \<notin> set w"
    and "CHR ''!'' \<notin> set w" and "c \<in> set w \<Longrightarrow> c \<notin> set quotes"
  using assms unfolding plain_def by blast+

lemma plain_trim:
  assumes "plain w" shows "trim_space w = w" and "trim_set w quotes = w"
proof -
  have hl: "hd w \<in> set w" "last w \<in> set w" using plainD(1) [OF assms] by simp_all
  show "trim_space w = w"
    by (rule trim_space_plain [OF plainD(1) [OF assms] plainD(2) [OF assms hl(1)] plainD(2) [OF assms hl(2)]])
  show "trim_set w quotes = w"
    unfolding trim_set_def using plainD(6) [OF assms hl(1)] plainD(6) [OF assms hl(2)] by (intro trim_by_id) blast
qed

lemma set_plain_clause: "set (plain_clause (k, v)) = insert (CHR ''='') (set k \<union> set v)"
  by (simp add: plain_clause_def)

lemma plain_clause_chars:
  assumes "plain k" and "plain v"
  shows "plain_clause (k, v) \<noteq> []" and "CHR '','' \<notin> set (plain_clause (k, v))"
    and "c \<in> set (plain_clause (k, v)) \<Longrightarrow> \<not> is_space c" and "CHR ''!'' \<notin> set (plain_clause (k, v))"
proof -
  have "\<not> is_space (CHR ''='')" by code_simp
  then show "\<not> is_space c" if "c \<in> set (plain_clause (k, v))" for c
    using that plainD(2) [OF assms(1), of c] plainD(2) [OF assms(2), of c] unfolding set_plain_clause by blast
  show "plain_clause (k, v) \<noteq> []" by (simp add: plain_clause_def)
  show "CHR '','' \<notin> set (plain_clause (k, v))" "CHR ''!'' \<notin> set (plain_clause (k, v))"
    unfolding set_plain_clause using plainD(3,5) [OF assms(1)] plainD(3,5) [OF assms(2)] by simp_all
qed

abbreviation equals_signs :: "string \<Rightarrow> nat" where
  "equals_signs s \<equiv> length (filter (\<lambda>c. c = CHR ''='') s)"

lemma plain_clause_no_eqeq:
  assumes "plain k" and "plain v"
  shows "\<not> str_contains (plain_clause (k, v)) ''==''"
proof
  assume "str_contains (plain_clause (k, v)) ''==''"
  then obtain a b where ab: "k @ ''='' @ v = a @ ''=='' @ b" unfolding str_contains_iff plain_clause_def by auto
  have "equals_signs w = 0" if "plain w" for w
    using plainD(4) [OF that] by (auto simp: filter_empty_conv)
  then have "equals_signs (k @ ''='' @ v) = 1" using assms by simp
  moreover have "equals_signs (a @ ''=='' @ b) = equals_signs a + equals_signs b + 2" by simp
  ultimately show False unfolding ab by simp
qed

lemma clause_refuses_plain:
  assumes "plain k" and "plain v"
  shows "clause_refuses lookup (plain_clause (k, v)) \<longleftrightarrow> \<not> equal_fold (lookup (to_lower k)) v"
proof -
  note ch = plain_clause_chars [OF assms]
  have tr: "trim_space (plain_clause (k, v)) = plain_clause (k, v)"
    by (rule trim_space_plain [OF ch(1)]) (rule ch(3), simp add: ch(1))+
  have ne: "\<not> str_contains (plain_clause (k, v)) ''!=''"
    using ch(4) str_contains_chars [of "plain_clause (k, v)" "''!=''"] by auto
  have eq: "str_contains (plain_clause (k, v)) ''=''"
    unfolding str_contains_iff plain_clause_def by auto
  have sp: "split_two (plain_clause (k, v)) ''='' = [k, v]"
    using str_cut_char [OF plainD(4) [OF assms(1)], of v] by (simp add: split_two_def plain_clause_def)
  show ?thesis
    unfolding clause_refuses_def Let_def tr clause_key_def clause_val_def sp
    using ch(1) ne eq plain_clause_no_eqeq [OF assms]
    by (simp only: if_False if_True simp_thms nth_Cons_0 One_nat_def nth_Cons_Suc plain_trim [OF assms(1)] plain_trim [OF assms(2)])
qed

lemma str_split_join:
  "cs \<noteq> [] \<Longrightarrow> \<forall>c \<in> set cs. d \<notin> set c \<Longrightarrow> str_split [d] (str_join [d] cs) = cs"
proof (induction cs)
  case (Cons c cs)
  then show ?case
    by (cases "cs = []") (simp_all add: str_split_char str_join_Cons)
qed simp

lemma set_str_join: "set (str_join [d] cs) \<subseteq> insert d (\<Union> (set ` set cs))"
proof (induction cs)
  case (Cons c cs)
  then show ?case by (cases "cs = []") (auto simp: str_join_Cons)
qed simp

section \<open>What the search promises\<close>

lemma search_scored_not_NaN:
  assumes "\<And>v. v \<in> snd ` set (rng (ag_vectors s (default_db dbID))) \<Longrightarrow> cosineSimilarity query (ve_embedding v) \<noteq> NaN"
  shows "strict_weak_on (set (map (score_entry query) (search_candidates rngm rng dbID f s))) more_similar"
proof -
  have "snd x \<noteq> NaN" if x: "x \<in> set (map (score_entry query) (search_candidates rngm rng dbID f s))" for x
  proof -
    obtain v where "v \<in> snd ` set (rng (ag_vectors s (default_db dbID)))" "x = score_entry query v"
      using x unfolding search_candidates_def by auto
    with assms show ?thesis by (simp add: score_entry_def)
  qed
  from strict_weak_flt(2) [of _ snd, OF this] show ?thesis by (simp add: more_similar_def [abs_def])
qed

text \<open>
  C34. Top k: when no similarity is NaN, a search returns as many results as it should, the
  best \<open>k\<close> of the matching vectors of the database (ten when \<open>k\<close> is not positive), each with
  its similarity, in descending order; no vector left out beats one returned. This holds for
  every sorting routine and every order of ranging over the maps.
\<close>

theorem SearchVector_top_k:
  fixes query dbID f s rngm rng
  defines "scored \<equiv> map (score_entry query) (search_candidates rngm rng dbID f s)"
  assumes "slice_sort srt"
    and "\<And>v. v \<in> snd ` set (rng (ag_vectors s (default_db dbID))) \<Longrightarrow> cosineSimilarity query (ve_embedding v) \<noteq> NaN"
    and "res = SearchVector srt rngm rng dbID query topK f s"
  shows "int (length res) = min (if topK \<le> 0 then 10 else topK) (int (length scored)) \<and>
    mset res \<subseteq># mset scored \<and>
    sorted_wrt (\<lambda>a b. \<not> flt (snd a) (snd b)) res \<and>
    (\<forall>x. x \<in># mset scored - mset res \<longrightarrow> (\<forall>r \<in> set res. \<not> flt (snd r) (snd x)))"
proof -
  note srt_take = slice_sort.srt_take_subset [OF assms(2)] slice_sort.srt_take_sorted [OF assms(2)]
    slice_sort.srt_take_best [OF assms(2)] slice_sort.srt_length [OF assms(2)]
  have sw: "strict_weak_on (set scored) more_similar"
    unfolding scored_def by (rule search_scored_not_NaN) (rule assms(3))
  let ?n = "if effective_k topK > int (length scored) then length scored else nat (effective_k topK)"
  have res: "res = take ?n (srt more_similar scored)"
    by (simp add: assms(4) SearchVector_def Let_def scored_def)
  have "int (length res) = min (effective_k topK) (int (length scored))"
    by (simp add: res srt_take(4) effective_k_def)
  moreover have "mset res \<subseteq># mset scored" unfolding res by (rule srt_take(1))
  moreover have "sorted_wrt (\<lambda>a b. \<not> flt (snd a) (snd b)) res"
    using srt_take(2) [OF sw] unfolding res more_similar_def .
  moreover have "\<not> flt (snd r) (snd x)" if "x \<in># mset scored - mset res" "r \<in> set res" for x r
    using srt_take(3) [OF sw that(2) [unfolded res] that(1) [unfolded res]] by (simp add: more_similar_def)
  ultimately show ?thesis by (simp add: effective_k_def)
qed

text \<open>
  Cosine similarity is symmetric, rounding, overflow and NaN included, and vectors of
  different lengths, empty vectors and zero vectors have similarity zero.
\<close>

theorem cosineSimilarity_symmetric:
  "cosineSimilarity a b = cosineSimilarity b a \<and>
   (length a \<noteq> length b \<or> a = [] \<longrightarrow> cosineSimilarity a b = Fin 0)"
proof (cases "length a = length b")
  case True
  obtain d na nb where l: "cosine_loop a b (Fin 0) (Fin 0) (Fin 0) = (d, na, nb)" by (metis prod_cases3)
  have "cosine_loop b a (Fin 0) (Fin 0) (Fin 0) = (d, nb, na)" using cosine_loop_swap [OF True] by (simp add: l)
  with True l show ?thesis
    by (auto simp: cosineSimilarity_def fmul_comm [of F32 "sqrt32 nb"])
qed (simp add: cosineSimilarity_def)

text \<open>
  The filter: for plain words, a comma-separated list of \<^verbatim>\<open>key=value\<close> clauses
  matches exactly when the entry has metadata and every named key, looked up without regard
  to case, has its value, compared without regard to case.
\<close>

theorem matchesFilter_conjunction:
  assumes "kvs \<noteq> []" and "\<forall>(k, v) \<in> set kvs. plain k \<and> plain v"
  shows "matchesFilter rng meta (str_join '','' (map plain_clause kvs)) \<longleftrightarrow>
    (\<exists>m. meta = Some m \<and> (\<forall>(k, v) \<in> set kvs. equal_fold (filter_lookup (rng m) (to_lower k)) v))"
proof -
  let ?cs = "map plain_clause kvs" and ?e = "str_join '','' (map plain_clause kvs)"
  have cl: "c \<noteq> []" "CHR '','' \<notin> set c" "\<And>x. x \<in> set c \<Longrightarrow> \<not> is_space x" if c: "c \<in> set ?cs" for c
  proof -
    obtain k v where kv: "(k, v) \<in> set kvs" "c = plain_clause (k, v)" using c by auto
    then have "plain k" "plain v" using assms(2) by auto
    note ch = plain_clause_chars [OF this]
    show "c \<noteq> []" "CHR '','' \<notin> set c" "\<And>x. x \<in> set c \<Longrightarrow> \<not> is_space x" using ch by (simp_all only: kv not_False_eq_True)
  qed
  have "\<not> is_space (CHR '','')" by code_simp
  then have sp: "\<not> is_space c" if "c \<in> set ?e" for c
    using that set_str_join [of "CHR '',''" ?cs] cl(3) by blast
  have ne: "?e \<noteq> []"
  proof -
    obtain c cs where "?cs = c # cs" using assms(1) by (cases kvs) auto
    with cl(1) [of c] show ?thesis by (cases cs) auto
  qed
  have tr: "trim_space ?e = ?e"
    by (rule trim_space_plain [OF ne]) (rule sp, simp only: hd_in_set last_in_set ne not_False_eq_True)+
  have no_and: "\<not> str_contains (to_upper ?e) '' AND ''"
  proof
    assume "str_contains (to_upper ?e) '' AND ''"
    then have "CHR '' '' \<in> set (to_upper ?e)" using str_contains_chars by fastforce
    then have "CHR '' '' \<in> set ?e" unfolding to_upper_def using upper_char_space by force
    moreover have "is_space (CHR '' '')" by code_simp
    ultimately show False using sp by blast
  qed
  have split: "str_split '','' ?e = ?cs" by (rule str_split_join) (use assms(1) cl(2) in auto)
  have "filter_clauses ?e = ?cs"
  proof (cases "str_contains ?e '',''")
    case True
    with no_and split show ?thesis by (simp only: filter_clauses_def if_False if_True)
  next
    case False
    with split str_split_no_sep [of "'',''" ?e] no_and show ?thesis by (simp only: filter_clauses_def if_False list.distinct simp_thms not_False_eq_True)
  qed
  moreover have "clause_loop look ?cs \<longleftrightarrow> (\<forall>(k, v) \<in> set kvs. equal_fold (look (to_lower k)) v)" for look
  proof -
    have "clause_refuses look (plain_clause kv) \<longleftrightarrow> \<not> (case kv of (k, v) \<Rightarrow> equal_fold (look (to_lower k)) v)"
      if "kv \<in> set kvs" for kv
      using bspec [OF assms(2) that] by (cases kv) (simp add: clause_refuses_plain)
    then show ?thesis unfolding clause_loop_all by (simp add: ball_simps(10))
  qed
  ultimately show ?thesis
    unfolding matchesFilter_def Let_def tr by (simp add: ne split: option.split)
qed

text \<open>
  The conjunction is only partly case-insensitive: \<^verbatim>\<open>AND\<close> in any case is
  recognised, but the text is split at the upper-case and the lower-case form only. With
  \<^verbatim>\<open>And\<close> the whole expression becomes one clause and an entry that has both
  values is refused.
\<close>

theorem matchesFilter_mixed_case_and:
  "matchesFilter (go_range 0) (Some [(''a'', ''1''), (''b'', ''2'')]) ''a=1 AND b=2'' \<and>
   matchesFilter (go_range 0) (Some [(''a'', ''1''), (''b'', ''2'')]) ''a=1 and b=2'' \<and>
   \<not> matchesFilter (go_range 0) (Some [(''a'', ''1''), (''b'', ''2'')]) ''a=1 And b=2''"
  by (intro conjI; code_simp)

section \<open>A concrete search\<close>

definition demo_vectors :: agent where
  "demo_vectors =
     snd (InsertVector ''db1'' ''v2'' [] [Fin 0, Fin 1] (Some [(''kind'', ''Blue'')])
       (snd (InsertVector ''db1'' ''v1'' [] [Fin 3, Fin 4] (Some [(''Kind'', ''red'')]) demo_agent)))"

theorem SearchVector_top_k_witness:
  "SearchVector go_isort (go_range 0) (go_range 1) ''db1'' [Fin 1, Fin 0] 1 [] demo_vectors =
     [(''v1'', fround F32 (3 / 5))] \<and>
   sorted_wrt (\<lambda>a b. \<not> flt (snd a) (snd b))
     (SearchVector go_isort (go_range 0) (go_range 1) ''db1'' [Fin 1, Fin 0] 1 [] demo_vectors)"
proof
  show "SearchVector go_isort (go_range 0) (go_range 1) ''db1'' [Fin 1, Fin 0] 1 [] demo_vectors =
     [(''v1'', fround F32 (3 / 5))]" by code_simp
  have "list_all (\<lambda>v. cosineSimilarity [Fin 1, Fin 0] (ve_embedding v) \<noteq> NaN)
      (map snd (go_range 1 (ag_vectors demo_vectors (default_db ''db1''))))" by code_simp
  then have no_nan: "cosineSimilarity [Fin 1, Fin 0] (ve_embedding v) \<noteq> NaN"
    if "v \<in> snd ` set (go_range 1 (ag_vectors demo_vectors (default_db ''db1'')))" for v
    using that unfolding list_all_iff set_map by blast
  show "sorted_wrt (\<lambda>a b. \<not> flt (snd a) (snd b))
     (SearchVector go_isort (go_range 0) (go_range 1) ''db1'' [Fin 1, Fin 0] 1 [] demo_vectors)"
    by (rule conjunct1 [OF conjunct2 [OF conjunct2 [OF SearchVector_top_k [OF isort.slice_sort_axioms no_nan refl]]]])
qed

theorem matchesFilter_conjunction_witness:
  "matchesFilter (go_range 0) (Some [('' Kind '', ''Red'')]) (str_join '','' (map plain_clause [(''KIND'', ''red'')])) \<longleftrightarrow>
    (\<exists>m. Some [('' Kind '', ''Red'')] = Some m \<and>
       (\<forall>(k, v) \<in> set [(''KIND'', ''red'')]. equal_fold (filter_lookup (go_range 0 m) (to_lower k)) v))"
proof (rule matchesFilter_conjunction)
  have "plain ''KIND'' \<and> plain ''red''" by code_simp
  then show "\<forall>(k, v) \<in> set [(''KIND'', ''red'')]. plain k \<and> plain v" by simp
qed simp

theorem cosineSimilarity_symmetric_witness:
  "cosineSimilarity [Fin 1] [Fin 1, Fin 2] = Fin 0"
  by (rule conjunct2 [OF cosineSimilarity_symmetric, THEN mp]) simp

end
