(* ===== verification/Provisioning.thy ===== *)
theory Provisioning
  imports Placement Health Agent
begin

text \<open>
  \<^verbatim>\<open>services/control-plane/orchestrator.go\<close> and
  \<^verbatim>\<open>reconciliation.go\<close>: provisioning a database by at most three attempts,
  each a conversation with the scheduler, the metadata service and a node agent, and the sweep
  that restarts provisioning. The remote services are a record of operations on a state
  \<open>'w\<close> of everything outside the control plane; other actors may change that state inside
  any operation. What \<^verbatim>\<open>slog\<close> prints, and \<^verbatim>\<open>lastErr\<close>, which is
  only printed, are left out.
\<close>

section \<open>The services behind the control plane\<close>

text \<open>
  \<open>sv_update d status node endpoint attempts\<close> is \<^verbatim>\<open>UpdateDatabaseStatus\<close>,
  \<open>sv_dial addr\<close> the outcome of \<^verbatim>\<open>grpc.DialContext\<close> (an error text or none),
  \<open>sv_create addr name d\<close> the call of \<^verbatim>\<open>CreateDatabase\<close> on that connection,
  under its timeout of ten seconds.
\<close>

record 'w services =
  sv_schedule :: "string \<Rightarrow> 'w \<Rightarrow> schedule_response rpc \<times> 'w"
  sv_get_nodes :: "string \<Rightarrow> 'w \<Rightarrow> node_info list rpc \<times> 'w"
  sv_update :: "string \<Rightarrow> string \<Rightarrow> string \<Rightarrow> string \<Rightarrow> int \<Rightarrow> 'w \<Rightarrow> bool rpc \<times> 'w"
  sv_dial :: "string \<Rightarrow> 'w \<Rightarrow> string option \<times> 'w"
  sv_create :: "string \<Rightarrow> string \<Rightarrow> string \<Rightarrow> 'w \<Rightarrow> create_response rpc \<times> 'w"

section \<open>One attempt\<close>

text \<open>The address of the agent of a host.\<close>

definition agent_address :: "string \<Rightarrow> string" where
  "agent_address host =
     (if host = ''worker-local'' \<or> host = ''test-worker-node'' \<or> host = ''localhost'' then ''localhost:50053''
      else if has_prefix host ''nimbusdb-worker-node-'' then host @ ''.nimbusdb-worker-node:50053''
      else host @ '':50053'')"

text \<open>The host of the scheduled node: that of the first node listed under its ID, or empty.\<close>

definition host_of :: "string \<Rightarrow> node_info list \<Rightarrow> string" where
  "host_of nodeID nodes = (case find (\<lambda>n. ni_id n = nodeID) nodes of Some n \<Rightarrow> ni_hostname n | None \<Rightarrow> [])"

text \<open>
  The target: the scheduled node, unless a creation on it has failed before and the list has a
  node that is neither attempted nor dead nor draining.
\<close>

definition alternate :: "string set \<Rightarrow> node_info \<Rightarrow> bool" where
  "alternate attempted n \<longleftrightarrow>
     \<not> (ni_id n \<in> attempted \<or> ni_status n = ''dead'' \<or> ni_status n = ''draining'')"

definition pick_target :: "string set \<Rightarrow> node_info list \<Rightarrow> string \<Rightarrow> string \<times> string" where
  "pick_target attempted nodes nodeID =
     (if nodeID \<in> attempted
      then case find (alternate attempted) nodes of
             Some n \<Rightarrow> (ni_id n, ni_hostname n)
           | None \<Rightarrow> (nodeID, host_of nodeID nodes)
      else (nodeID, host_of nodeID nodes))"

text \<open>
  The body of the loop. The result says whether the database was provisioned; otherwise the
  loop continues with the nodes attempted so far.
\<close>

definition provision_attempt ::
  "'w services \<Rightarrow> string \<Rightarrow> string \<Rightarrow> string \<Rightarrow> nat \<Rightarrow> string set \<Rightarrow> 'w \<Rightarrow> bool \<times> string set \<times> 'w" where
  "provision_attempt sv dbID name clusterID attempts attempted w =
     (case sv_schedule sv clusterID w of
        (Inl err, w) \<Rightarrow> (False, attempted, w)
      | (Inr sched, w) \<Rightarrow>
          if sr_node sched = [] then (False, attempted, w)
          else
          (case sv_get_nodes sv clusterID w of
             (Inl err, w) \<Rightarrow> (False, attempted, w)
           | (Inr nodes, w) \<Rightarrow>
               (let (nodeID, host) = pick_target attempted nodes (sr_node sched)
                in if host = [] then (False, attempted, w)
                   else
                   let w = snd (sv_update sv dbID ''provisioning'' nodeID [] (int32 (int attempts)) w);
                       addr = agent_address host
                   in case sv_dial sv addr w of
                        (Some dialErr, w) \<Rightarrow> (False, attempted, w)
                      | (None, w) \<Rightarrow>
                          (case sv_create sv addr name dbID w of
                             (Inl createErr, w) \<Rightarrow> (False, insert nodeID attempted, w)
                           | (Inr res, w) \<Rightarrow>
                               if \<not> cr_success res then (False, insert nodeID attempted, w)
                               else (True, attempted,
                                 snd (sv_update sv dbID ''active'' nodeID (cr_endpoint res) (int32 (int attempts)) w))))))"

section \<open>The loop\<close>

definition maxAttempts :: nat where "maxAttempts = 3"

function provision_loop ::
  "'w services \<Rightarrow> string \<Rightarrow> string \<Rightarrow> string \<Rightarrow> nat \<Rightarrow> string set \<Rightarrow> 'w \<Rightarrow> bool \<times> nat \<times> 'w" where
  "provision_loop sv dbID name clusterID attempts attempted w =
     (if attempts < maxAttempts then
        (case provision_attempt sv dbID name clusterID (Suc attempts) attempted w of
           (True, _, w) \<Rightarrow> (True, Suc attempts, w)
         | (False, attempted, w) \<Rightarrow> provision_loop sv dbID name clusterID (Suc attempts) attempted w)
      else (False, attempts, w))"
  by pat_completeness auto
termination
  by (relation "measure (\<lambda>(_, _, _, _, attempts, _). maxAttempts - attempts)") auto

declare provision_loop.simps [simp del]

text \<open>After the last attempt the database is marked failed.\<close>

definition ProvisionDatabase :: "'w services \<Rightarrow> string \<Rightarrow> string \<Rightarrow> string \<Rightarrow> 'w \<Rightarrow> 'w" where
  "ProvisionDatabase sv dbID name clusterID w =
     (case provision_loop sv dbID name clusterID 0 {} w of
        (True, _, w) \<Rightarrow> w
      | (False, attempts, w) \<Rightarrow> snd (sv_update sv dbID ''failed'' [] [] (int32 (int attempts)) w))"

section \<open>What the services see\<close>

text \<open>Services that keep a log of the calls made to them.\<close>

datatype event =
    Scheduled "schedule_response rpc"
  | Listed "node_info list rpc"
  | Updated string string string string int
  | Dialed string "string option"
  | Created string string string "create_response rpc"

definition log_call :: "('a \<Rightarrow> event) \<Rightarrow> ('w \<Rightarrow> 'a \<times> 'w) \<Rightarrow> 'w \<times> event list \<Rightarrow> 'a \<times> 'w \<times> event list" where
  "log_call ev f wl = (case f (fst wl) of (r, w) \<Rightarrow> (r, w, snd wl @ [ev r]))"

definition logged :: "'w services \<Rightarrow> ('w \<times> event list) services" where
  "logged sv = \<lparr>sv_schedule = (\<lambda>c. log_call Scheduled (sv_schedule sv c)),
     sv_get_nodes = (\<lambda>c. log_call Listed (sv_get_nodes sv c)),
     sv_update = (\<lambda>d st n ep k. log_call (\<lambda>_. Updated d st n ep k) (sv_update sv d st n ep k)),
     sv_dial = (\<lambda>a. log_call (Dialed a) (sv_dial sv a)),
     sv_create = (\<lambda>a n d. log_call (Created a n d) (sv_create sv a n d))\<rparr>"

lemma log_call_cases:
  "P (log_call ev f wl) \<longleftrightarrow> (\<forall>r w. f (fst wl) = (r, w) \<longrightarrow> P (r, w, snd wl @ [ev r]))"
  by (cases "f (fst wl)") (simp add: log_call_def)

lemmas logged_sel = services.simps logged_def

definition scheduled :: "event \<Rightarrow> bool" where
  "scheduled e = (case e of Scheduled _ \<Rightarrow> True | _ \<Rightarrow> False)"

definition created_ok :: "event \<Rightarrow> bool" where
  "created_ok e = (case e of Created _ _ _ (Inr res) \<Rightarrow> cr_success res | _ \<Rightarrow> False)"

definition terminal_update :: "event \<Rightarrow> bool" where
  "terminal_update e = (case e of Updated _ st _ _ _ \<Rightarrow> st \<noteq> ''provisioning'' | _ \<Rightarrow> False)"

abbreviation progress :: "event \<Rightarrow> bool" where
  "progress e \<equiv> \<not> created_ok e \<and> \<not> terminal_update e"

definition schedules :: "event list \<Rightarrow> nat" where
  "schedules es = length (filter scheduled es)"

lemmas event_defs = scheduled_def created_ok_def terminal_update_def schedules_def

lemma schedules_append [simp]: "schedules (xs @ ys) = schedules xs + schedules ys"
  by (simp add: schedules_def)

text \<open>The events of one attempt.\<close>

definition ends_active :: "string \<Rightarrow> string \<Rightarrow> nat \<Rightarrow> event list \<Rightarrow> bool" where
  "ends_active d name k es \<longleftrightarrow>
     (\<exists>pre host node res. es = pre @ [Created (agent_address host) name d (Inr res),
          Updated d ''active'' node (cr_endpoint res) (int32 (int k))] \<and>
        cr_success res \<and> host \<noteq> [] \<and> list_all progress pre \<and>
        Updated d ''provisioning'' node [] (int32 (int k)) \<in> set pre)"

lemma attempt_log:
  assumes "provision_attempt (logged sv) d name c k att (w, l) = (ok, att', w', l')"
  shows "\<exists>es. l' = l @ es \<and> schedules es = 1 \<and>
    (if ok then ends_active d name k es else list_all progress es)"
proof -
  have ends: "ends_active d name k
      [e1, e2, Updated d ''provisioning'' n [] (int32 (int k)), e3, Created (agent_address h) name d (Inr res),
       Updated d ''active'' n (cr_endpoint res) (int32 (int k))]"
    if "list_all progress [e1, e2, e3]" "cr_success res" "h \<noteq> []" for e1 e2 e3 n h res
    unfolding ends_active_def
    by (rule exI [of _ "[e1, e2, Updated d ''provisioning'' n [] (int32 (int k)), e3]"], intro exI [of _ h] exI [of _ n] exI [of _ res])
      (use that in \<open>simp add: event_defs\<close>)
  show ?thesis
    using assms
    by (auto simp: provision_attempt_def logged_sel log_call_def Let_def event_defs ends
        split: prod.splits sum.splits if_splits option.splits)
qed

lemma provision_loop_log:
  assumes "provision_loop (logged sv) d name c k att (w, l) = (ok, k', w', l')" and "k \<le> maxAttempts"
  shows "\<exists>es. l' = l @ es \<and> k + schedules es = k' \<and> k' \<le> maxAttempts \<and>
    (if ok then \<exists>pre last. es = pre @ last \<and> list_all progress pre \<and> ends_active d name k' last \<and> k < k'
     else list_all progress es \<and> k' = maxAttempts)"
  using assms
proof (induction "maxAttempts - k" arbitrary: k att w l)
  case 0
  then have "\<not> ok \<and> k' = k \<and> l' = l \<and> k = maxAttempts"
    by (simp add: provision_loop.simps [of _ _ _ _ maxAttempts])
  then show ?case by (intro exI [of _ "[]"]) (simp add: schedules_def)
next
  case (Suc n)
  then have k: "k < maxAttempts" by simp
  obtain ok1 att1 w1 l1 where a: "provision_attempt (logged sv) d name c (Suc k) att (w, l) = (ok1, att1, w1, l1)"
    by (metis prod_cases4)
  obtain es where es: "l1 = l @ es" "schedules es = 1"
    "if ok1 then ends_active d name (Suc k) es else list_all progress es"
    using attempt_log [OF a] by blast
  show ?case
  proof (cases ok1)
    case True
    with Suc.prems k a have "ok" "k' = Suc k" "l' = l1"
      by (simp_all add: provision_loop.simps [of _ _ _ _ k])
    with es True k show ?thesis by (intro exI [of _ es]) (auto intro: exI [of _ "[]"])
  next
    case False
    with Suc.prems(1) k a have "provision_loop (logged sv) d name c (Suc k) att1 (w1, l1) = (ok, k', w', l')"
      by (simp add: provision_loop.simps [of _ _ _ _ k])
    moreover have "n = maxAttempts - Suc k" using Suc.hyps(2) by simp
    ultimately obtain es2 where es2: "l' = l1 @ es2" "Suc k + schedules es2 = k'"
      "k' \<le> maxAttempts"
      "if ok then \<exists>pre last. es2 = pre @ last \<and> list_all progress pre \<and> ends_active d name k' last \<and> Suc k < k'
       else list_all progress es2 \<and> k' = maxAttempts"
      using Suc.hyps(1) [of "Suc k" att1 w1 l1] k by auto
    have "if ok then \<exists>pre last. es @ es2 = pre @ last \<and> list_all progress pre \<and> ends_active d name k' last \<and> k < k'
       else list_all progress (es @ es2) \<and> k' = maxAttempts"
    proof (cases ok)
      case True
      with es2(4) obtain pre last where "es2 = pre @ last" "list_all progress pre" "ends_active d name k' last" "Suc k < k'"
        by auto
      with es(3) \<open>\<not> ok1\<close> have "es @ es2 = (es @ pre) @ last \<and> list_all progress (es @ pre) \<and>
          ends_active d name k' last \<and> k < k'" by simp
      with True show ?thesis unfolding if_P [OF True] by blast
    qed (use es(3) es2(4) \<open>\<not> ok1\<close> in auto)
    with es(1,2) es2(1-3) show ?thesis by (intro exI [of _ "es @ es2"]) simp
  qed
qed

text \<open>
  C4. Whatever the services answer, provisioning ends after at most three scheduling requests,
  with exactly one final status, written last: \<^verbatim>\<open>active\<close>, with the endpoint of
  the agent, immediately after the one successful creation, which the provisioning record of
  the same attempt announced; or \<^verbatim>\<open>failed\<close>, after exactly three attempts
  none of which created the database.
\<close>

theorem ProvisionDatabase_final_status:
  "\<exists>es pre final. snd (ProvisionDatabase (logged sv) d name c (w, [])) = es \<and> es = pre @ final \<and>
     list_all (\<lambda>e. \<not> created_ok e \<and> \<not> terminal_update e) pre \<and> schedules es \<le> 3 \<and>
     (final = [Updated d ''failed'' [] [] 3] \<and> schedules es = 3 \<or>
      (\<exists>host node res. final = [Created (agent_address host) name d (Inr res),
            Updated d ''active'' node (cr_endpoint res) (int (schedules es))] \<and>
         cr_success res \<and> host \<noteq> [] \<and> Updated d ''provisioning'' node [] (int (schedules es)) \<in> set pre))"
proof -
  obtain ok k w' l where loop: "provision_loop (logged sv) d name c 0 {} (w, []) = (ok, k, w', l)"
    by (metis prod_cases4)
  from provision_loop_log [OF this] have k: "schedules l = k" "k \<le> 3"
    and r: "if ok then \<exists>pre last. l = pre @ last \<and> list_all progress pre \<and> ends_active d name k last \<and> 0 < k
       else list_all progress l \<and> k = 3"
    by (auto simp: maxAttempts_def)
  have id: "int32 (int k) = int k" using k(2) by (intro int32_id) auto
  show ?thesis
  proof (cases ok)
    case True
    with r obtain pre last where p: "l = pre @ last" "list_all progress pre" "ends_active d name k last" by auto
    from p(3) obtain pre' host node res where e: "last = pre' @ [Created (agent_address host) name d (Inr res),
          Updated d ''active'' node (cr_endpoint res) (int k)]" "cr_success res" "host \<noteq> []"
        "list_all progress pre'" "Updated d ''provisioning'' node [] (int k) \<in> set pre'"
      unfolding ends_active_def id by blast
    have "snd (ProvisionDatabase (logged sv) d name c (w, [])) = (pre @ pre') @ [Created (agent_address host) name d (Inr res),
          Updated d ''active'' node (cr_endpoint res) (int k)]"
      using loop True p(1) e(1) by (simp add: ProvisionDatabase_def)
    moreover from this have "schedules (snd (ProvisionDatabase (logged sv) d name c (w, []))) = k"
      using k(1) p(1) e(1) by (simp add: event_defs)
    ultimately show ?thesis
      using p(2) e(2-5) k(2)
      by (intro exI [of _ "snd (ProvisionDatabase (logged sv) d name c (w, []))"] exI [of _ "pre @ pre'"]
          exI [of _ "[Created (agent_address host) name d (Inr res), Updated d ''active'' node (cr_endpoint res) (int k)]"]
          conjI disjI2 exI [of _ host] exI [of _ node] exI [of _ res]) simp_all
  next
    case False
    have "snd (ProvisionDatabase (logged sv) d name c (w, [])) = l @ [Updated d ''failed'' [] [] 3]"
      using loop False r id by (simp add: ProvisionDatabase_def logged_sel log_call_def split: prod.splits)
    moreover have "schedules (l @ [Updated d ''failed'' [] [] 3]) = 3" using k r False by (simp add: event_defs)
    ultimately show ?thesis
      using r False
      by (intro exI [of _ "l @ [Updated d ''failed'' [] [] 3]"] exI [of _ l]
          exI [of _ "[Updated d ''failed'' [] [] 3]"] conjI disjI1) simp_all
  qed
qed

section \<open>Different nodes\<close>

text \<open>The nodes provisioning records name, in order.\<close>

definition tried :: "event list \<Rightarrow> string list" where
  "tried es = concat (map (\<lambda>e. case e of Updated _ st node _ _ \<Rightarrow> if st = ''provisioning'' then [node] else [] | _ \<Rightarrow> []) es)"

lemma tried_append [simp]: "tried (xs @ ys) = tried xs @ tried ys"
  by (simp add: tried_def)

lemma pick_target_fresh:
  assumes "n \<in> set nodes" and "alternate attempted n"
  shows "fst (pick_target attempted nodes nodeID) \<notin> attempted"
proof (cases "find (alternate attempted) nodes")
  case None
  with assms show ?thesis by (auto simp: find_None_iff)
next
  case (Some m)
  then have "alternate attempted m" by (auto simp: find_Some_iff)
  with Some show ?thesis by (auto simp: pick_target_def alternate_def)
qed

definition picked :: "'w services \<Rightarrow> string \<Rightarrow> string set \<Rightarrow> string \<Rightarrow> bool" where
  "picked sv c att x \<longleftrightarrow>
     (\<exists>w nodes w' i. sv_get_nodes sv c w = (Inr nodes, w') \<and> x = fst (pick_target att nodes i))"

lemma pickedI: "sv_get_nodes sv c w = (Inr ns, w') \<Longrightarrow> pick_target att ns i = (x, h) \<Longrightarrow> picked sv c att x"
  unfolding picked_def by (metis fst_conv)

lemma attempt_tried:
  assumes "provision_attempt (logged sv) d name c k att (w, l) = (ok, att', w', l')"
    and "\<And>a w. fst (sv_dial sv a w) = None"
  shows "\<exists>es. l' = l @ es \<and> (tried es = [] \<and> att' = att \<or>
    (\<exists>x. picked sv c att x \<and> tried es = [x] \<and> (\<not> ok \<longrightarrow> att' = insert x att)))"
proof -
  have tr: "tried [] = []" "tried (Scheduled r # es) = tried es" "tried (Listed ns # es) = tried es"
    "tried (Dialed a x # es) = tried es" "tried (Created a n d cr # es) = tried es"
    "tried (Updated d st n ep k # es) = (if st = ''provisioning'' then [n] else []) @ tried es"
    for r es ns a x n d cr st ep k
    by (simp_all add: tried_def)
  have dial: "sv_dial sv a w \<noteq> (Some e, w')" for a w e w' using assms(2) by (metis fst_conv option.distinct(1))
  show ?thesis
    using assms(1)
    unfolding provision_attempt_def logged_sel log_call_def
    by (auto simp: Let_def tr dial pickedI split: prod.splits sum.splits if_splits option.splits)
qed

definition spares :: "node_info list \<Rightarrow> string set" where
  "spares nodes = {ni_id n | n. n \<in> set nodes \<and> placeable n}"

lemma picked_fresh:
  assumes "\<And>w nodes w'. sv_get_nodes sv c w = (Inr nodes, w') \<Longrightarrow> 3 \<le> card (spares nodes)"
    and "picked sv c att x" and "finite att" and "card att < 3"
  shows "x \<notin> att"
proof -
  obtain w nodes w' i where g: "sv_get_nodes sv c w = (Inr nodes, w')" and x: "x = fst (pick_target att nodes i)"
    using assms(2) unfolding picked_def by blast
  have "\<not> spares nodes \<subseteq> att" using assms(1) [OF g] assms(3,4) card_mono [of att "spares nodes"] by linarith
  then obtain n where "n \<in> set nodes" "alternate att n"
    by (auto simp: spares_def alternate_def placeable_def)
  with x show ?thesis using pick_target_fresh by blast
qed

lemma provision_loop_tried:
  assumes "provision_loop (logged sv) d name c k att (w, l) = (ok, k', w', l')"
    and "\<And>a w. fst (sv_dial sv a w) = None"
    and "\<And>w nodes w'. sv_get_nodes sv c w = (Inr nodes, w') \<Longrightarrow> 3 \<le> card (spares nodes)"
    and "finite att" and "card att \<le> k"
  shows "\<exists>es. l' = l @ es \<and> distinct (tried es) \<and> set (tried es) \<inter> att = {}"
  using assms(1,4,5)
proof (induction "maxAttempts - k" arbitrary: k att w l)
  case 0
  then have "l' = l" by (simp add: provision_loop.simps [of _ _ _ _ k])
  then show ?case by (simp add: tried_def)
next
  case (Suc n)
  then have k: "k < maxAttempts" by simp
  obtain ok1 att1 w1 l1 where a: "provision_attempt (logged sv) d name c (Suc k) att (w, l) = (ok1, att1, w1, l1)"
    by (metis prod_cases4)
  obtain es where es: "l1 = l @ es"
    and t: "tried es = [] \<and> att1 = att \<or> (\<exists>x. picked sv c att x \<and> tried es = [x] \<and> (\<not> ok1 \<longrightarrow> att1 = insert x att))"
    using attempt_tried [OF a assms(2)] by blast
  have fresh: "x \<notin> att" if "picked sv c att x" for x
    using picked_fresh [OF assms(3) that Suc.prems(2)] Suc.prems(3) k by (simp add: maxAttempts_def)
  show ?case
  proof (cases ok1)
    case True
    with Suc.prems(1) k a have "l' = l1" by (simp add: provision_loop.simps [of _ _ _ _ k])
    with es t fresh show ?thesis by (intro exI [of _ es]) auto
  next
    case False
    with Suc.prems(1) k a have loop: "provision_loop (logged sv) d name c (Suc k) att1 (w1, l1) = (ok, k', w', l')"
      by (simp add: provision_loop.simps [of _ _ _ _ k])
    have "card (insert x att) \<le> Suc k" for x
      using Suc.prems(2,3) by (simp add: card_insert_if)
    then have "finite att1" "card att1 \<le> Suc k" using t False Suc.prems(2,3) by auto
    with Suc.hyps loop k obtain es2 where "l' = l1 @ es2" "distinct (tried es2)" "set (tried es2) \<inter> att1 = {}"
      by (metis Suc_diff_Suc diff_Suc_1')
    with es t fresh False show ?thesis by (intro exI [of _ "es @ es2"]) auto
  qed
qed


text \<open>Services with three healthy nodes whose agents refuse every creation.\<close>

definition demo_listing :: "node_info list" where
  "demo_listing = map (\<lambda>i. \<lparr>ni_id = i, ni_cluster = ''c1'', ni_hostname = ''h-'' @ i, ni_status = ''healthy'',
     ni_cpu = Fin 1, ni_mem = Fin 1, ni_disk = Fin 1, ni_last_heartbeat = OtherText [],
     ni_registered_at = OtherText [], ni_region = ''india''\<rparr>) [''n1'', ''n2'', ''n3'']"

definition demo_services :: "unit services" where
  "demo_services = \<lparr>sv_schedule = (\<lambda>c w. (Schedule (\<lambda>_. Inr demo_listing) c, w)),
     sv_get_nodes = (\<lambda>c w. (Inr demo_listing, w)), sv_update = (\<lambda>d st n ep k w. (Inr True, w)),
     sv_dial = (\<lambda>a w. (None, w)), sv_create = (\<lambda>a n d w. (Inl (Status Internal ''disk full''), w))\<rparr>"


end
