(* ===== verification/Control_Plane.thy ===== *)
theory Control_Plane
  imports Provisioning
begin

text \<open>
  \<^verbatim>\<open>services/control-plane/reconciliation.go\<close> and
  \<^verbatim>\<open>handlers.go\<close>: the sweep that restarts provisioning and the REST
  handlers. Goroutines they start appear as values: the provisioning jobs a call dispatches
  and the deletion job of a request. A decoded JSON body is an argument, a decoding error its
  text.
\<close>

section \<open>The services the control plane calls\<close>

text \<open>
  The metadata client (\<open>be_update\<close> takes database, status, node, endpoint, attempts) and the
  calls on a node agent at an address.
\<close>

record 'w backends =
  be_create_record :: "string \<Rightarrow> string \<Rightarrow> string \<Rightarrow> int \<Rightarrow> 'w \<Rightarrow> string rpc \<times> 'w"
  be_get :: "string \<Rightarrow> 'w \<Rightarrow> database_info rpc \<times> 'w"
  be_list :: "string \<Rightarrow> 'w \<Rightarrow> database_info list rpc \<times> 'w"
  be_update :: "string \<Rightarrow> string \<Rightarrow> string \<Rightarrow> string \<Rightarrow> int \<Rightarrow> 'w \<Rightarrow> bool rpc \<times> 'w"
  be_delete_record :: "string \<Rightarrow> 'w \<Rightarrow> bool rpc \<times> 'w"
  be_get_nodes :: "string \<Rightarrow> 'w \<Rightarrow> node_info list rpc \<times> 'w"
  be_dial :: "string \<Rightarrow> 'w \<Rightarrow> string option \<times> 'w"
  be_agent_delete :: "string \<Rightarrow> string \<Rightarrow> 'w \<Rightarrow> bool rpc \<times> 'w"

text \<open>The arguments of a background \<^verbatim>\<open>ProvisionDatabase\<close>: ID, name, cluster.\<close>

type_synonym job = "string \<times> string \<times> string"

section \<open>Reconciliation\<close>

text \<open>
  One database of the list: \<open>now\<close> is the clock when it is looked at. A database that is
  overdue is touched, and dispatched when the touch succeeds.
\<close>

definition overdue :: "int \<Rightarrow> int \<Rightarrow> database_info \<Rightarrow> bool" where
  "overdue now timeout db \<longleftrightarrow>
     di_status db = ''provisioning'' \<and>
     (case parse_rfc3339 (di_updated db) of None \<Rightarrow> False
      | Some updatedAt \<Rightarrow> di_node db = [] \<or> now - updatedAt > timeout)"

fun reconcile_loop ::
  "'w backends \<Rightarrow> (string \<Rightarrow> int) \<Rightarrow> int \<Rightarrow> database_info list \<Rightarrow> 'w \<Rightarrow> job list \<times> 'w" where
  "reconcile_loop be clock timeout [] w = ([], w)"
| "reconcile_loop be clock timeout (db # dbs) w =
     (if overdue (clock (di_id db)) timeout db then
        (case be_update be (di_id db) ''provisioning'' [] [] (di_attempts db) w of
           (Inl err, w) \<Rightarrow> reconcile_loop be clock timeout dbs w
         | (Inr _, w) \<Rightarrow>
             (case reconcile_loop be clock timeout dbs w of
                (jobs, w) \<Rightarrow> ((di_id db, di_name db, di_cluster db) # jobs, w)))
      else reconcile_loop be clock timeout dbs w)"

definition Reconcile :: "'w backends \<Rightarrow> (string \<Rightarrow> int) \<Rightarrow> int \<Rightarrow> 'w \<Rightarrow> job list \<times> 'w" where
  "Reconcile be clock timeout w =
     (case be_list be [] w of
        (Inl err, w) \<Rightarrow> ([], w)
      | (Inr dbs, w) \<Rightarrow> reconcile_loop be clock timeout dbs w)"

section \<open>Handlers\<close>

text \<open>An answer: a status with an error text, or a status with a body.\<close>

datatype 'a http_answer = Http_Error nat string | Http_Body nat 'a

text \<open>The regular expression \<^verbatim>\<open>^[a-zA-Z0-9_-]+$\<close>.\<close>

definition name_char :: "char \<Rightarrow> bool" where
  "name_char c \<longleftrightarrow>
     (let n = of_char c :: nat
      in 97 \<le> n \<and> n \<le> 122 \<or> 65 \<le> n \<and> n \<le> 90 \<or> 48 \<le> n \<and> n \<le> 57 \<or> n = 95 \<or> n = 45)"

definition nameRegex :: "string \<Rightarrow> bool" where
  "nameRegex s \<longleftrightarrow> s \<noteq> [] \<and> list_all name_char s"

text \<open>The body of a request to create: name and cluster. The answer's: ID and status.\<close>

definition handleCreateDatabase ::
  "'w backends \<Rightarrow> string + string \<times> string \<Rightarrow> 'w \<Rightarrow> (string \<times> string) http_answer \<times> job list \<times> 'w" where
  "handleCreateDatabase be body w =
     (case body of
        Inl err \<Rightarrow> (Http_Error 400 (''invalid request body: '' @ err), [], w)
      | Inr (name, clusterID) \<Rightarrow>
          if name = [] then (Http_Error 400 ''database name is required'', [], w)
          else if \<not> nameRegex name
          then (Http_Error 400 ''invalid database name (must be alphanumeric, dash, or underscore)'', [], w)
          else if clusterID = [] then (Http_Error 400 ''clusterId is required'', [], w)
          else
          (case be_create_record be name clusterID ''provisioning'' 1 w of
             (Inl err, w) \<Rightarrow> (Http_Error 500 (''internal server error: '' @ err_text err), [], w)
           | (Inr dbID, w) \<Rightarrow> (Http_Body 202 (dbID, ''provisioning''), [(dbID, name, clusterID)], w)))"

record database_response =
  dp_id :: string
  dp_name :: string
  dp_status :: string
  dp_node :: string
  dp_endpoint :: string
  dp_attempts :: int
  dp_created :: time_text

definition database_response_of :: "database_info \<Rightarrow> database_response" where
  "database_response_of db =
     \<lparr>dp_id = di_id db, dp_name = di_name db, dp_status = di_status db, dp_node = di_node db,
      dp_endpoint = di_endpoint db, dp_attempts = di_attempts db, dp_created = di_created db\<rparr>"

definition handleGetDatabase :: "'w backends \<Rightarrow> string \<Rightarrow> 'w \<Rightarrow> database_response http_answer \<times> 'w" where
  "handleGetDatabase be dbID w =
     (if dbID = [] then (Http_Error 400 ''database id is required'', w)
      else case be_get be dbID w of
        (Inl err, w) \<Rightarrow> (Http_Error 404 ''database not found'', w)
      | (Inr db, w) \<Rightarrow> (Http_Body 200 (database_response_of db), w))"

definition handleListDatabases ::
  "'w backends \<Rightarrow> string \<Rightarrow> 'w \<Rightarrow> database_response list http_answer \<times> 'w" where
  "handleListDatabases be clusterID w =
     (case be_list be clusterID w of
        (Inl err, w) \<Rightarrow> (Http_Error 500 (''internal server error: '' @ err_text err), w)
      | (Inr dbs, w) \<Rightarrow> (Http_Body 200 (map database_response_of dbs), w))"

text \<open>
  Deletion: the record is marked, the answer is sent and a background job removes the
  database, with the record as it was read.
\<close>

definition handleDeleteDatabase ::
  "'w backends \<Rightarrow> string \<Rightarrow> 'w \<Rightarrow> bool http_answer \<times> database_info option \<times> 'w" where
  "handleDeleteDatabase be dbID w =
     (if dbID = [] then (Http_Error 400 ''database id is required'', None, w)
      else case be_get be dbID w of
        (Inl err, w) \<Rightarrow> (Http_Error 404 ''database not found'', None, w)
      | (Inr db, w) \<Rightarrow> (Http_Body 200 True, Some db, snd (be_update be dbID ''deleting'' [] [] 0 w)))"

text \<open>The address the job dials differs from \<^term>\<open>agent_address\<close>: it has no branch for the stateful set.\<close>

definition delete_address :: "string \<Rightarrow> string" where
  "delete_address hostname =
     (if hostname = ''worker-local'' \<or> hostname = ''test-worker-node'' \<or> hostname = ''localhost''
      then ''localhost:50053'' else hostname @ '':50053'')"

definition delete_job :: "'w backends \<Rightarrow> string \<Rightarrow> database_info \<Rightarrow> 'w \<Rightarrow> 'w" where
  "delete_job be dbID db w =
     (let w =
        (if di_node db = [] then w
         else case be_get_nodes be [] w of
           (Inl err, w) \<Rightarrow> w
         | (Inr nodes, w) \<Rightarrow>
             (let hostname = host_of (di_node db) nodes
              in if hostname = [] then w
                 else case be_dial be (delete_address hostname) w of
                   (Some err, w) \<Rightarrow> w
                 | (None, w) \<Rightarrow> snd (be_agent_delete be (delete_address hostname) dbID w)))
      in snd (be_delete_record be dbID w))"

definition handleHealth :: "nat \<times> string" where
  "handleHealth = (200, ''UP'')"

section \<open>Facts\<close>

lemma reconcile_loop_jobs:
  assumes "\<And>d k w. \<exists>v w'. be_update be d ''provisioning'' [] [] k w = (Inr v, w')"
  shows "fst (reconcile_loop be clock timeout dbs w) =
    map (\<lambda>db. (di_id db, di_name db, di_cluster db)) (filter (\<lambda>db. overdue (clock (di_id db)) timeout db) dbs)"
proof (induction dbs arbitrary: w)
  case (Cons db dbs)
  obtain v w' where "be_update be (di_id db) ''provisioning'' [] [] (di_attempts db) w = (Inr v, w')"
    using assms by blast
  with Cons show ?case by (simp add: case_prod_beta)
qed simp

text \<open>Two hosts of the stateful set.\<close>

lemma delete_address_iff:
  "delete_address host = agent_address host \<longleftrightarrow> \<not> has_prefix host ''nimbusdb-worker-node-''"
proof -
  have "host @ '':50053'' \<noteq> host @ ''.nimbusdb-worker-node:50053''" by simp
  moreover have "\<not> has_prefix ''worker-local'' ''nimbusdb-worker-node-''"
    "\<not> has_prefix ''test-worker-node'' ''nimbusdb-worker-node-''" "\<not> has_prefix ''localhost'' ''nimbusdb-worker-node-''"
    by code_simp+
  ultimately show ?thesis by (auto simp only: delete_address_def agent_address_def if_True if_False simp_thms split: if_splits)
qed

end
