(* ===== verification/Control_Routes.thy ===== *)
theory Control_Routes
  imports Access Control_Plane Agent
begin

text \<open>
  The HTTP surface of the control plane (\<^verbatim>\<open>RegisterRoutes\<close> of
  \<^verbatim>\<open>services/control-plane/handlers.go\<close>): its routes, the role each requires, the
  handler behind it and the background work the handler starts.
\<close>

text \<open>A request by its route; \<^verbatim>\<open>/metrics\<close> is the metrics library's.\<close>

datatype control_call =
    Cp_Create "string + string \<times> string"
  | Cp_Get string
  | Cp_List string
  | Cp_Delete string
  | Cp_Health

fun control_role :: "control_call \<Rightarrow> string option" where
  "control_role (Cp_Create _) = Some RoleOperator"
| "control_role (Cp_Get _) = Some RoleReadOnly"
| "control_role (Cp_List _) = Some RoleReadOnly"
| "control_role (Cp_Delete _) = Some RoleOperator"
| "control_role Cp_Health = None"

datatype control_body =
    Cp_Created "string \<times> string"
  | Cp_Database database_response
  | Cp_Databases "database_response list"
  | Cp_Deleted bool
  | Cp_Status string

text \<open>The work a handler leaves behind: provisioning jobs, or the deletion of a database.\<close>

datatype background = Provision job | Delete_Database string database_info

fun control_handle ::
  "'w backends \<Rightarrow> control_call \<Rightarrow> 'w \<Rightarrow> (control_body http_answer \<times> background list) \<times> 'w" where
  "control_handle be (Cp_Create body) w =
     (case handleCreateDatabase be body w of (v, jobs, w) \<Rightarrow> ((map_http_answer Cp_Created v, map Provision jobs), w))"
| "control_handle be (Cp_Get d) w =
     (case handleGetDatabase be d w of (v, w) \<Rightarrow> ((map_http_answer Cp_Database v, []), w))"
| "control_handle be (Cp_List c) w =
     (case handleListDatabases be c w of (v, w) \<Rightarrow> ((map_http_answer Cp_Databases v, []), w))"
| "control_handle be (Cp_Delete d) w =
     (case handleDeleteDatabase be d w of
        (v, db, w) \<Rightarrow> ((map_http_answer Cp_Deleted v, (case db of None \<Rightarrow> [] | Some r \<Rightarrow> [Delete_Database d r])), w))"
| "control_handle be Cp_Health w = ((Http_Body (fst handleHealth) (Cp_Status (snd handleHealth)), []), w)"

definition control_serve ::
  "auth_env \<Rightarrow> int \<Rightarrow> int \<Rightarrow> 'w backends \<Rightarrow> control_call \<Rightarrow> http_request \<Rightarrow> auth_state \<times> 'w \<Rightarrow>
   (http_reject + control_body http_answer \<times> background list) \<times> auth_state \<times> 'w" where
  "control_serve env t0 t1 be = mux_serve control_role (control_handle be) env t0 t1"

text \<open>
  Refused requests leave the services as they were and start nothing; without credentials only
  the health check is answered.
\<close>

theorem control_gate:
  assumes "\<not> exempt_path (rq_path r)"
  shows "(\<forall>rej. fst (control_serve env t0 t1 be call r (a, w)) = Inl rej \<longrightarrow>
       snd (snd (control_serve env t0 t1 be call r (a, w))) = w) \<and>
    (\<not> has_prefix (rq_authorization r) ''Bearer '' \<and> rq_api_key r = [] \<longrightarrow>
       ((\<exists>v. fst (control_serve env t0 t1 be call r (a, w)) = Inr v) \<longleftrightarrow> call = Cp_Health))"
proof -
  have "control_role call = None \<longleftrightarrow> call = Cp_Health" by (cases call) simp_all
  then show ?thesis
    using mux_gate [OF assms, of control_role "control_handle be" env t0 t1 call a w]
    by (simp only: control_serve_def)
qed

text \<open>
  Work starts exactly with an accepted answer: a creation answered 202 leaves one provisioning
  job for the database it names, a deletion answered 200 one removal of the database it read;
  every other answer leaves none.
\<close>

theorem control_background:
  assumes "control_handle be call w = ((v, bg), w')"
  shows "(case v of
      Http_Error code msg \<Rightarrow> bg = []
    | Http_Body code body \<Rightarrow>
        (case body of
           Cp_Created (d, st) \<Rightarrow> code = 202 \<and> st = ''provisioning'' \<and> (\<exists>name cluster. bg = [Provision (d, name, cluster)])
         | Cp_Deleted ok \<Rightarrow> code = 200 \<and> (\<exists>d db. call = Cp_Delete d \<and> bg = [Delete_Database d db])
         | _ \<Rightarrow> code = 200 \<and> bg = []))"
  using assms
  by (cases call)
    (auto simp: handleCreateDatabase_def handleGetDatabase_def handleListDatabases_def handleDeleteDatabase_def
      handleHealth_def split: sum.splits prod.splits if_splits)

end
