(* ===== verification/Daemons.thy ===== *)
theory Daemons
  imports Control_Plane Health
begin

text \<open>
  The background loops around the periodic checks: \<^verbatim>\<open>HealthManager.Start\<close>
  (\<^verbatim>\<open>metadata-service/db/health_manager.go\<close>) and
  \<^verbatim>\<open>Reconciler.Start\<close> (\<^verbatim>\<open>control-plane/reconciliation.go\<close>).
\<close>

section \<open>Ticker loops\<close>

text \<open>What the \<^verbatim>\<open>select\<close> of a loop receives: a tick, with what the step reads, or the cancellation.\<close>

datatype 'a loop_event = Ticked 'a | Cancelled

fun ticker_loop :: "('a \<Rightarrow> 's \<Rightarrow> 's) \<Rightarrow> 'a loop_event list \<Rightarrow> 's \<Rightarrow> 's" where
  "ticker_loop step [] s = s"
| "ticker_loop step (Cancelled # es) s = s"
| "ticker_loop step (Ticked a # es) s = ticker_loop step es (step a s)"

text \<open>A check's environment: the order of rows, the database and the clock. A failed check is only logged.\<close>

record check_env =
  ce_sort :: beat_sort
  ce_rows :: "node_row list \<Rightarrow> node_row list"
  ce_pg :: pg_env
  ce_clock :: "string \<Rightarrow> int"

definition health_tick :: "check_env \<Rightarrow> tables \<Rightarrow> tables" where
  "health_tick ce t = snd (CheckHealth (ce_sort ce) (ce_rows ce) (ce_pg ce) (ce_clock ce) t)"

definition HealthManager_Start :: "check_env loop_event list \<Rightarrow> tables \<Rightarrow> tables" where
  "HealthManager_Start = ticker_loop health_tick"

text \<open>The reconciler also collects the provisioning jobs its sweeps start.\<close>

record reconciler =
  rc_timeout :: int

definition reconciler_tick ::
  "'w backends \<Rightarrow> reconciler \<Rightarrow> (string \<Rightarrow> int) \<Rightarrow> job list \<times> 'w \<Rightarrow> job list \<times> 'w" where
  "reconciler_tick be r clock st =
     (case st of (jobs, w) \<Rightarrow> (case Reconcile be clock (rc_timeout r) w of (new, w') \<Rightarrow> (jobs @ new, w')))"

definition Reconciler_Start ::
  "'w backends \<Rightarrow> reconciler \<Rightarrow> (string \<Rightarrow> int) loop_event list \<Rightarrow> job list \<times> 'w \<Rightarrow> job list \<times> 'w" where
  "Reconciler_Start be r = ticker_loop (reconciler_tick be r)"

text \<open>Nothing happens after the cancellation, and a run can be split before it.\<close>

lemma ticker_loop_cancelled: "ticker_loop step (es @ Cancelled # es') s = ticker_loop step es s"
  by (induction es arbitrary: s) (auto split: loop_event.split, metis loop_event.exhaust ticker_loop.simps(2,3))

lemma ticker_loop_ticks: "ticker_loop step (map Ticked as @ es) s = ticker_loop step es (fold step as s)"
  by (induction as arbitrary: s) simp_all

text \<open>The jobs of a run extend those it started with.\<close>

lemma reconciler_jobs_grow: "\<exists>new. fst (Reconciler_Start be r es (jobs, w)) = jobs @ new"
proof (induction es arbitrary: jobs w)
  case (Cons e es)
  show ?case
  proof (cases e)
    case (Ticked clock)
    obtain new w' where "reconciler_tick be r clock (jobs, w) = (jobs @ new, w')"
      by (cases "Reconcile be clock (rc_timeout r) w") (simp add: reconciler_tick_def)
    with Cons [of "jobs @ new" w'] Ticked show ?thesis by (auto simp: Reconciler_Start_def)
  qed (simp add: Reconciler_Start_def)
qed (simp add: Reconciler_Start_def)

section \<open>Health checks have no memory\<close>

text \<open>A check in which nothing fails, of a registry with canonical node identifiers.\<close>

definition check_fine :: "tables \<Rightarrow> check_env \<Rightarrow> bool" where
  "check_fine t ce \<longleftrightarrow> env_fine (ce_pg ce) \<and> mset (ce_rows ce (tb_nodes t)) = mset (tb_nodes t) \<and>
     list_all (\<lambda>n. pg_uuid (ce_pg ce) (nr_id n) = Some (nr_id n)) (tb_nodes t)"

definition assessed :: "check_env \<Rightarrow> tables \<Rightarrow> node_row \<Rightarrow> node_row" where
  "assessed ce t n = n\<lparr>nr_status := classify (ce_sort ce) (ce_clock ce (nr_id n)) t n\<rparr>"

lemma health_tick_eq:
  assumes "registry_ok t" and "check_fine t ce"
  shows "health_tick ce t = t\<lparr>tb_nodes := map (assessed ce t) (tb_nodes t)\<rparr>"
  unfolding health_tick_def assessed_def
  by (subst CheckHealth_eq) (use assms in \<open>simp_all add: check_fine_def list_all_iff\<close>)

text \<open>A class depends on the old status only through \<^verbatim>\<open>draining\<close>, which every class keeps.\<close>

lemma classify_status:
  assumes "nr_status m = ''draining'' \<longleftrightarrow> nr_status n = ''draining''" and "nr_id m = nr_id n"
    and "nr_last m = nr_last n" and "tb_heartbeats t' = tb_heartbeats t"
  shows "classify srt now t' m = classify srt now t n"
  unfolding classify_def last_beats_def assms ..

lemma classify_draining: "classify srt now t n = ''draining'' \<longleftrightarrow> nr_status n = ''draining''"
  by (simp add: classify_def split: option.split)

lemma health_tick_ok: "registry_ok t \<Longrightarrow> registry_ok (health_tick ce t)"
  by (auto simp: health_tick_def CheckHealth_def check_loop_ok split: sum.splits)

lemma health_tick_fine:
  assumes "registry_ok t" and "check_fine t ce" and "\<And>rows. mset (ce_rows ce' rows) = mset rows" and "check_fine t ce'"
  shows "check_fine (health_tick ce t) ce'"
  using assms(3,4) by (simp add: check_fine_def health_tick_eq [OF assms(1,2)] assessed_def list_all_iff)

lemma health_tick_twice:
  assumes "registry_ok t" and "check_fine t ce" and "\<And>rows. mset (ce_rows ce' rows) = mset rows" and "check_fine t ce'"
  shows "health_tick ce' (health_tick ce t) = health_tick ce' t"
proof -
  let ?t = "health_tick ce t"
  have same: "classify srt now ?t (assessed ce t n) = classify srt now t n" for srt now n
    by (rule classify_status) (simp_all add: assessed_def classify_draining health_tick_eq [OF assms(1,2)])
  have "assessed ce' ?t (assessed ce t n) = assessed ce' t n" for n
    unfolding assessed_def [of ce'] same by (simp add: assessed_def)
  then show ?thesis
    by (simp add: health_tick_eq [OF health_tick_ok [OF assms(1)] health_tick_fine [OF assms]] health_tick_eq [OF assms(1,4)])
      (simp add: health_tick_eq [OF assms(1,2)])
qed

text \<open>
  C32. The health manager has no memory: however many checks the daemon has made, at whatever
  times, if none failed the registry is what the last check alone makes of the original one.
  Missed or extra ticks therefore do no harm, and no node's class depends on its former
  class, except that a draining one stays draining.
\<close>

theorem health_checks_memoryless:
  assumes "registry_ok t" and "list_all (check_fine t) (checks @ [final])"
    and "\<And>ce rows. ce \<in> set (checks @ [final]) \<Longrightarrow> mset (ce_rows ce rows) = mset rows"
  shows "HealthManager_Start (map Ticked (checks @ [final])) t = HealthManager_Start [Ticked final] t"
proof -
  have "fold health_tick (checks @ [final]) t = health_tick final t"
    using assms
  proof (induction checks arbitrary: t)
    case (Cons ce checks)
    have ce: "check_fine t ce" using Cons.prems(2) by simp
    have fine: "check_fine (health_tick ce t) ce'" if "ce' \<in> set (checks @ [final])" for ce'
      by (rule health_tick_fine [OF Cons.prems(1) ce]) (use that Cons.prems(2,3) in \<open>auto simp: list_all_iff\<close>)
    have "fold health_tick (checks @ [final]) (health_tick ce t) = health_tick final (health_tick ce t)"
      by (rule Cons.IH [OF health_tick_ok [OF Cons.prems(1)]]) (use fine Cons.prems(3) in \<open>auto simp: list_all_iff\<close>)
    also have "\<dots> = health_tick final t"
      by (rule health_tick_twice [OF Cons.prems(1) ce]) (use Cons.prems(2,3) in simp_all)
    finally show ?case by simp
  qed simp
  then show ?thesis
    using ticker_loop_ticks [of health_tick "checks @ [final]" "[]" t] by (simp add: HealthManager_Start_def)
qed

section \<open>A concrete run\<close>

definition demo_check :: "int \<Rightarrow> check_env" where
  "demo_check now = \<lparr>ce_sort = go_isort, ce_rows = go_range 1, ce_pg = demo_pg ''x'' 0, ce_clock = (\<lambda>_. now)\<rparr>"

theorem health_checks_memoryless_witness:
  "HealthManager_Start (map Ticked ([demo_check (20 * second), demo_check (70 * second)] @ [demo_check second])) demo_tables =
   HealthManager_Start [Ticked (demo_check second)] demo_tables"
proof (rule health_checks_memoryless [OF demo_tables_ok])
  have "list_all (\<lambda>n. pg_uuid (demo_pg ''x'' 0) (nr_id n) = Some (nr_id n)) (tb_nodes demo_tables)" by code_simp
  then show "list_all (check_fine demo_tables) ([demo_check (20 * second), demo_check (70 * second)] @ [demo_check second])"
    by (simp add: check_fine_def demo_check_def ranged.rng_mset env_fine_def) (simp add: demo_pg_def)
qed (auto simp: demo_check_def ranged.rng_mset)

end
