(* ===== verification/Cluster.thy ===== *)
theory Cluster
  imports Control_Plane
begin

text \<open>
  The control plane together with the services it calls: the metadata tables, and the node
  agents by the address they listen on. A scheduling request is the scheduler's
  \<^verbatim>\<open>Schedule\<close> over the metadata service's \<^verbatim>\<open>GetNodes\<close>. The
  connections are reliable here and the interceptors admit the calls; \<^theory_text>\<open>Middleware\<close>
  says when they do.
\<close>

section \<open>The state of the cluster\<close>

record cluster_world =
  cw_pg :: pg_env
  cw_tables :: tables
  cw_agents :: "string \<Rightarrow> agent option"

definition on_tables :: "(pg_env \<Rightarrow> tables \<Rightarrow> 'a \<times> tables) \<Rightarrow> cluster_world \<Rightarrow> 'a \<times> cluster_world" where
  "on_tables f w = (case f (cw_pg w) (cw_tables w) of (r, t) \<Rightarrow> (r, w\<lparr>cw_tables := t\<rparr>))"

definition on_agent ::
  "string \<Rightarrow> (agent \<Rightarrow> 'a rpc \<times> agent) \<Rightarrow> cluster_world \<Rightarrow> 'a rpc \<times> cluster_world" where
  "on_agent addr f w =
     (case cw_agents w addr of
        None \<Rightarrow> (Inl (Status Unavailable ''connection refused''), w)
      | Some a \<Rightarrow> (case f a of (r, a) \<Rightarrow> (r, w\<lparr>cw_agents := (cw_agents w)(addr \<mapsto> a)\<rparr>)))"

definition real_services :: "(node_row list \<Rightarrow> node_row list) \<Rightarrow> cluster_world services" where
  "real_services rng =
     \<lparr>sv_schedule = (\<lambda>c w. (Schedule (\<lambda>c. GetNodes rng (cw_pg w) c (cw_tables w)) c, w)),
      sv_get_nodes = (\<lambda>c w. (GetNodes rng (cw_pg w) c (cw_tables w), w)),
      sv_update = (\<lambda>d st node ep k. on_tables (\<lambda>env. UpdateDatabaseStatus env d st node ep k)),
      sv_dial = (\<lambda>_ w. (None, w)),
      sv_create = (\<lambda>addr name d. on_agent addr (CreateDatabase None None name d))\<rparr>"

definition real_backends ::
  "(node_row list \<Rightarrow> node_row list) \<Rightarrow> (database_row list \<Rightarrow> database_row list) \<Rightarrow> cluster_world backends" where
  "real_backends rng rngd =
     \<lparr>be_create_record = (\<lambda>name c st k. on_tables (\<lambda>env. CreateDatabaseRecord env name c [] st k)),
      be_get = (\<lambda>d w. (GetDatabase (cw_pg w) d (cw_tables w), w)),
      be_list = (\<lambda>c w. (ListDatabases rngd (cw_pg w) c (cw_tables w), w)),
      be_update = (\<lambda>d st node ep k. on_tables (\<lambda>env. UpdateDatabaseStatus env d st node ep k)),
      be_delete_record = (\<lambda>d. on_tables (\<lambda>env. DeleteDatabaseRecord env d)),
      be_get_nodes = (\<lambda>c w. (GetNodes rng (cw_pg w) c (cw_tables w), w)),
      be_dial = (\<lambda>_ w. (None, w)),
      be_agent_delete = (\<lambda>addr d. on_agent addr (DeleteDatabase d))\<rparr>"

section \<open>What provisioning relies on\<close>

text \<open>
  The contract of the services for a provisioning that succeeds at once: the scheduler places
  on a listed node whose agent takes the database; announcing and dialing keep that; the agent
  creates, and the final update makes the database hosted.
\<close>

locale placement_contract =
  fixes sv :: "'w services"
    and ready :: "string \<Rightarrow> string \<Rightarrow> string \<Rightarrow> 'w \<Rightarrow> bool"
    and accepting :: "string \<Rightarrow> string \<Rightarrow> string \<Rightarrow> string \<Rightarrow> 'w \<Rightarrow> bool"
    and hosted :: "string \<Rightarrow> string \<Rightarrow> string \<Rightarrow> string \<Rightarrow> 'w \<Rightarrow> bool"
  assumes placed: "ready d name c w \<Longrightarrow> \<exists>r nodes w1 w2. sv_schedule sv c w = (Inr r, w1) \<and>
      sv_get_nodes sv c w1 = (Inr nodes, w2) \<and> sr_node r \<noteq> [] \<and> host_of (sr_node r) nodes \<noteq> [] \<and>
      accepting d name (sr_node r) (agent_address (host_of (sr_node r) nodes)) w2"
    and announced: "accepting d name node addr w \<Longrightarrow>
      accepting d name node addr (snd (sv_update sv d ''provisioning'' node [] k w))"
    and dialed: "accepting d name node addr w \<Longrightarrow>
      \<exists>w1. sv_dial sv addr w = (None, w1) \<and> accepting d name node addr w1"
    and created: "accepting d name node addr w \<Longrightarrow> \<exists>res w1. sv_create sv addr name d w = (Inr res, w1) \<and>
      cr_success res \<and> (\<forall>k. hosted d name node (cr_endpoint res)
        (snd (sv_update sv d ''active'' node (cr_endpoint res) k w1)))"
begin

lemma first_attempt:
  assumes "ready d name c w"
  shows "\<exists>node ep att w'. provision_attempt sv d name c k {} w = (True, att, w') \<and> hosted d name node ep w'"
proof -
  obtain r nodes w1 w2 where s: "sv_schedule sv c w = (Inr r, w1)" "sv_get_nodes sv c w1 = (Inr nodes, w2)"
    "sr_node r \<noteq> []" "host_of (sr_node r) nodes \<noteq> []"
    "accepting d name (sr_node r) (agent_address (host_of (sr_node r) nodes)) w2"
    using placed [OF assms] by blast
  define host where "host = host_of (sr_node r) nodes"
  obtain w3 where w3: "sv_dial sv (agent_address host)
      (snd (sv_update sv d ''provisioning'' (sr_node r) [] (int32 (int k)) w2)) = (None, w3)"
    "accepting d name (sr_node r) (agent_address host) w3"
    using dialed [OF announced] s(5) host_def by blast
  obtain res w4 where "sv_create sv (agent_address host) name d w3 = (Inr res, w4)" "cr_success res"
    "\<forall>k. hosted d name (sr_node r) (cr_endpoint res) (snd (sv_update sv d ''active'' (sr_node r) (cr_endpoint res) k w4))"
    using created [OF w3(2)] by blast
  with s w3 show ?thesis by (auto simp: provision_attempt_def pick_target_def host_def [symmetric])
qed

lemma provisions:
  assumes "ready d name c w"
  shows "\<exists>node ep. hosted d name node ep (ProvisionDatabase sv d name c w)"
proof -
  obtain node ep att w' where a: "provision_attempt sv d name c 1 {} w = (True, att, w')" "hosted d name node ep w'"
    using first_attempt [OF assms] by blast
  then have "ProvisionDatabase sv d name c w = w'"
    by (simp add: ProvisionDatabase_def provision_loop.simps [of _ _ _ _ 0] maxAttempts_def)
  with a(2) show ?thesis by blast
qed

end

section \<open>The cluster keeps the contract\<close>

definition world_ok :: "cluster_world \<Rightarrow> bool" where
  "world_ok w \<longleftrightarrow> registry_ok (cw_tables w) \<and> env_fine (cw_pg w) \<and>
     (\<forall>n \<in> set (tb_nodes (cw_tables w)). nr_id n \<noteq> [] \<and> pg_uuid (cw_pg w) (nr_id n) = Some (nr_id n))"

definition has_record :: "string \<Rightarrow> cluster_world \<Rightarrow> bool" where
  "has_record d w \<longleftrightarrow> d \<noteq> [] \<and>
     (\<exists>d'. pg_uuid (cw_pg w) d = Some d' \<and> d' \<in> dr_id ` set (tb_databases (cw_tables w)))"

text \<open>An agent that is up, without injected faults, and free for the name and the ID.\<close>

definition agent_takes :: "string \<Rightarrow> string \<Rightarrow> agent option \<Rightarrow> bool" where
  "agent_takes d name ao \<longleftrightarrow>
     (case ao of None \<Rightarrow> False
      | Some a \<Rightarrow> no_faults a \<and> map_of (ag_by_name a) name \<in> {None, Some d} \<and> map_of (ag_by_id a) d \<in> {None, Some name})"

definition row_placeable :: "node_row \<Rightarrow> bool" where
  "row_placeable n \<longleftrightarrow> nr_status n \<noteq> ''dead'' \<and> nr_status n \<noteq> ''draining''"

definition cluster_nodes :: "string \<Rightarrow> cluster_world \<Rightarrow> node_row list" where
  "cluster_nodes c w = filter (\<lambda>n. Some (nr_cluster n) = pg_uuid (cw_pg w) c) (tb_nodes (cw_tables w))"

definition real_ready ::
  "(node_row list \<Rightarrow> node_row list) \<Rightarrow> string \<Rightarrow> string \<Rightarrow> string \<Rightarrow> cluster_world \<Rightarrow> bool" where
  "real_ready rng d name c w \<longleftrightarrow>
     (\<forall>rows. mset (rng rows) = mset rows) \<and> world_ok w \<and> has_record d w \<and> name \<noteq> [] \<and> c \<noteq> [] \<and>
     (\<exists>n \<in> set (cluster_nodes c w). row_placeable n) \<and>
     (\<forall>n \<in> set (cluster_nodes c w). row_placeable n \<longrightarrow>
        nr_hostname n \<noteq> [] \<and> agent_takes d name (cw_agents w (agent_address (nr_hostname n))))"

definition real_accepting :: "string \<Rightarrow> string \<Rightarrow> string \<Rightarrow> string \<Rightarrow> cluster_world \<Rightarrow> bool" where
  "real_accepting d name node addr w \<longleftrightarrow>
     world_ok w \<and> has_record d w \<and> name \<noteq> [] \<and> node \<in> nr_id ` set (tb_nodes (cw_tables w)) \<and>
     agent_takes d name (cw_agents w addr)"

definition real_hosted :: "string \<Rightarrow> string \<Rightarrow> string \<Rightarrow> string \<Rightarrow> cluster_world \<Rightarrow> bool" where
  "real_hosted d name node ep w \<longleftrightarrow>
     (\<exists>m. GetDatabase (cw_pg w) d (cw_tables w) = Inr m \<and> di_status m = ''active'' \<and> di_node m = node \<and>
        di_endpoint m = ep) \<and>
     (\<exists>addr a. cw_agents w addr = Some a \<and> map_of (ag_by_id a) d = Some name)"

lemma world_ok_update:
  assumes "world_ok w" and "UpdateDatabaseStatus (cw_pg w) d st i ep k (cw_tables w) = (Inr v, t)"
  shows "world_ok (w\<lparr>cw_tables := t\<rparr>)"
  using assms(1) UpdateDatabaseStatus_ok [OF _ assms(2)] UpdateDatabaseStatus_frame [OF assms(2)]
  by (simp add: world_ok_def)

lemma update_accepting:
  assumes "real_accepting d name node addr w" and "st \<noteq> []"
  obtains t where "UpdateDatabaseStatus (cw_pg w) d st node ep k (cw_tables w) = (Inr True, t)"
    "real_accepting d name node addr (w\<lparr>cw_tables := t\<rparr>)"
proof -
  obtain d' where d': "d \<noteq> []" "pg_uuid (cw_pg w) d = Some d'" "d' \<in> dr_id ` set (tb_databases (cw_tables w))"
    using assms(1) by (auto simp: real_accepting_def has_record_def)
  moreover have "pg_uuid (cw_pg w) node = Some node" "node \<in> nr_id ` set (tb_nodes (cw_tables w))"
    "pg_fail (cw_pg w) = (\<lambda>_. None)"
    using assms(1) by (auto simp: real_accepting_def world_ok_def env_fine_def)
  ultimately obtain t where t: "UpdateDatabaseStatus (cw_pg w) d st node ep k (cw_tables w) = (Inr True, t)"
    using UpdateDatabaseStatus_total assms(2) by meson
  with world_ok_update [OF _ t] UpdateDatabaseStatus_frame [OF t] assms(1) show thesis
    by (intro that [OF t]) (simp add: real_accepting_def has_record_def)
qed

lemma agent_takes_creates:
  assumes "agent_takes d name (Some a)" and "d \<noteq> []" and "name \<noteq> []"
  shows "\<exists>res a'. CreateDatabase None None name d a = (Inr res, a') \<and> cr_success res \<and> map_of (ag_by_id a') d = Some name"
proof -
  have "\<not> ag_fail a > 0" "\<not> ag_hang a > 0" using assms(1) by (simp_all add: agent_takes_def no_faults_def)
  then have "CreateDatabase None None name d a = register_db None name d a"
    using assms(2,3) by (simp add: CreateDatabase_eq)
  moreover have "\<not> (case map_of (ag_by_name a) name of Some i \<Rightarrow> i \<noteq> d | None \<Rightarrow> False)"
    and "\<not> (case map_of (ag_by_id a) d of Some n \<Rightarrow> n \<noteq> name | None \<Rightarrow> False)"
    using assms(1) by (auto simp: agent_takes_def simp del: map_of_eq_Some_iff)
  ultimately show ?thesis by (simp add: register_db_def del: map_of_eq_Some_iff)
qed

lemma find_unique:
  assumes "distinct (map f xs)" and "x \<in> set xs"
  shows "find (\<lambda>y. f y = f x) xs = Some x"
  using assms by (induction xs) (auto simp: image_iff)

lemma node_message_sel [simp]:
  "ni_id (node_message t n) = nr_id n" "ni_hostname (node_message t n) = nr_hostname n"
  "ni_status (node_message t n) = nr_status n"
  by (simp_all add: node_message_def)

text \<open>The list of the cluster's nodes, and the host found under the ID of one of them.\<close>

lemma GetNodes_cluster:
  assumes "env_fine (cw_pg w)" and "c \<noteq> []" and "pg_uuid (cw_pg w) c \<noteq> None"
  shows "GetNodes rng (cw_pg w) c (cw_tables w) = Inr (map (node_message (cw_tables w)) (rng (cluster_nodes c w)))"
  using assms
  by (auto simp: GetNodes_def env_fine_def round_trip_def as_uuid_def delivered_def cluster_nodes_def)

lemma host_of_node:
  assumes "world_ok w" and "mset (rng (cluster_nodes c w)) = mset (cluster_nodes c w)" and "n \<in> set (cluster_nodes c w)"
  shows "host_of (nr_id n) (map (node_message (cw_tables w)) (rng (cluster_nodes c w))) = nr_hostname n"
proof -
  let ?ns = "rng (cluster_nodes c w)"
  have "distinct (map nr_id (tb_nodes (cw_tables w)))"
    using assms(1) by (simp add: world_ok_def registry_ok_def node_keys_ok_def)
  then have "distinct (map nr_id (cluster_nodes c w))" unfolding cluster_nodes_def by (rule distinct_map_filter)
  then have "distinct (map nr_id ?ns)" by (metis assms(2) mset_eq_imp_distinct_iff mset_map)
  then have "distinct (map ni_id (map (node_message (cw_tables w)) ?ns))" by (simp add: comp_def)
  moreover have "node_message (cw_tables w) n \<in> set (map (node_message (cw_tables w)) ?ns)"
    using assms(2,3) by (auto dest: mset_eq_setD)
  ultimately have "find (\<lambda>m. ni_id m = ni_id (node_message (cw_tables w) n)) (map (node_message (cw_tables w)) ?ns) =
      Some (node_message (cw_tables w) n)" by (rule find_unique)
  then show ?thesis by (simp add: host_of_def)
qed

lemma real_placed:
  assumes "real_ready rng d name c w"
  shows "\<exists>r nodes w1 w2. sv_schedule (real_services rng) c w = (Inr r, w1) \<and>
      sv_get_nodes (real_services rng) c w1 = (Inr nodes, w2) \<and> sr_node r \<noteq> [] \<and> host_of (sr_node r) nodes \<noteq> [] \<and>
      real_accepting d name (sr_node r) (agent_address (host_of (sr_node r) nodes)) w2"
proof -
  let ?nodes = "map (node_message (cw_tables w)) (rng (cluster_nodes c w))"
  have w: "world_ok w" "has_record d w" "name \<noteq> []" "c \<noteq> []" and m: "mset (rng (cluster_nodes c w)) = mset (cluster_nodes c w)"
    and ex: "\<exists>n \<in> set (cluster_nodes c w). row_placeable n"
    and all: "\<forall>n \<in> set (cluster_nodes c w). row_placeable n \<longrightarrow>
        nr_hostname n \<noteq> [] \<and> agent_takes d name (cw_agents w (agent_address (nr_hostname n)))"
    using assms by (simp_all add: real_ready_def)
  have set: "set (rng (cluster_nodes c w)) = set (cluster_nodes c w)" by (rule mset_eq_setD [OF m])
  have "pg_uuid (cw_pg w) c \<noteq> None" using ex unfolding cluster_nodes_def by (metis (mono_tags, lifting) mem_Collect_eq option.distinct(1) set_filter)
  then have get: "GetNodes rng (cw_pg w) c (cw_tables w) = Inr ?nodes"
    using w by (intro GetNodes_cluster) (simp_all add: world_ok_def)
  have "\<not> (\<forall>n\<in>set ?nodes. \<not> placeable n)" using ex set by (auto simp: placeable_def row_placeable_def)
  then obtain best where best: "ScheduleNode ?nodes = Inr best"
    by (cases "ScheduleNode ?nodes") (simp_all add: ScheduleNode_Inl_iff)
  then obtain m where m': "m \<in> set (candidates ?nodes)" "best = scored m" by (rule ScheduleNode_Inr)
  then obtain n where n: "n \<in> set (cluster_nodes c w)" "sc_node best = nr_id n" "row_placeable n"
    using candidates_sub [OF m'(1)] set by (auto simp: placeable_def row_placeable_def)
  have h: "host_of (nr_id n) ?nodes = nr_hostname n" by (rule host_of_node) (fact w(1) m n(1))+
  have mem: "n \<in> set (tb_nodes (cw_tables w))" using n(1) by (simp add: cluster_nodes_def)
  then have "nr_id n \<noteq> []" using w(1) by (simp add: world_ok_def)
  moreover have "real_accepting d name (nr_id n) (agent_address (nr_hostname n)) w"
    using w all n mem by (simp add: real_accepting_def)
  moreover have "nr_hostname n \<noteq> []" using all n by blast
  ultimately show ?thesis
    using h get best n(2) w(4) by (simp add: real_services_def Schedule_def)
qed

lemma real_created:
  assumes "real_accepting d name node addr w"
  shows "\<exists>res w1. sv_create (real_services rng) addr name d w = (Inr res, w1) \<and> cr_success res \<and>
     (\<forall>k. real_hosted d name node (cr_endpoint res)
        (snd (sv_update (real_services rng) d ''active'' node (cr_endpoint res) k w1)))"
proof -
  obtain a where a: "cw_agents w addr = Some a" "agent_takes d name (Some a)"
    using assms by (auto simp: real_accepting_def agent_takes_def split: option.splits)
  have dn: "d \<noteq> []" "name \<noteq> []" using assms by (simp_all add: real_accepting_def has_record_def)
  obtain res a' where cr: "CreateDatabase None None name d a = (Inr res, a')" "cr_success res" "map_of (ag_by_id a') d = Some name"
    using agent_takes_creates [OF a(2) dn] by blast
  let ?w1 = "w\<lparr>cw_agents := (cw_agents w)(addr \<mapsto> a')\<rparr>"
  have "real_hosted d name node (cr_endpoint res)
      (snd (sv_update (real_services rng) d ''active'' node (cr_endpoint res) k ?w1))" for k
  proof -
    obtain t where t: "UpdateDatabaseStatus (cw_pg w) d ''active'' node (cr_endpoint res) k (cw_tables w) = (Inr True, t)"
      using update_accepting [OF assms, of "''active''" "cr_endpoint res" k] by blast
    obtain d' where d': "pg_uuid (cw_pg w) d = Some d'" "find_row dr_id d' (tb_databases (cw_tables w)) \<noteq> None"
        "node_ref (cw_pg w) node \<in> insert None (Some ` nr_id ` set (tb_nodes (cw_tables w)))"
      and t': "t = (cw_tables w)\<lparr>tb_databases := update_rows dr_id d' (updated_database (cw_pg w) ''active'' (node_ref (cw_pg w) node) (cr_endpoint res) k) (tb_databases (cw_tables w)),
            tb_replicas := (case node_ref (cw_pg w) node of None \<Rightarrow> tb_replicas (cw_tables w)
              | Some n \<Rightarrow> filter (\<lambda>r. rr_database r \<noteq> d') (tb_replicas (cw_tables w)) @
                  [\<lparr>rr_database = d', rr_node = n, rr_role = ''leader''\<rparr>])\<rparr>"
      using t by (rule UpdateDatabaseStatus_success)
    obtain r where r: "find_row dr_id d' (tb_databases (cw_tables w)) = Some r" using d'(2) by blast
    have node: "node_ref (cw_pg w) node = Some node"
      using assms by (auto simp: real_accepting_def world_ok_def node_ref_def)
    have "dr_cluster r \<noteq> None"
      using assms find_row_Some [OF r] by (auto simp: real_accepting_def world_ok_def registry_ok_def database_keys_ok_def)
    then have "\<exists>m. GetDatabase (cw_pg w) d t = Inr m \<and> di_status m = ''active'' \<and> di_node m = node \<and> di_endpoint m = cr_endpoint res"
      using assms dn(1) d'(1) r
      by (auto simp: GetDatabase_def real_accepting_def world_ok_def env_fine_def round_trip_def as_uuid_def t'
          find_update_rows updated_database_def node database_message_def)
    then show ?thesis
      using t cr(3) by (auto simp: real_hosted_def real_services_def on_tables_def simp del: map_of_eq_Some_iff)
  qed
  then show ?thesis using a(1) cr by (simp add: real_services_def on_agent_def)
qed

interpretation real: placement_contract "real_services rng" "real_ready rng" real_accepting real_hosted for rng
proof
  show "real_accepting d name node addr (snd (sv_update (real_services rng) d ''provisioning'' node [] k w))"
    if "real_accepting d name node addr w" for d name node addr w k
    by (rule update_accepting [OF that, of "''provisioning''" "[]" k]) (simp_all add: real_services_def on_tables_def)
  show "\<exists>w1. sv_dial (real_services rng) addr w = (None, w1) \<and> real_accepting d name node addr w1"
    if "real_accepting d name node addr w" for d name node addr w
    using that by (simp add: real_services_def)
qed (fact real_placed real_created)+

section \<open>From the request to the running database\<close>


section \<open>Sweeping again\<close>

text \<open>A database that waits for its first node, and a world whose database IDs are canonical.\<close>

definition row_holds :: "(database_row \<Rightarrow> bool) \<Rightarrow> string \<Rightarrow> cluster_world \<Rightarrow> bool" where
  "row_holds P d w \<longleftrightarrow> (\<exists>r. find_row dr_id d (tb_databases (cw_tables w)) = Some r \<and> P r)"

definition waiting :: "string \<Rightarrow> cluster_world \<Rightarrow> bool" where
  "waiting d w \<longleftrightarrow> (\<exists>r. find_row dr_id d (tb_databases (cw_tables w)) = Some r \<and>
     dr_status r = ''provisioning'' \<and> dr_node r = None)"

lemma waiting_row: "waiting d = row_holds (\<lambda>r. dr_status r = ''provisioning'' \<and> dr_node r = None) d"
  by (simp add: fun_eq_iff waiting_def row_holds_def)

text \<open>What a touch keeps of the row it rewrites.\<close>

definition touch_stable :: "pg_env \<Rightarrow> (database_row \<Rightarrow> bool) \<Rightarrow> bool" where
  "touch_stable env P \<longleftrightarrow> (\<forall>r k. P r \<longrightarrow> P (updated_database env ''provisioning'' None [] k r))"

lemma updated_database_key [simp]: "dr_id (updated_database env st n ep k r) = dr_id r"
  by (simp add: updated_database_def)

lemma waiting_stable: "touch_stable env (\<lambda>r. dr_status r = ''provisioning'' \<and> dr_node r = None)"
  by (simp add: touch_stable_def updated_database_def)

definition canonical :: "cluster_world \<Rightarrow> bool" where
  "canonical w \<longleftrightarrow> (\<forall>r \<in> set (tb_databases (cw_tables w)).
     dr_id r \<noteq> [] \<and> pg_uuid (cw_pg w) (dr_id r) = Some (dr_id r))"

definition touch :: "string \<Rightarrow> int \<Rightarrow> cluster_world \<Rightarrow> bool rpc \<times> cluster_world" where
  "touch d k = on_tables (\<lambda>env. UpdateDatabaseStatus env d ''provisioning'' [] [] k)"

text \<open>Worlds with the same nodes, agents and database IDs.\<close>

definition same_hosts :: "cluster_world \<Rightarrow> cluster_world \<Rightarrow> bool" where
  "same_hosts w w' \<longleftrightarrow> cw_pg w' = cw_pg w \<and> cw_agents w' = cw_agents w \<and>
     tb_nodes (cw_tables w') = tb_nodes (cw_tables w) \<and>
     dr_id ` set (tb_databases (cw_tables w')) = dr_id ` set (tb_databases (cw_tables w))"

lemma touch_keeps:
  assumes "world_ok w" and "canonical w" and "d' \<in> dr_id ` set (tb_databases (cw_tables w))" and "row_holds P d w"
    and "touch_stable (cw_pg w) P \<or> d' \<noteq> d"
  obtains w' where "touch d' k w = (Inr True, w')" "world_ok w'" "canonical w'" "row_holds P d w'" "same_hosts w w'"
proof -
  have u: "d' \<noteq> []" "pg_uuid (cw_pg w) d' = Some d'" using assms(2,3) by (auto simp: canonical_def)
  moreover have "pg_fail (cw_pg w) = (\<lambda>_. None)" using assms(1) by (simp add: world_ok_def env_fine_def)
  ultimately obtain t where t: "UpdateDatabaseStatus (cw_pg w) d' ''provisioning'' [] [] k (cw_tables w) = (Inr True, t)"
    using UpdateDatabaseStatus_total assms(3) by blast
  obtain d'' where d'': "pg_uuid (cw_pg w) d' = Some d''" "find_row dr_id d'' (tb_databases (cw_tables w)) \<noteq> None"
        "node_ref (cw_pg w) [] \<in> insert None (Some ` nr_id ` set (tb_nodes (cw_tables w)))"
      and t': "t = (cw_tables w)\<lparr>tb_databases := update_rows dr_id d'' (updated_database (cw_pg w) ''provisioning'' (node_ref (cw_pg w) []) [] k) (tb_databases (cw_tables w)),
            tb_replicas := (case node_ref (cw_pg w) [] of None \<Rightarrow> tb_replicas (cw_tables w)
              | Some n \<Rightarrow> filter (\<lambda>r. rr_database r \<noteq> d'') (tb_replicas (cw_tables w)) @
                  [\<lparr>rr_database = d'', rr_node = n, rr_role = ''leader''\<rparr>])\<rparr>"
      using t by (rule UpdateDatabaseStatus_success)
  let ?w = "w\<lparr>cw_tables := t\<rparr>"
  obtain r where "find_row dr_id d (tb_databases (cw_tables w)) = Some r" "P r"
    using assms(4) by (auto simp: row_holds_def)
  then have "row_holds P d ?w"
    using assms(5) updated_database_key u(2) d''(1)
    by (cases "d = d''") (simp_all add: row_holds_def touch_stable_def t' find_update_rows node_ref_def)
  moreover have ids: "dr_id ` set (tb_databases t) = dr_id ` set (tb_databases (cw_tables w))"
    using UpdateDatabaseStatus_frame [OF t] by blast
  moreover have "canonical ?w"
    unfolding canonical_def
  proof
    fix r assume "r \<in> set (tb_databases (cw_tables ?w))"
    then have "dr_id r \<in> dr_id ` set (tb_databases (cw_tables w))" using ids by auto
    then show "dr_id r \<noteq> [] \<and> pg_uuid (cw_pg ?w) (dr_id r) = Some (dr_id r)"
      using assms(2) by (auto simp: canonical_def)
  qed
  ultimately show thesis
    using world_ok_update [OF assms(1) t] t UpdateDatabaseStatus_frame [OF t]
    by (intro that [of ?w]) (simp_all add: touch_def on_tables_def same_hosts_def)
qed

lemma loop_keeps:
  assumes "world_ok w" and "canonical w" and "row_holds P d w"
    and "touch_stable (cw_pg w) P \<or> (\<forall>db \<in> set dbs. overdue (clock (di_id db)) timeout db \<longrightarrow> di_id db \<noteq> d)"
    and "\<And>db. db \<in> set dbs \<Longrightarrow> di_id db \<in> dr_id ` set (tb_databases (cw_tables w))"
  shows "\<exists>jobs w'. reconcile_loop (real_backends rng rngd) clock timeout dbs w = (jobs, w') \<and>
    jobs = map (\<lambda>db. (di_id db, di_name db, di_cluster db)) (filter (\<lambda>db. overdue (clock (di_id db)) timeout db) dbs) \<and>
    world_ok w' \<and> canonical w' \<and> row_holds P d w' \<and> same_hosts w w'"
  using assms
proof (induction dbs arbitrary: w)
  case Nil
  then show ?case by (simp add: same_hosts_def)
next
  case (Cons db dbs)
  show ?case
  proof (cases "overdue (clock (di_id db)) timeout db")
    case True
    obtain w1 where w1: "touch (di_id db) (di_attempts db) w = (Inr True, w1)" "world_ok w1" "canonical w1" "row_holds P d w1"
      "same_hosts w w1"
      by (rule touch_keeps [OF Cons.prems(1,2) _ Cons.prems(3), of "di_id db" "di_attempts db"])
        (use Cons.prems(4,5) True in \<open>auto\<close>)
    have "di_id db' \<in> dr_id ` set (tb_databases (cw_tables w1))" if "db' \<in> set dbs" for db'
      using Cons.prems(5) [of db'] w1(5) that by (simp add: same_hosts_def)
    moreover have "touch_stable (cw_pg w1) P \<or> (\<forall>db \<in> set dbs. overdue (clock (di_id db)) timeout db \<longrightarrow> di_id db \<noteq> d)"
      using Cons.prems(4) w1(5) by (auto simp: same_hosts_def)
    ultimately obtain w' where
      "reconcile_loop (real_backends rng rngd) clock timeout dbs w1 =
        (map (\<lambda>db. (di_id db, di_name db, di_cluster db)) (filter (\<lambda>db. overdue (clock (di_id db)) timeout db) dbs), w')"
      "world_ok w'" "canonical w'" "row_holds P d w'" "same_hosts w1 w'" using Cons.IH [OF w1(2-4)] by auto
    with True w1(1,5) show ?thesis by (simp add: real_backends_def touch_def same_hosts_def)
  next
    case False
    with Cons show ?thesis by simp
  qed
qed

lemma scan_databases_eq:
  "\<forall>r \<in> set rows. dr_cluster r \<noteq> None \<Longrightarrow>
     scan_databases rows acc = Inr (acc @ map (\<lambda>r. projr (database_message r)) rows)"
  by (induction rows arbitrary: acc) (auto simp: database_message_def)

text \<open>One sweep: the jobs of the overdue databases, in a world that still waits.\<close>

lemma sweep:
  assumes w: "world_ok w" "canonical w" "row_holds P d w" "touch_stable (cw_pg w) P \<or> (\<forall>r. P r \<longrightarrow> dr_status r \<noteq> ''provisioning'')"
    and rngd: "\<And>rows. mset (rngd rows) = mset rows"
  shows "\<exists>w'. Reconcile (real_backends rng rngd) clock timeout w =
      (map (\<lambda>db. (di_id db, di_name db, di_cluster db)) (filter (\<lambda>db. overdue (clock (di_id db)) timeout db)
        (map (\<lambda>r. projr (database_message r)) (rngd (tb_databases (cw_tables w))))), w') \<and>
    world_ok w' \<and> canonical w' \<and> row_holds P d w' \<and> same_hosts w w'"
proof -
  let ?rows = "rngd (tb_databases (cw_tables w))"
  let ?dbs = "map (\<lambda>r. projr (database_message r)) ?rows"
  have set: "set ?rows = set (tb_databases (cw_tables w))" using rngd by (rule mset_eq_setD)
  have cl: "\<forall>r \<in> set ?rows. dr_cluster r \<noteq> None"
    using w(1) by (auto simp: set world_ok_def registry_ok_def database_keys_ok_def)
  have list: "be_list (real_backends rng rngd) [] w = (Inr ?dbs, w)"
    using w(1) scan_databases_eq [OF cl, of "[]"]
    by (simp add: real_backends_def ListDatabases_def world_ok_def env_fine_def round_trip_def delivered_def)
  have mem: "di_id db \<in> dr_id ` set (tb_databases (cw_tables w))" if "db \<in> set ?dbs" for db
    using that cl set by (auto simp: database_message_def)
  have spared: "touch_stable (cw_pg w) P \<or> (\<forall>db \<in> set ?dbs. overdue (clock (di_id db)) timeout db \<longrightarrow> di_id db \<noteq> d)"
    using w(4)
  proof
    assume settled: "\<forall>r. P r \<longrightarrow> dr_status r \<noteq> ''provisioning''"
    obtain r where r: "find_row dr_id d (tb_databases (cw_tables w)) = Some r" "P r" using w(3) by (auto simp: row_holds_def)
    have "distinct (map dr_id (tb_databases (cw_tables w)))"
      using w(1) by (simp add: world_ok_def registry_ok_def database_keys_ok_def)
    then have "r' = r" if "r' \<in> set ?rows" "dr_id r' = d" for r'
      using that find_row_Some [OF r(1)] set by (metis (mono_tags, opaque_lifting) distinct_map inj_onD)
    then have "\<forall>db \<in> set ?dbs. overdue (clock (di_id db)) timeout db \<longrightarrow> di_id db \<noteq> d"
      using settled r(2) cl by (auto simp: database_message_def overdue_def)
    then show ?thesis ..
  qed simp
  have "\<exists>jobs w'. reconcile_loop (real_backends rng rngd) clock timeout ?dbs w = (jobs, w') \<and>
    jobs = map (\<lambda>db. (di_id db, di_name db, di_cluster db)) (filter (\<lambda>db. overdue (clock (di_id db)) timeout db) ?dbs) \<and>
    world_ok w' \<and> canonical w' \<and> row_holds P d w' \<and> same_hosts w w'"
    by (rule loop_keeps [OF w(1-3) spared]) (rule mem)
  then obtain jobs w' where loop: "reconcile_loop (real_backends rng rngd) clock timeout ?dbs w = (jobs, w')"
    and jobs: "jobs = map (\<lambda>db. (di_id db, di_name db, di_cluster db)) (filter (\<lambda>db. overdue (clock (di_id db)) timeout db) ?dbs)"
    and w': "world_ok w'" "canonical w'" "row_holds P d w'" "same_hosts w w'"
    by (elim exE conjE) (rule that)
  have "Reconcile (real_backends rng rngd) clock timeout w = reconcile_loop (real_backends rng rngd) clock timeout ?dbs w"
    by (simp only: Reconcile_def list prod.case sum.case)
  then show ?thesis using w' unfolding loop jobs by (intro exI conjI) simp_all
qed

lemma sweep_dispatches:
  assumes w: "world_ok w" "canonical w" and rngd: "\<And>rows. mset (rngd rows) = mset rows"
    and row: "find_row dr_id d (tb_databases (cw_tables w)) = Some row" "dr_status row = ''provisioning''"
      "dr_node row = None \<or> clock d - dr_updated row > timeout"
    and c: "dr_cluster row = Some c"
  shows "(d, dr_name row, c) \<in> set (fst (Reconcile (real_backends rng rngd) clock timeout w))"
proof -
  have "row_holds (\<lambda>_. True) d w" "touch_stable (cw_pg w) (\<lambda>_. True) \<or> (\<forall>r :: database_row. True \<longrightarrow> dr_status r \<noteq> ''provisioning'')"
    using row by (simp_all add: row_holds_def touch_stable_def)
  from sweep [OF w this rngd, of rng clock timeout] obtain w' where r: "Reconcile (real_backends rng rngd) clock timeout w =
      (map (\<lambda>db. (di_id db, di_name db, di_cluster db)) (filter (\<lambda>db. overdue (clock (di_id db)) timeout db)
        (map (\<lambda>r. projr (database_message r)) (rngd (tb_databases (cw_tables w))))), w')"
    by blast
  have "row \<in> set (rngd (tb_databases (cw_tables w)))" "dr_id row = d"
    using find_row_Some [OF row(1)] mset_eq_setD [OF rngd] by auto
  moreover have "dr_updated row div second * second \<le> dr_updated row"
    using parse_format_rfc3339 [of "dr_updated row"] by (simp add: format_rfc3339_def)
  then have "overdue (clock d) timeout (projr (database_message row))"
    using row c \<open>dr_id row = d\<close> by (auto simp: overdue_def database_message_def format_rfc3339_def)
  moreover have "(di_id (projr (database_message row)), di_name (projr (database_message row)),
      di_cluster (projr (database_message row))) = (d, dr_name row, c)"
    using c \<open>dr_id row = d\<close> by (simp add: database_message_def)
  ultimately show ?thesis unfolding r fst_conv set_map set_filter
    by (intro rev_image_eqI [of "projr (database_message row)"]) auto
qed

lemma sweep_waiting:
  assumes "world_ok w" "canonical w" "waiting d w" and "\<And>rows. mset (rngd rows) = mset rows"
  shows "d \<in> fst ` set (fst (Reconcile (real_backends rng rngd) clock timeout w))"
proof -
  obtain row where row: "find_row dr_id d (tb_databases (cw_tables w)) = Some row" "dr_status row = ''provisioning''" "dr_node row = None"
    using assms(3) by (auto simp: waiting_def)
  then obtain c where "dr_cluster row = Some c"
    using assms(1) find_row_Some [OF row(1)] by (auto simp: world_ok_def registry_ok_def database_keys_ok_def)
  then show ?thesis using sweep_dispatches [OF assms(1,2,4) row(1,2)] row(3) by force
qed

text \<open>
  C14. The touch does not prevent a second dispatch: a database without a node is dispatched by
  every sweep, whatever its time stamp and however little time has passed, so two sweeps
  before its first job has chosen a node start two jobs for it, and it still waits.
\<close>

theorem Reconcile_dispatches_again:
  assumes "world_ok w" and "canonical w" and "waiting d w" and "\<And>rows. mset (rngd rows) = mset rows"
  shows "\<exists>jobs w'. Reconcile (real_backends rng rngd) clock timeout w = (jobs, w') \<and> d \<in> fst ` set jobs \<and>
    world_ok w' \<and> canonical w' \<and> waiting d w' \<and>
    d \<in> fst ` set (fst (Reconcile (real_backends rng rngd) clock' timeout w'))"
proof -
  obtain jobs w' where r: "Reconcile (real_backends rng rngd) clock timeout w = (jobs, w')"
    and w': "world_ok w'" "canonical w'" "waiting d w'"
    using sweep [OF assms(1,2) assms(3) [unfolded waiting_row] disjI1 [OF waiting_stable] assms(4)] unfolding waiting_row by blast
  have "d \<in> fst ` set jobs" using sweep_waiting [OF assms, of rng clock timeout] by (simp add: r)
  with r w' sweep_waiting [OF w' assms(4)] show ?thesis by metis
qed

section \<open>Deleting\<close>

lemma all_nodes_host:
  assumes "world_ok w" and "mset (rng (tb_nodes (cw_tables w))) = mset (tb_nodes (cw_tables w))"
    and "n \<in> set (tb_nodes (cw_tables w))"
  shows "be_get_nodes (real_backends rng rngd) [] w =
      (Inr (map (node_message (cw_tables w)) (rng (tb_nodes (cw_tables w)))), w) \<and>
    host_of (nr_id n) (map (node_message (cw_tables w)) (rng (tb_nodes (cw_tables w)))) = nr_hostname n"
proof -
  let ?ns = "rng (tb_nodes (cw_tables w))"
  have "distinct (map nr_id (tb_nodes (cw_tables w)))"
    using assms(1) by (simp add: world_ok_def registry_ok_def node_keys_ok_def)
  then have "distinct (map nr_id ?ns)" by (metis assms(2) mset_eq_imp_distinct_iff mset_map)
  then have "distinct (map ni_id (map (node_message (cw_tables w)) ?ns))" by (simp add: comp_def)
  moreover have "node_message (cw_tables w) n \<in> set (map (node_message (cw_tables w)) ?ns)"
    using assms(2,3) by (auto dest: mset_eq_setD)
  ultimately have "find (\<lambda>m. ni_id m = ni_id (node_message (cw_tables w) n)) (map (node_message (cw_tables w)) ?ns) =
      Some (node_message (cw_tables w) n)" by (rule find_unique)
  then have "host_of (nr_id n) (map (node_message (cw_tables w)) ?ns) = nr_hostname n" by (simp add: host_of_def)
  with assms(1) show ?thesis
    by (simp add: real_backends_def GetNodes_def world_ok_def env_fine_def round_trip_def delivered_def)
qed

lemma marking:
  assumes "world_ok w" and "has_record d w"
  obtains t where "UpdateDatabaseStatus (cw_pg w) d ''deleting'' [] [] 0 (cw_tables w) = (Inr True, t)"
    "world_ok (w\<lparr>cw_tables := t\<rparr>)" "has_record d (w\<lparr>cw_tables := t\<rparr>)" "tb_nodes t = tb_nodes (cw_tables w)"
proof -
  obtain d' where "d \<noteq> []" "pg_uuid (cw_pg w) d = Some d'" "d' \<in> dr_id ` set (tb_databases (cw_tables w))"
    using assms(2) by (auto simp: has_record_def)
  moreover have "pg_fail (cw_pg w) = (\<lambda>_. None)" using assms(1) by (simp add: world_ok_def env_fine_def)
  ultimately obtain t where t: "UpdateDatabaseStatus (cw_pg w) d ''deleting'' [] [] 0 (cw_tables w) = (Inr True, t)"
    using UpdateDatabaseStatus_total by blast
  with world_ok_update [OF assms(1) t] UpdateDatabaseStatus_frame [OF t] assms(2) show thesis
    by (intro that [OF t]) (simp_all add: has_record_def)
qed

text \<open>
  C15. Deleting a database of a stateful-set node removes its record and nothing else: the
  background job dials the bare host name, where creation dials the host's name in the
  headless service, so with no agent at the bare address every agent, the one that holds the
  database included, stays as it is, while the request answers success and the record is gone.
\<close>

theorem delete_leaves_database_behind:
  assumes "world_ok w" and "\<And>rows. mset (rng rows) = mset rows"
    and "GetDatabase (cw_pg w) d (cw_tables w) = Inr db" and "n \<in> set (tb_nodes (cw_tables w))"
    and "di_node db = nr_id n" and "has_prefix (nr_hostname n) ''nimbusdb-worker-node-''"
    and "cw_agents w (nr_hostname n @ '':50053'') = None"
  shows "\<exists>w1. handleDeleteDatabase (real_backends rng rngd) d w = (Http_Body 200 True, Some db, w1) \<and>
    cw_agents (delete_job (real_backends rng rngd) d db w1) = cw_agents w \<and>
    \<not> has_record d (delete_job (real_backends rng rngd) d db w1)"
proof -
  let ?be = "real_backends rng rngd" and ?host = "nr_hostname n"
  have d: "d \<noteq> []" "has_record d w"
    using assms(3) by (auto simp: GetDatabase_def has_record_def as_uuid_def round_trip_def find_row_None
        split: if_splits sum.splits option.splits dest!: find_row_Some)
  obtain t where t: "UpdateDatabaseStatus (cw_pg w) d ''deleting'' [] [] 0 (cw_tables w) = (Inr True, t)"
    and t1: "world_ok (w\<lparr>cw_tables := t\<rparr>)" "has_record d (w\<lparr>cw_tables := t\<rparr>)" "tb_nodes t = tb_nodes (cw_tables w)"
    using assms(1) d(2) by (rule marking)
  define w1 where "w1 = w\<lparr>cw_tables := t\<rparr>"
  have handler: "handleDeleteDatabase ?be d w = (Http_Body 200 True, Some db, w1)"
    using assms(3) d(1) t by (simp add: handleDeleteDatabase_def real_backends_def on_tables_def w1_def)
  have w1: "world_ok w1" "has_record d w1" "n \<in> set (tb_nodes (cw_tables w1))" "cw_agents w1 = cw_agents w"
    using t1 assms(4) by (simp_all add: w1_def)
  have "nr_id n \<noteq> []" using w1(1,3) by (simp add: world_ok_def)
  moreover have addr: "delete_address ?host = ?host @ '':50053''" "?host \<noteq> []"
    using assms(6) by (auto simp: delete_address_def has_prefix_iff)
  moreover have "mset (rng (tb_nodes (cw_tables w1))) = mset (tb_nodes (cw_tables w1))" by (rule assms(2))
  note all_nodes_host [where rng = rng and rngd = rngd, OF w1(1) this w1(3)]
  moreover have "be_dial ?be a w1 = (None, w1)" "be_agent_delete ?be (?host @ '':50053'') d w1 =
      (Inl (Status Unavailable ''connection refused''), w1)" for a
    using assms(7) w1(4) by (simp_all add: real_backends_def on_agent_def)
  ultimately have job: "delete_job ?be d db w1 = snd (be_delete_record ?be d w1)"
    by (simp add: delete_job_def assms(5))
  obtain d' where d': "pg_uuid (cw_pg w1) d = Some d'" "d' \<in> dr_id ` set (tb_databases (cw_tables w1))"
    using w1(2) by (auto simp: has_record_def)
  then obtain t' where del: "DeleteDatabaseRecord (cw_pg w1) d (cw_tables w1) = (Inr True, t')"
    using DeleteDatabaseRecord_total w1(1) d(1) by (metis world_ok_def env_fine_def)
  then obtain d'' where "pg_uuid (cw_pg w1) d = Some d''" "find_row dr_id d'' (tb_databases (cw_tables w1)) \<noteq> None"
    "t' = (cw_tables w1)\<lparr>tb_databases := filter (\<lambda>r. dr_id r \<noteq> d'') (tb_databases (cw_tables w1)),
            tb_replicas := filter (\<lambda>r. rr_database r \<noteq> d'') (tb_replicas (cw_tables w1))\<rparr>"
    by (rule DeleteDatabaseRecord_success)
  then have "\<not> has_record d (w1\<lparr>cw_tables := t'\<rparr>)" by (auto simp: has_record_def)
  moreover have "delete_job ?be d db w1 = w1\<lparr>cw_tables := t'\<rparr>"
    unfolding job using del by (simp add: real_backends_def on_tables_def)
  ultimately show ?thesis using handler w1(4) by (intro exI [of _ w1]) simp
qed

section \<open>A concrete cluster\<close>

text \<open>One healthy node whose agent is up; and the same with a host of the stateful set.\<close>

definition demo_cluster :: cluster_world where
  "demo_cluster = \<lparr>cw_pg = demo_pg ''d1'' 7, cw_tables = demo_tables,
     cw_agents = (\<lambda>a. if a = ''h-n1:50053'' then Some (NewServer ''data'' ''h-n1'') else None)\<rparr>"

definition demo_accepted :: cluster_world where
  "demo_accepted = snd (snd (handleCreateDatabase (real_backends (go_range 0) (go_range 0))
     (Inr (''orders'', ''c1'')) demo_cluster))"

lemma demo_world_ok: "world_ok demo_cluster"
proof -
  have "list_all (\<lambda>n. nr_id n \<noteq> [] \<and> pg_uuid (cw_pg demo_cluster) (nr_id n) = Some (nr_id n)) (tb_nodes demo_tables)"
    by code_simp
  moreover have "env_fine (cw_pg demo_cluster)" "cw_tables demo_cluster = demo_tables"
    by (simp_all add: demo_cluster_def env_fine_def demo_pg_def)
  ultimately show ?thesis using demo_tables_ok by (simp add: world_ok_def list_all_iff)
qed

lemma demo_accepts: "handleCreateDatabase (real_backends (go_range 0) (go_range 0)) (Inr (''orders'', ''c1'')) demo_cluster =
    (Http_Body 202 (''d1'', ''provisioning''), [(''d1'', ''orders'', ''c1'')], demo_accepted)"
proof -
  have "fst (handleCreateDatabase (real_backends (go_range 0) (go_range 0)) (Inr (''orders'', ''c1'')) demo_cluster) =
      Http_Body 202 (''d1'', ''provisioning'')"
    "fst (snd (handleCreateDatabase (real_backends (go_range 0) (go_range 0)) (Inr (''orders'', ''c1'')) demo_cluster)) =
      [(''d1'', ''orders'', ''c1'')]"
    by code_simp+
  then show ?thesis unfolding demo_accepted_def by (metis prod.collapse)
qed


lemma handler_pg: "cw_pg (snd (snd (handleCreateDatabase (real_backends rng rngd) body w))) = cw_pg w"
  by (auto simp: handleCreateDatabase_def real_backends_def on_tables_def split: sum.splits prod.splits)

lemma demo_accepted_ok: "world_ok demo_accepted"
proof -
  have "registry_ok (cw_tables demo_accepted)" by code_simp
  moreover have "env_fine (cw_pg demo_accepted)"
    using demo_world_ok by (simp add: demo_accepted_def handler_pg world_ok_def)
  moreover have "list_all (\<lambda>n. nr_id n \<noteq> [] \<and> pg_uuid (cw_pg demo_accepted) (nr_id n) = Some (nr_id n))
      (tb_nodes (cw_tables demo_accepted))" by code_simp
  ultimately show ?thesis by (simp add: world_ok_def list_all_iff)
qed

theorem Reconcile_dispatches_again_witness:
  "\<exists>jobs w'. Reconcile (real_backends (go_range 0) (go_range 0)) (\<lambda>_. 8) (300 * second) demo_accepted = (jobs, w') \<and>
     ''d1'' \<in> fst ` set jobs \<and> world_ok w' \<and> canonical w' \<and> waiting ''d1'' w' \<and>
     ''d1'' \<in> fst ` set (fst (Reconcile (real_backends (go_range 0) (go_range 0)) (\<lambda>_. 9) (300 * second) w'))"
proof (rule Reconcile_dispatches_again [OF demo_accepted_ok])
  have "list_all (\<lambda>r. dr_id r \<noteq> [] \<and> pg_uuid (cw_pg demo_accepted) (dr_id r) = Some (dr_id r))
      (tb_databases (cw_tables demo_accepted))" by code_simp
  then show "canonical demo_accepted" by (simp add: canonical_def list_all_iff)
  have "case find_row dr_id ''d1'' (tb_databases (cw_tables demo_accepted)) of None \<Rightarrow> False
      | Some r \<Rightarrow> dr_status r = ''provisioning'' \<and> dr_node r = None" by code_simp
  then show "waiting ''d1'' demo_accepted" by (auto simp: waiting_def split: option.splits)
  show "mset (go_range 0 rows) = mset rows" for rows :: "database_row list" by (rule ranged.rng_mset)
qed

definition demo_set_host :: cluster_world where
  "demo_set_host = \<lparr>cw_pg = demo_pg ''d1'' 7,
     cw_tables = demo_tables\<lparr>tb_nodes := [(demo_row ''n1'' ''healthy'')\<lparr>nr_hostname := ''nimbusdb-worker-node-0''\<rparr>]\<rparr>,
     cw_agents = (\<lambda>a. if a = ''nimbusdb-worker-node-0.nimbusdb-worker-node:50053''
        then Some (NewServer ''data'' ''nimbusdb-worker-node-0'') else None)\<rparr>"

definition demo_provisioned :: cluster_world where
  "demo_provisioned = ProvisionDatabase (real_services (go_range 0)) ''d1'' ''orders'' ''c1''
     (snd (snd (handleCreateDatabase (real_backends (go_range 0) (go_range 0)) (Inr (''orders'', ''c1'')) demo_set_host)))"

definition demo_stateful :: cluster_world where
  "demo_stateful = \<lparr>cw_pg = demo_pg ''x'' 9, cw_tables = cw_tables demo_provisioned, cw_agents = cw_agents demo_provisioned\<rparr>"

theorem delete_leaves_database_behind_witness:
  "\<exists>db w1. handleDeleteDatabase (real_backends (go_range 0) (go_range 0)) ''d1'' demo_stateful = (Http_Body 200 True, Some db, w1) \<and>
    cw_agents (delete_job (real_backends (go_range 0) (go_range 0)) ''d1'' db w1) = cw_agents demo_stateful \<and>
    \<not> has_record ''d1'' (delete_job (real_backends (go_range 0) (go_range 0)) ''d1'' db w1)"
proof -
  define n where "n = (demo_row ''n1'' ''healthy'')\<lparr>nr_hostname := ''nimbusdb-worker-node-0''\<rparr>"
  have "case GetDatabase (cw_pg demo_stateful) ''d1'' (cw_tables demo_stateful) of Inl _ \<Rightarrow> False
      | Inr db \<Rightarrow> di_node db = ''n1''" by code_simp
  then obtain db where db: "GetDatabase (cw_pg demo_stateful) ''d1'' (cw_tables demo_stateful) = Inr db" "di_node db = ''n1''"
    by (auto split: sum.splits)
  have nodes: "tb_nodes (cw_tables demo_stateful) = [n]" unfolding n_def by code_simp
  have "registry_ok (cw_tables demo_stateful)" by code_simp
  moreover have "env_fine (cw_pg demo_stateful)" by (simp add: demo_stateful_def env_fine_def demo_pg_def)
  moreover have "nr_id n \<noteq> []" "pg_uuid (cw_pg demo_stateful) (nr_id n) = Some (nr_id n)" unfolding n_def by code_simp+
  ultimately have ok: "world_ok demo_stateful" by (simp add: world_ok_def nodes)
  have "\<exists>w1. handleDeleteDatabase (real_backends (go_range 0) (go_range 0)) ''d1'' demo_stateful = (Http_Body 200 True, Some db, w1) \<and>
    cw_agents (delete_job (real_backends (go_range 0) (go_range 0)) ''d1'' db w1) = cw_agents demo_stateful \<and>
    \<not> has_record ''d1'' (delete_job (real_backends (go_range 0) (go_range 0)) ''d1'' db w1)"
  proof (rule delete_leaves_database_behind [OF ok _ db(1)])
    show "n \<in> set (tb_nodes (cw_tables demo_stateful))" by (simp add: nodes)
    show "di_node db = nr_id n" by (simp add: db(2) n_def demo_row_def)
    show "has_prefix (nr_hostname n) ''nimbusdb-worker-node-''" unfolding n_def by code_simp
    show "cw_agents demo_stateful (nr_hostname n @ '':50053'') = None" unfolding n_def by code_simp
    show "mset (go_range 0 rows) = mset rows" for rows :: "node_row list" by (rule ranged.rng_mset)
  qed
  then show ?thesis by blast
qed

lemma demo_provisioned_agent:
  "(case cw_agents demo_provisioned ''nimbusdb-worker-node-0.nimbusdb-worker-node:50053'' of
      Some a \<Rightarrow> map_of (ag_by_id a) ''d1'' = Some ''orders'' | None \<Rightarrow> False)"
  by code_simp

end
