(* ===== verification/Deployment.thy ===== *)
theory Deployment
  imports Health
begin

text \<open>
  \<^verbatim>\<open>services/deployment-controller/controller/controller.go\<close>: rolling, canary and
  blue-green deployments. Records are shared by pointer between the map, the active deployment
  and the goroutine that runs the deployment, so they live in a store of records and the others
  hold positions in it. Every critical section is one step of the controller, a goroutine is
  its program point, and what it reads between two sections (health checks, metrics, the node
  list, the clock) is the answer of its environment to that step. Calls of
  \<^verbatim>\<open>slog\<close> and \<^verbatim>\<open>telemetry\<close> are left out.
\<close>

section \<open>Deployments and the controller\<close>

record deployment =
  dpl_id :: string
  dpl_type :: string
  dpl_version :: string
  dpl_status :: string
  dpl_split :: int
  dpl_weight :: int
  dpl_observe :: int
  dpl_error :: string
  dpl_start :: int
  dpl_end :: "int option"

text \<open>Where a goroutine stands; a position is the record it works on.\<close>

datatype thread =
    Begin string
  | Rolling nat "string list"
  | Canary_Set nat
  | Canary_Watch nat int
  | Blue_Green nat
  | Finished

record controller =
  ct_store :: "deployment list"
  ct_deployments :: "string \<rightharpoonup> nat"
  ct_active :: "nat option"
  ct_threads :: "thread list"

definition NewController :: controller where
  "NewController = \<lparr>ct_store = [], ct_deployments = Map.empty, ct_active = None, ct_threads = []\<rparr>"

section \<open>Requests\<close>

record start_request =
  sq_type :: string
  sq_version :: string
  sq_weight :: int
  sq_observe :: int

text \<open>\<open>now\<close> is the clock of the ID, \<open>start\<close> that of the start time.\<close>

definition StartDeployment ::
  "int \<Rightarrow> int \<Rightarrow> start_request \<Rightarrow> controller \<Rightarrow> (string \<times> string) \<times> controller" where
  "StartDeployment now start req c =
     (let depType = (if sq_type req = [] then ''rolling'' else sq_type req);
          targetVer = (if sq_version req = [] then ''v2.0.0'' else sq_version req);
          depID = ''deploy-'' @ itoa now;
          r = \<lparr>dpl_id = depID, dpl_type = depType, dpl_version = targetVer, dpl_status = ''in_progress'',
               dpl_split = 0, dpl_weight = sq_weight req, dpl_observe = sq_observe req, dpl_error = [],
               dpl_start = start, dpl_end = None\<rparr>;
          l = length (ct_store c)
      in ((depID, ''in_progress''),
          c\<lparr>ct_store := ct_store c @ [r], ct_deployments := (ct_deployments c)(depID \<mapsto> l),
            ct_active := Some l, ct_threads := ct_threads c @ [Begin depID]\<rparr>))"

definition set_record :: "nat \<Rightarrow> (deployment \<Rightarrow> deployment) \<Rightarrow> controller \<Rightarrow> controller" where
  "set_record l f c = c\<lparr>ct_store := (ct_store c)[l := f (ct_store c ! l)]\<rparr>"

definition no_deployment :: "string \<Rightarrow> rpc_error" where
  "no_deployment msg = Status UnknownCode msg"

definition GetDeploymentStatus :: "string \<Rightarrow> controller \<Rightarrow> deployment rpc" where
  "GetDeploymentStatus depID c =
     (case ct_deployments c depID of
        Some l \<Rightarrow> Inr (ct_store c ! l)
      | None \<Rightarrow>
          (case ct_active c of
             Some l \<Rightarrow> Inr (ct_store c ! l)
           | None \<Rightarrow> Inl (no_deployment (''deployment '' @ depID @ '' not found''))))"

definition TriggerRollback :: "int \<Rightarrow> string \<Rightarrow> string \<Rightarrow> controller \<Rightarrow> (bool \<times> string) rpc \<times> controller" where
  "TriggerRollback now depID reason c =
     (case (case ct_deployments c depID of Some l \<Rightarrow> Some l | None \<Rightarrow> ct_active c) of
        None \<Rightarrow> (Inl (no_deployment ''no deployment found to roll back''), c)
      | Some l \<Rightarrow>
          (Inr (True, ''rolled_back''),
           set_record l (\<lambda>r. r\<lparr>dpl_status := ''rolled_back'', dpl_split := 0,
             dpl_error := ''Manual rollback: '' @ reason, dpl_end := Some now\<rparr>) c))"

section \<open>The goroutine of a deployment\<close>

text \<open>
  The answers of the environment to one step: the node list, if there is a metadata client;
  the health check; the metric evaluator's error rate and whether it failed; the clock, where
  the step reads it and for the end time it writes.
\<close>

record answers =
  an_nodes :: "node_info list rpc option"
  an_health :: "string \<Rightarrow> bool"
  an_metric :: "go_float \<times> bool"
  an_now :: int
  an_end :: int

definition rollout_nodes :: "node_info list rpc option \<Rightarrow> string list" where
  "rollout_nodes listing =
     (case listing of
        Some (Inr nodes) \<Rightarrow> if nodes = [] then [''node-1'', ''node-2'', ''node-3''] else map ni_id nodes
      | _ \<Rightarrow> [''node-1'', ''node-2'', ''node-3''])"

definition complete :: "int \<Rightarrow> deployment \<Rightarrow> deployment" where
  "complete now r = r\<lparr>dpl_status := ''completed'', dpl_split := 100, dpl_end := Some now\<rparr>"

definition halt_rollout :: "string \<Rightarrow> int \<Rightarrow> deployment \<Rightarrow> deployment" where
  "halt_rollout node now r =
     r\<lparr>dpl_status := ''failed'', dpl_error := ''health check failed on node '' @ node, dpl_end := Some now\<rparr>"

definition performRollback :: "string \<Rightarrow> int \<Rightarrow> deployment \<Rightarrow> deployment" where
  "performRollback reason now r =
     r\<lparr>dpl_status := ''rolled_back'', dpl_split := 0, dpl_error := reason, dpl_end := Some now\<rparr>"

definition canary_weight :: "deployment \<Rightarrow> int" where
  "canary_weight r = (if dpl_weight r \<le> 0 then 10 else dpl_weight r)"

definition canary_observe :: "deployment \<Rightarrow> int" where
  "canary_observe r = (if dpl_observe r \<le> 0 then 2 else dpl_observe r)"

definition breach_text :: "go_float \<Rightarrow> bool \<Rightarrow> string" where
  "breach_text errRate healthy =
     ''canary metric breach: error_rate='' @ fmt_fixed 2 errRate @ ''%, healthy='' @
     (if healthy then ''true'' else ''false'')"

text \<open>One step of a goroutine: where it stands afterwards, and the controller.\<close>

fun advance :: "answers \<Rightarrow> thread \<Rightarrow> controller \<Rightarrow> thread \<times> controller" where
  "advance a (Begin depID) c =
     (case ct_deployments c depID of
        None \<Rightarrow> (Finished, c)
      | Some l \<Rightarrow>
          (let t = dpl_type (ct_store c ! l)
           in (if t = ''canary'' then Canary_Set l
               else if t = ''blue-green'' then Blue_Green l
               else Rolling l (rollout_nodes (an_nodes a)), c)))"
| "advance a (Rolling l []) c = (Finished, set_record l (complete (an_end a)) c)"
| "advance a (Rolling l (n # ns)) c =
     (if \<not> an_health a n then (Finished, set_record l (halt_rollout n (an_end a)) c)
      else (Rolling l ns, c))"
| "advance a (Canary_Set l) c =
     (Canary_Watch l (an_now a + canary_observe (ct_store c ! l) * second),
      set_record l (\<lambda>r. r\<lparr>dpl_split := canary_weight r\<rparr>) c)"
| "advance a (Canary_Watch l deadline) c =
     (if \<not> an_now a < deadline then (Finished, set_record l (complete (an_end a)) c)
      else
        let (errRate, failed) = an_metric a; healthy = an_health a ''canary-node''
        in if failed \<or> flt (Fin 5) errRate \<or> \<not> healthy
           then (Finished, set_record l (performRollback (breach_text errRate healthy) (an_end a)) c)
           else (Canary_Watch l deadline, c))"
| "advance a (Blue_Green l) c =
     (if \<not> an_health a ''green-environment''
      then (Finished, set_record l
              (performRollback ''green environment failed pre-switch health verification'' (an_end a)) c)
      else (Finished, set_record l (complete (an_end a)) c))"
| "advance a Finished c = (Finished, c)"

definition thread_step :: "answers \<Rightarrow> nat \<Rightarrow> controller \<Rightarrow> controller" where
  "thread_step a i c =
     (case advance a (ct_threads c ! i) c of (t, c') \<Rightarrow> c'\<lparr>ct_threads := (ct_threads c')[i := t]\<rparr>)"

section \<open>Interleavings\<close>

text \<open>
  Requests are serialised by the mutex, and the clock readings that make the IDs differ.
\<close>

inductive deploy_step :: "controller \<Rightarrow> controller \<Rightarrow> bool" where
  start: "ct_deployments c (''deploy-'' @ itoa now) = None \<Longrightarrow> deploy_step c (snd (StartDeployment now start req c))"
| rollback: "deploy_step c (snd (TriggerRollback now depID reason c))"
| thread: "i < length (ct_threads c) \<Longrightarrow> deploy_step c (thread_step a i c)"

inductive deploy_reach :: "controller \<Rightarrow> bool" where
  new: "deploy_reach NewController"
| step: "deploy_reach c \<Longrightarrow> deploy_step c c' \<Longrightarrow> deploy_reach c'"

section \<open>What every interleaving keeps\<close>

text \<open>
  Thread \<open>i\<close> runs the deployment of record \<open>i\<close>. While it runs the record is in progress or
  rolled back by hand, with no traffic or the canary's; once it has finished, the traffic is
  what the status says.
\<close>

fun runs_record :: "controller \<Rightarrow> nat \<Rightarrow> thread \<Rightarrow> bool" where
  "runs_record c i (Begin depID) = (ct_deployments c depID = Some i)"
| "runs_record c i (Rolling l _) = (l = i \<and> dpl_type (ct_store c ! i) \<notin> {''canary'', ''blue-green''})"
| "runs_record c i (Canary_Set l) = (l = i \<and> dpl_type (ct_store c ! i) = ''canary'')"
| "runs_record c i (Canary_Watch l _) = (l = i \<and> dpl_type (ct_store c ! i) = ''canary'')"
| "runs_record c i (Blue_Green l) = (l = i \<and> dpl_type (ct_store c ! i) = ''blue-green'')"
| "runs_record c i Finished = True"

fun running_split :: "thread \<Rightarrow> deployment \<Rightarrow> bool" where
  "running_split (Canary_Watch _ _) r =
     (if dpl_status r = ''in_progress'' then dpl_split r = canary_weight r else dpl_split r \<in> {0, canary_weight r})"
| "running_split _ r = (dpl_split r = 0)"

definition settled :: "deployment \<Rightarrow> bool" where
  "settled r \<longleftrightarrow>
     dpl_status r = ''completed'' \<and> dpl_split r = 100 \<or>
     dpl_status r = ''failed'' \<and> dpl_split r = 0 \<and> dpl_type r \<notin> {''canary'', ''blue-green''} \<or>
     dpl_status r = ''rolled_back'' \<and> dpl_split r = 0"

definition record_ok :: "thread \<Rightarrow> deployment \<Rightarrow> bool" where
  "record_ok t r \<longleftrightarrow>
     (if t = Finished then settled r \<and> dpl_end r \<noteq> None
      else running_split t r \<and>
        (dpl_status r = ''in_progress'' \<and> dpl_end r = None \<or> dpl_status r = ''rolled_back'' \<and> dpl_end r \<noteq> None))"

text \<open>A halted rolling deployment keeps its (zero) traffic, whatever happened before.\<close>

definition controller_ok :: "controller \<Rightarrow> bool" where
  "controller_ok c \<longleftrightarrow>
     length (ct_threads c) = length (ct_store c) \<and>
     (\<forall>d l. ct_deployments c d = Some l \<longrightarrow> l < length (ct_store c) \<and> dpl_id (ct_store c ! l) = d) \<and>
     (\<forall>l. ct_active c = Some l \<longrightarrow> l < length (ct_store c)) \<and>
     (\<forall>i < length (ct_store c). ct_deployments c (dpl_id (ct_store c ! i)) = Some i \<and>
        runs_record c i (ct_threads c ! i) \<and> record_ok (ct_threads c ! i) (ct_store c ! i))"

lemma controller_ok_new: "controller_ok NewController"
  by (simp add: controller_ok_def NewController_def)

lemma runs_record_frame:
  assumes "runs_record c i t" and "\<And>d. ct_deployments c d = Some i \<Longrightarrow> ct_deployments c' d = Some i"
    and "dpl_type (ct_store c' ! i) = dpl_type (ct_store c ! i)"
  shows "runs_record c' i t"
  using assms by (cases t) auto

text \<open>What holds of each record; a new record and a changed one.\<close>

definition slot_ok :: "controller \<Rightarrow> nat \<Rightarrow> bool" where
  "slot_ok c i \<longleftrightarrow> ct_deployments c (dpl_id (ct_store c ! i)) = Some i \<and>
     runs_record c i (ct_threads c ! i) \<and> record_ok (ct_threads c ! i) (ct_store c ! i)"

lemma controller_ok_iff:
  "controller_ok c \<longleftrightarrow>
     length (ct_threads c) = length (ct_store c) \<and>
     (\<forall>d l. ct_deployments c d = Some l \<longrightarrow> l < length (ct_store c) \<and> dpl_id (ct_store c ! l) = d) \<and>
     (\<forall>l. ct_active c = Some l \<longrightarrow> l < length (ct_store c)) \<and> (\<forall>i < length (ct_store c). slot_ok c i)"
  by (simp add: controller_ok_def slot_ok_def)

lemma new_record_ok:
  assumes ok: "controller_ok c" and fresh: "ct_deployments c (dpl_id r) = None"
    and r: "dpl_status r = ''in_progress''" "dpl_split r = 0" "dpl_end r = None"
  shows "controller_ok (c\<lparr>ct_store := ct_store c @ [r], ct_deployments := (ct_deployments c)(dpl_id r \<mapsto> length (ct_store c)),
      ct_active := Some (length (ct_store c)), ct_threads := ct_threads c @ [Begin (dpl_id r)]\<rparr>)" (is "controller_ok ?c")
  unfolding controller_ok_iff
proof (intro conjI allI impI)
  let ?n = "length (ct_store c)"
  have len: "length (ct_threads c) = ?n" using ok by (simp add: controller_ok_iff)
  show "length (ct_threads ?c) = length (ct_store ?c)" by (simp add: len)
  show "l < length (ct_store ?c)" if "ct_active ?c = Some l" for l using that by simp
  fix d l assume d: "ct_deployments ?c d = Some l"
  have old: "l < ?n \<and> dpl_id (ct_store c ! l) = d" if "ct_deployments c d = Some l" for d l
    using that ok by (simp add: controller_ok_iff)
  show "l < length (ct_store ?c)" and "dpl_id (ct_store ?c ! l) = d"
    using d old [of d l] by (auto simp: nth_append split: if_splits)
next
  let ?n = "length (ct_store c)"
  have len: "length (ct_threads c) = ?n" using ok by (simp add: controller_ok_iff)
  fix i assume i: "i < length (ct_store ?c)"
  show "slot_ok ?c i"
  proof (cases "i = ?n")
    case True
    then show ?thesis by (simp add: slot_ok_def nth_append len record_ok_def r)
  next
    case False
    with i have i: "i < ?n" by simp
    then have old: "slot_ok c i" using ok by (simp add: controller_ok_iff)
    have "runs_record ?c i (ct_threads c ! i)"
      by (rule runs_record_frame [of c]) (use old fresh i in \<open>auto simp: slot_ok_def nth_append\<close>)
    moreover have "dpl_id (ct_store c ! i) \<noteq> dpl_id r" using old fresh by (auto simp: slot_ok_def)
    ultimately show ?thesis using old i by (simp add: slot_ok_def nth_append len)
  qed
qed

lemma StartDeployment_ok:
  assumes "controller_ok c" and "ct_deployments c (''deploy-'' @ itoa now) = None"
  shows "controller_ok (snd (StartDeployment now start req c))"
proof -
  let ?r = "\<lparr>dpl_id = ''deploy-'' @ itoa now, dpl_type = (if sq_type req = [] then ''rolling'' else sq_type req),
      dpl_version = (if sq_version req = [] then ''v2.0.0'' else sq_version req), dpl_status = ''in_progress'',
      dpl_split = 0, dpl_weight = sq_weight req, dpl_observe = sq_observe req, dpl_error = [],
      dpl_start = start, dpl_end = None\<rparr>"
  have "controller_ok (c\<lparr>ct_store := ct_store c @ [?r], ct_deployments := (ct_deployments c)(dpl_id ?r \<mapsto> length (ct_store c)),
      ct_active := Some (length (ct_store c)), ct_threads := ct_threads c @ [Begin (dpl_id ?r)]\<rparr>)"
    by (rule new_record_ok [OF assms(1)]) (simp_all only: deployment.simps assms(2))
  then show ?thesis by (simp only: StartDeployment_def Let_def snd_conv deployment.simps)
qed

text \<open>A step that rewrites record \<open>l\<close>, keeping its ID and type, and moves thread \<open>l\<close>.\<close>

lemma rewrite_record_ok:
  assumes ok: "controller_ok c" and l: "l < length (ct_store c)"
    and keep: "dpl_id r = dpl_id (ct_store c ! l)" "dpl_type r = dpl_type (ct_store c ! l)"
    and c': "c' = c\<lparr>ct_store := (ct_store c)[l := r], ct_threads := (ct_threads c)[l := t]\<rparr>"
    and t: "runs_record c l t" "record_ok t r"
  shows "controller_ok c'"
  unfolding controller_ok_iff
proof (intro conjI allI impI)
  have len: "length (ct_threads c) = length (ct_store c)" using ok by (simp add: controller_ok_iff)
  then show "length (ct_threads c') = length (ct_store c')" by (simp add: c')
  show "k < length (ct_store c')" if "ct_active c' = Some k" for k
    using that ok by (simp add: c' controller_ok_iff)
  fix d k assume "ct_deployments c' d = Some k"
  then show "k < length (ct_store c')" and "dpl_id (ct_store c' ! k) = d"
    using ok keep l by (cases "k = l"; auto simp: c' controller_ok_iff)+
next
  have len: "length (ct_threads c) = length (ct_store c)" using ok by (simp add: controller_ok_iff)
  fix i assume i: "i < length (ct_store c')"
  then have old: "slot_ok c i" using ok by (simp add: c' controller_ok_iff)
  have type: "dpl_type (ct_store c' ! j) = dpl_type (ct_store c ! j)" for j
    using keep l by (cases "j = l") (simp_all add: c')
  have run: "runs_record c' i u" if "runs_record c i u" for u
    by (rule runs_record_frame [OF that]) (simp_all add: type, simp add: c')
  show "slot_ok c' i"
  proof (cases "i = l")
    case True
    then show ?thesis
      using old run [of t] t keep l len by (simp add: slot_ok_def c')
  next
    case False
    then show ?thesis
      using old run [of "ct_threads c ! i"] i by (simp add: slot_ok_def c' nth_list_update)
  qed
qed

lemma TriggerRollback_ok:
  assumes "controller_ok c" shows "controller_ok (snd (TriggerRollback now depID reason c))"
proof (cases "case ct_deployments c depID of Some l \<Rightarrow> Some l | None \<Rightarrow> ct_active c")
  case None
  with assms show ?thesis by (simp add: TriggerRollback_def)
next
  case (Some l)
  then have l: "l < length (ct_store c)" using assms by (auto simp: controller_ok_iff split: option.splits)
  then have old: "slot_ok c l" and len: "length (ct_threads c) = length (ct_store c)"
    using assms by (simp_all add: controller_ok_iff)
  let ?r = "(ct_store c ! l)\<lparr>dpl_status := ''rolled_back'', dpl_split := 0,
             dpl_error := ''Manual rollback: '' @ reason, dpl_end := Some now\<rparr>"
  have "record_ok (ct_threads c ! l) ?r"
    using old by (cases "ct_threads c ! l") (auto simp: slot_ok_def record_ok_def settled_def)
  moreover have "snd (TriggerRollback now depID reason c) =
      c\<lparr>ct_store := (ct_store c)[l := ?r], ct_threads := (ct_threads c)[l := ct_threads c ! l]\<rparr>"
    using Some by (simp add: TriggerRollback_def set_record_def)
  ultimately show ?thesis
    using old by (intro rewrite_record_ok [OF assms l, of ?r _ "ct_threads c ! l"]) (simp_all add: slot_ok_def)
qed

lemma moved_thread_ok:
  assumes ok: "controller_ok c" and i: "i < length (ct_threads c)"
    and "runs_record c i t" "record_ok t (ct_store c ! i)"
  shows "controller_ok (c\<lparr>ct_threads := (ct_threads c)[i := t]\<rparr>)"
proof -
  have "i < length (ct_store c)" using ok i by (simp add: controller_ok_iff)
  then show ?thesis by (rule rewrite_record_ok [OF ok]) (use assms(3,4) in simp_all)
qed

lemma written_record_ok:
  assumes ok: "controller_ok c" and i: "i < length (ct_threads c)"
    and "dpl_id (f (ct_store c ! i)) = dpl_id (ct_store c ! i)" "dpl_type (f (ct_store c ! i)) = dpl_type (ct_store c ! i)"
    and "runs_record c i t" "record_ok t (f (ct_store c ! i))"
  shows "controller_ok ((set_record i f c)\<lparr>ct_threads := (ct_threads c)[i := t]\<rparr>)"
proof -
  have "i < length (ct_store c)" using ok i by (simp add: controller_ok_iff)
  then show ?thesis by (rule rewrite_record_ok [OF ok]) (use assms(3-6) in \<open>simp_all add: set_record_def\<close>)
qed

lemmas finish_defs = complete_def halt_rollout_def performRollback_def

lemma thread_step_ok:
  assumes ok: "controller_ok c" and i: "i < length (ct_threads c)"
  shows "controller_ok (thread_step a i c)"
proof -
  have "slot_ok c i" using assms by (simp add: controller_ok_iff)
  then have old: "runs_record c i (ct_threads c ! i)" "record_ok (ct_threads c ! i) (ct_store c ! i)"
    by (simp_all add: slot_ok_def)
  note moved = moved_thread_ok [OF ok i] and written = written_record_ok [OF ok i]
  have step: "thread_step a i c = (snd (advance a (ct_threads c ! i) c))\<lparr>ct_threads :=
      (ct_threads (snd (advance a (ct_threads c ! i) c)))[i := fst (advance a (ct_threads c ! i) c)]\<rparr>"
    by (simp add: thread_step_def case_prod_beta)
  have th [simp]: "ct_threads (set_record l f c) = ct_threads c" for l f by (simp add: set_record_def)
  show ?thesis
  proof (cases "ct_threads c ! i")
    case (Begin d)
    with old have d: "ct_deployments c d = Some i" by simp
    show ?thesis
      using old unfolding step Begin
      by (auto simp: d Let_def record_ok_def intro!: moved)
  next
    case (Rolling l ns)
    then show ?thesis
      using old unfolding step Rolling
      by (cases ns) (auto simp: record_ok_def settled_def finish_defs intro!: moved written)
  next
    case (Canary_Set l)
    then show ?thesis
      using old unfolding step Canary_Set
      by (auto simp: record_ok_def settled_def canary_weight_def intro!: written)
  next
    case (Canary_Watch l deadline)
    then show ?thesis
      using old unfolding step Canary_Watch
      by (auto simp: record_ok_def settled_def finish_defs Let_def split: prod.splits intro!: moved written)
  next
    case (Blue_Green l)
    then show ?thesis
      using old unfolding step Blue_Green
      by (auto simp: record_ok_def settled_def finish_defs intro!: written)
  next
    case Finished
    then show ?thesis using old unfolding step Finished by (auto intro!: moved)
  qed
qed

lemma deploy_step_ok: "deploy_step c c' \<Longrightarrow> controller_ok c \<Longrightarrow> controller_ok c'"
  by (cases rule: deploy_step.cases) (auto simp: StartDeployment_ok TriggerRollback_ok thread_step_ok)

lemma deploy_reach_ok: "deploy_reach c \<Longrightarrow> controller_ok c"
  by (induction rule: deploy_reach.induct) (auto simp: controller_ok_new dest: deploy_step_ok)

section \<open>What a deployment reports\<close>

text \<open>
  C17. On every interleaving of requests and goroutines a deployment is what it reports: once
  its goroutine has finished it is completed with all traffic, failed or rolled back with none,
  and only a rolling deployment fails; while it runs it is in progress, or rolled back by hand,
  with no traffic or the canary's. Its ID always finds it.
\<close>

theorem deployment_invariant:
  assumes "deploy_reach c" and "i < length (ct_store c)"
  shows "GetDeploymentStatus (dpl_id (ct_store c ! i)) c = Inr (ct_store c ! i) \<and>
    (if ct_threads c ! i = Finished then settled (ct_store c ! i)
     else dpl_status (ct_store c ! i) \<in> {''in_progress'', ''rolled_back''} \<and>
       dpl_split (ct_store c ! i) \<in> {0, canary_weight (ct_store c ! i)})"
proof -
  have "slot_ok c i" using deploy_reach_ok [OF assms(1)] assms(2) by (simp add: controller_ok_iff)
  then show ?thesis
    by (cases "ct_threads c ! i") (auto simp: slot_ok_def record_ok_def GetDeploymentStatus_def split: if_splits)
qed

text \<open>A goroutine alone, with the answers of its environment in turn.\<close>

definition run_thread :: "nat \<Rightarrow> answers list \<Rightarrow> controller \<Rightarrow> controller" where
  "run_thread i as c = fold (\<lambda>a. thread_step a i) as c"

lemma run_thread_simps [simp]:
  "run_thread i [] c = c" "run_thread i (a # as) c = run_thread i as (thread_step a i c)"
  by (simp_all add: run_thread_def)

lemma run_thread_append: "run_thread i (as @ bs) c = run_thread i bs (run_thread i as c)"
  by (simp add: run_thread_def)

lemma thread_step_eq:
  "advance a (ct_threads c ! i) c = (t, c') \<Longrightarrow> thread_step a i c = c'\<lparr>ct_threads := (ct_threads c')[i := t]\<rparr>"
  by (simp add: thread_step_def)

definition at_record :: "controller \<Rightarrow> nat \<Rightarrow> thread \<Rightarrow> deployment \<Rightarrow> bool" where
  "at_record c i t r \<longleftrightarrow> i < length (ct_threads c) \<and> i < length (ct_store c) \<and> ct_threads c ! i = t \<and> ct_store c ! i = r"

lemma step_at:
  assumes "at_record c i t r"
  shows "(advance a t c = (t', set_record i f c) \<Longrightarrow> at_record (thread_step a i c) i t' (f r))"
    and "advance a t c = (t', c) \<Longrightarrow> at_record (thread_step a i c) i t' r"
  using assms by (simp_all add: at_record_def thread_step_eq set_record_def)

text \<open>\<^verbatim>\<open>executeRolling\<close> as a function of the health checks.\<close>

definition executeRolling :: "(string \<Rightarrow> bool) \<Rightarrow> int \<Rightarrow> string list \<Rightarrow> deployment \<Rightarrow> deployment" where
  "executeRolling healthy now nodes r =
     (case find (\<lambda>n. \<not> healthy n) nodes of Some n \<Rightarrow> halt_rollout n now r | None \<Rightarrow> complete now r)"

lemma finished_stays: "at_record c i Finished r \<Longrightarrow> at_record (run_thread i as c) i Finished r"
proof (induction as arbitrary: c)
  case (Cons a as)
  have "at_record (thread_step a i c) i Finished r" by (rule step_at(2) [OF Cons.prems]) simp
  with Cons.IH show ?case by simp
qed simp

text \<open>
  C18. A rolling deployment stops at the first unhealthy node: alone, with one health check
  result per node, its goroutine finishes after at most one step more than it has nodes; the
  deployment is completed exactly when every node is healthy, and otherwise failed with the
  name of the first unhealthy one.
\<close>

theorem rolling_stops_at_first_unhealthy:
  assumes "at_record c i (Rolling i nodes) r"
  shows "at_record (run_thread i (replicate (length nodes + 1) a) c) i Finished
    (executeRolling (an_health a) (an_end a) nodes r)"
  using assms
proof (induction nodes arbitrary: c)
  case Nil
  have "at_record (thread_step a i c) i Finished (complete (an_end a) r)"
    by (rule step_at(1) [OF Nil]) simp
  then show ?case by (simp add: executeRolling_def)
next
  case (Cons n ns)
  show ?case
  proof (cases "an_health a n")
    case True
    have "at_record (thread_step a i c) i (Rolling i ns) r"
      by (rule step_at(2) [OF Cons.prems]) (simp add: True)
    from Cons.IH [OF this] show ?thesis by (simp add: executeRolling_def True)
  next
    case False
    have "at_record (thread_step a i c) i Finished (halt_rollout n (an_end a) r)"
      by (rule step_at(1) [OF Cons.prems]) (simp add: False)
    from finished_stays [OF this, of "replicate (length ns + 1) a"] show ?thesis
      by (simp add: executeRolling_def False)
  qed
qed

text \<open>What one check of a canary finds.\<close>

definition canary_breach :: "answers \<Rightarrow> bool" where
  "canary_breach a \<longleftrightarrow> snd (an_metric a) \<or> flt (Fin 5) (fst (an_metric a)) \<or> \<not> an_health a ''canary-node''"

text \<open>
  C19. A canary is promoted only after every check up to its deadline passed: alone, its
  goroutine watches as long as the checks before the deadline find nothing; the first step
  after that either promotes it to all traffic, when the deadline has come, or takes its
  traffic away, when the error rate exceeds five percent or cannot be had or the canary is
  unhealthy.
\<close>

theorem canary_decides:
  assumes "at_record c i (Canary_Watch i deadline) r"
    and "list_all (\<lambda>a. an_now a < deadline \<and> \<not> canary_breach a) as"
  shows "at_record (run_thread i as c) i (Canary_Watch i deadline) r \<and>
    (an_now z \<ge> deadline \<longrightarrow> at_record (run_thread i (as @ [z]) c) i Finished (complete (an_end z) r)) \<and>
    (an_now z < deadline \<and> canary_breach z \<longrightarrow> at_record (run_thread i (as @ [z]) c) i Finished
       (performRollback (breach_text (fst (an_metric z)) (an_health z ''canary-node'')) (an_end z) r))"
proof -
  have watch: "at_record (run_thread i as c) i (Canary_Watch i deadline) r"
    using assms
  proof (induction as arbitrary: c)
    case (Cons a as)
    have "at_record (thread_step a i c) i (Canary_Watch i deadline) r"
      by (rule step_at(2) [OF Cons.prems(1)])
        (use Cons.prems(2) in \<open>auto simp: canary_breach_def Let_def split: prod.splits\<close>)
    with Cons show ?case by simp
  qed simp
  have "at_record (thread_step z i (run_thread i as c)) i Finished (complete (an_end z) r)" if "an_now z \<ge> deadline"
    by (rule step_at(1) [OF watch]) (use that in simp)
  moreover have "at_record (thread_step z i (run_thread i as c)) i Finished
       (performRollback (breach_text (fst (an_metric z)) (an_health z ''canary-node'')) (an_end z) r)"
    if "an_now z < deadline" "canary_breach z"
    by (rule step_at(1) [OF watch]) (use that in \<open>simp add: canary_breach_def Let_def case_prod_beta\<close>)
  ultimately show ?thesis using watch by (simp add: run_thread_append)
qed

section \<open>Manual rollback\<close>

definition healthy_at :: "int \<Rightarrow> answers" where
  "healthy_at now = \<lparr>an_nodes = None, an_health = (\<lambda>_. True), an_metric = (Fin 0, False), an_now = now, an_end = now\<rparr>"

lemma healthy_at_sel [simp]:
  "an_health (healthy_at now) n" "an_metric (healthy_at now) = (Fin 0, False)" "an_now (healthy_at now) = now"
  by (simp_all add: healthy_at_def)

lemma completes_from:
  assumes "at_record c i t r" and "runs_record c i t" and "t \<noteq> Finished"
  shows "\<exists>as now. at_record (run_thread i as c) i Finished (complete now r)"
proof -
  have comp: "complete now (r\<lparr>dpl_split := x\<rparr>) = complete now r" for now x by (simp add: complete_def)
  have rolling: "\<exists>as. at_record (run_thread i as c) i Finished (complete 0 r)" if "at_record c i (Rolling i ns) r" for c ns
  proof
    show "at_record (run_thread i (replicate (length ns + 1) (healthy_at 0)) c) i Finished (complete 0 r)"
      using that
    proof (induction ns arbitrary: c)
      case Nil
      have "at_record (thread_step (healthy_at 0) i c) i Finished (complete 0 r)"
        by (rule step_at(1) [OF Nil]) (simp add: healthy_at_def)
      then show ?case by simp
    next
      case (Cons n ns)
      have "at_record (thread_step (healthy_at 0) i c) i (Rolling i ns) r"
        by (rule step_at(2) [OF Cons.prems]) simp
      with Cons.IH show ?case by simp
    qed
  qed
  have watch: "\<exists>as. at_record (run_thread i as c) i Finished (complete d r)" if "at_record c i (Canary_Watch i d) r" for c d r
  proof
    have "at_record (thread_step (healthy_at d) i c) i Finished (complete d r)"
      by (rule step_at(1) [OF that]) (simp add: healthy_at_def)
    then show "at_record (run_thread i [healthy_at d] c) i Finished (complete d r)" by simp
  qed
  have set: "\<exists>as d. at_record (run_thread i as c) i Finished (complete d r)" if a: "at_record c i (Canary_Set i) r" for c
  proof -
    have "at_record (thread_step (healthy_at 0) i c) i
        (Canary_Watch i (0 + canary_observe r * second)) (r\<lparr>dpl_split := canary_weight r\<rparr>)"
      using a by (intro step_at(1) [where f = "\<lambda>r. r\<lparr>dpl_split := canary_weight r\<rparr>", OF a]) (simp add: at_record_def)
    from watch [OF this] obtain as where
      "at_record (run_thread i as (thread_step (healthy_at 0) i c)) i Finished (complete (0 + canary_observe r * second) r)"
      unfolding comp by blast
    then show ?thesis by (intro exI [of _ "healthy_at 0 # as"]) auto
  qed
  have green: "\<exists>as. at_record (run_thread i as c) i Finished (complete 0 r)" if "at_record c i (Blue_Green i) r" for c
  proof
    have "at_record (thread_step (healthy_at 0) i c) i Finished (complete 0 r)"
      by (rule step_at(1) [OF that]) (simp add: healthy_at_def)
    then show "at_record (run_thread i [healthy_at 0] c) i Finished (complete 0 r)" by simp
  qed
  show ?thesis
  proof (cases t)
    case (Begin d)
    with assms(2) have d: "ct_deployments c d = Some i" by simp
    let ?t = "if dpl_type r = ''canary'' then Canary_Set i else if dpl_type r = ''blue-green'' then Blue_Green i
       else Rolling i (rollout_nodes None)"
    have "at_record (thread_step (healthy_at 0) i c) i ?t r"
      using assms(1) unfolding Begin
      by (intro step_at(2) [where t = "Begin d"]) (simp_all add: d at_record_def healthy_at_def Let_def)
    then have "\<exists>as now. at_record (run_thread i as (thread_step (healthy_at 0) i c)) i Finished (complete now r)"
      using set green rolling by (auto split: if_splits) metis+
    then obtain as now where "at_record (run_thread i (healthy_at 0 # as) c) i Finished (complete now r)" by auto
    then show ?thesis by blast
  qed (use assms set green rolling watch in \<open>auto, metis+\<close>)
qed

text \<open>
  A manual rollback does not stop a deployment: it answers success and takes the traffic
  away, but the goroutine goes on, and when its checks pass it completes the deployment with
  all traffic. This can happen to every deployment that is still running when it is rolled
  back, in every reachable state.
\<close>

theorem rollback_is_overwritten:
  assumes "deploy_reach c" and "i < length (ct_store c)" and "ct_threads c ! i \<noteq> Finished"
  shows "\<exists>c' as. TriggerRollback now (dpl_id (ct_store c ! i)) reason c = (Inr (True, ''rolled_back''), c') \<and>
    dpl_status (ct_store c' ! i) = ''rolled_back'' \<and> dpl_split (ct_store c' ! i) = 0 \<and>
    dpl_status (ct_store (run_thread i as c') ! i) = ''completed'' \<and> dpl_split (ct_store (run_thread i as c') ! i) = 100"
proof -
  have ok: "controller_ok c" by (rule deploy_reach_ok [OF assms(1)])
  then have slot: "slot_ok c i" and len: "length (ct_threads c) = length (ct_store c)"
    using assms(2) by (simp_all add: controller_ok_iff)
  let ?r = "(ct_store c ! i)\<lparr>dpl_status := ''rolled_back'', dpl_split := 0,
             dpl_error := ''Manual rollback: '' @ reason, dpl_end := Some now\<rparr>"
  let ?c = "c\<lparr>ct_store := (ct_store c)[i := ?r]\<rparr>"
  have tr: "TriggerRollback now (dpl_id (ct_store c ! i)) reason c = (Inr (True, ''rolled_back''), ?c)"
    using slot by (simp add: slot_ok_def TriggerRollback_def set_record_def)
  have "at_record ?c i (ct_threads c ! i) ?r" using assms(2) len by (simp add: at_record_def)
  moreover have "runs_record ?c i (ct_threads c ! i)"
    by (rule runs_record_frame [of c]) (use slot assms(2) in \<open>simp_all add: slot_ok_def\<close>)
  ultimately obtain as now' where "at_record (run_thread i as ?c) i Finished (complete now' ?r)"
    using completes_from assms(3) by blast
  then have "dpl_status (ct_store (run_thread i as ?c) ! i) = ''completed''" "dpl_split (ct_store (run_thread i as ?c) ! i) = 100"
    by (simp_all add: at_record_def complete_def)
  with tr assms(2) show ?thesis by (intro exI [of _ ?c] exI [of _ as]) simp
qed

section \<open>Draining a node\<close>

text \<open>
  The optional clients: the metadata service's \<^verbatim>\<open>UpdateNodeStatus\<close>, and the
  dialer with the agent's \<^verbatim>\<open>DrainNode\<close> behind it (no answer when dialing
  fails).
\<close>

record 'w drain_clients =
  dn_metadata :: "(string \<Rightarrow> string \<Rightarrow> 'w \<Rightarrow> bool rpc \<times> 'w) option"
  dn_agent :: "(string \<Rightarrow> 'w \<Rightarrow> (bool \<times> int) rpc option \<times> 'w) option"

definition DrainNode_orchestration ::
  "'w drain_clients \<Rightarrow> string \<Rightarrow> 'w \<Rightarrow> (bool \<times> int) rpc \<times> 'w" where
  "DrainNode_orchestration dc nodeID w =
     (if nodeID = [] then (Inl (Status UnknownCode ''node_id is required''), w)
      else
        let w = (case dn_metadata dc of None \<Rightarrow> w | Some upd \<Rightarrow> snd (upd nodeID ''draining'' w));
            (moved, w) =
              (case dn_agent dc of
                 None \<Rightarrow> (0, w)
               | Some drain \<Rightarrow>
                   (case drain nodeID w of
                      (Some (Inr (True, n)), w) \<Rightarrow> (n, w)
                    | (_, w) \<Rightarrow> (0, w)));
            w = (case dn_metadata dc of None \<Rightarrow> w | Some upd \<Rightarrow> snd (upd nodeID ''drained'' w))
        in (Inr (True, int32 moved), w))"

text \<open>
  A drain always reports success, and the node is marked drained even when nothing was
  moved: with a metadata service that works and no way to reach the agent (the dialer is unset
  in every controller the code builds), the node's status becomes drained, zero databases are
  reported as moved, and its databases stay where they are.
\<close>

theorem drain_without_agent:
  assumes "env_fine env" and "pg_uuid env i = Some i" and "i \<noteq> []" and "i \<in> nr_id ` set (tb_nodes t)"
    and "dn_metadata dc = Some (UpdateNodeStatus env)"
    and "dn_agent dc = None \<or> (\<exists>drain. dn_agent dc = Some drain \<and> (\<forall>t. drain i t = (None, t)))"
  shows "DrainNode_orchestration dc i t = (Inr (True, 0), set_status i ''drained'' t) \<and>
    tb_databases (set_status i ''drained'' t) = tb_databases t \<and>
    (\<forall>n \<in> set (tb_nodes (set_status i ''drained'' t)). nr_id n = i \<longrightarrow> nr_status n = ''drained'')"
proof -
  have up: "UpdateNodeStatus env i st u = (Inr True, set_status i st u)"
    if "st \<noteq> []" "i \<in> nr_id ` set (tb_nodes u)" for st u
  proof -
    have "rows_affected nr_id i (tb_nodes u) \<noteq> 0"
      using that(2) rows_affected_pos [of nr_id i "tb_nodes u"] by (simp add: find_row_None)
    then show ?thesis
      using that(1) assms(1-3)
      by (simp add: UpdateNodeStatus_def env_fine_def round_trip_def update_node_def as_uuid_def set_status_def)
  qed
  have mem: "i \<in> nr_id ` set (tb_nodes (set_status i st t))" for st
  proof -
    have "map nr_id (tb_nodes (set_status i st t)) = map nr_id (tb_nodes t)" by (simp add: set_status_def)
    then have "nr_id ` set (tb_nodes (set_status i st t)) = nr_id ` set (tb_nodes t)" by (metis list.set_map)
    then show ?thesis using assms(4) by simp
  qed
  have twice: "set_status i st' (set_status i st t) = set_status i st' t" for st st'
    by (simp add: set_status_def update_rows_def comp_def)
  have agent: "(case dn_agent dc of None \<Rightarrow> (0, u) | Some drain \<Rightarrow>
      (case drain i u of (Some (Inr (True, n)), w) \<Rightarrow> (n, w) | (_, w) \<Rightarrow> (0, w))) = (0, u)" for u
    using assms(6) by auto
  have "int32 0 = 0" by (simp add: int32_def)
  have u: "UpdateNodeStatus env i ''draining'' t = (Inr True, set_status i ''draining'' t)"
    "UpdateNodeStatus env i ''drained'' (set_status i ''draining'' t) = (Inr True, set_status i ''drained'' t)"
    using up [OF _ assms(4)] up [OF _ mem] by (simp_all add: twice)
  show ?thesis
  proof (intro conjI ballI impI)
    show "DrainNode_orchestration dc i t = (Inr (True, 0), set_status i ''drained'' t)"
      by (simp only: DrainNode_orchestration_def assms(3,5) if_False Let_def option.case u snd_conv agent prod.case
          \<open>int32 0 = 0\<close>)
    show "tb_databases (set_status i ''drained'' t) = tb_databases t" by (simp add: set_status_def)
    fix n assume n: "n \<in> set (tb_nodes (set_status i ''drained'' t))" and i: "nr_id n = i"
    have "n \<in> (\<lambda>r. if nr_id r = i then r\<lparr>nr_status := ''drained''\<rparr> else r) ` set (tb_nodes t)"
      using n by (simp add: set_status_def set_update_rows)
    then obtain r where "n = (if nr_id r = i then r\<lparr>nr_status := ''drained''\<rparr> else r)" by blast
    with i show "nr_status n = ''drained''" by (cases "nr_id r = i") simp_all
  qed
qed

section \<open>Concrete deployments\<close>

definition demo_started :: controller where
  "demo_started = snd (StartDeployment 100 101 \<lparr>sq_type = ''canary'', sq_version = [], sq_weight = 25, sq_observe = 0\<rparr> NewController)"

lemma demo_started_reach: "deploy_reach demo_started"
  unfolding demo_started_def
  by (rule deploy_reach.step [OF deploy_reach.new deploy_step.start]) (simp add: NewController_def)

theorem deployment_invariant_witness:
  "GetDeploymentStatus ''deploy-100'' demo_started = Inr (ct_store demo_started ! 0) \<and>
   dpl_split (ct_store demo_started ! 0) \<in> {0, 25}"
proof -
  have i: "0 < length (ct_store demo_started)" by code_simp
  have id: "dpl_id (ct_store demo_started ! 0) = ''deploy-100''" by code_simp
  have nf: "(ct_threads demo_started ! 0 = Finished) = False" by code_simp
  have w: "canary_weight (ct_store demo_started ! 0) = 25" by code_simp
  show ?thesis
    using deployment_invariant [OF demo_started_reach i] unfolding id w nf if_False by (rule conjE) (intro conjI; elim conjE; assumption)
qed

theorem rollback_is_overwritten_witness:
  "\<exists>c' as. TriggerRollback 7 (dpl_id (ct_store demo_started ! 0)) ''bad build'' demo_started = (Inr (True, ''rolled_back''), c') \<and>
    dpl_status (ct_store c' ! 0) = ''rolled_back'' \<and> dpl_split (ct_store c' ! 0) = 0 \<and>
    dpl_status (ct_store (run_thread 0 as c') ! 0) = ''completed'' \<and> dpl_split (ct_store (run_thread 0 as c') ! 0) = 100"
  by (rule rollback_is_overwritten [OF demo_started_reach]) code_simp+

text \<open>A node agent that cannot be reached; answers in which the second node is unhealthy.\<close>

definition demo_sick :: answers where
  "demo_sick = \<lparr>an_nodes = Some (Inr []), an_health = (\<lambda>n. n \<noteq> ''node-2''), an_metric = (Fin 1, False), an_now = 5, an_end = 6\<rparr>"

definition demo_rolling :: controller where
  "demo_rolling = thread_step demo_sick 0
     (snd (StartDeployment 100 101 \<lparr>sq_type = [], sq_version = [], sq_weight = 0, sq_observe = 0\<rparr> NewController))"

theorem rolling_stops_at_first_unhealthy_witness:
  "dpl_error (ct_store (run_thread 0 (replicate 4 demo_sick) demo_rolling) ! 0) = ''health check failed on node node-2''"
proof -
  have "at_record demo_rolling 0 (Rolling 0 [''node-1'', ''node-2'', ''node-3'']) (ct_store demo_rolling ! 0)"
    unfolding at_record_def by (intro conjI refl) code_simp+
  then have "at_record (run_thread 0 (replicate (length [''node-1'', ''node-2'', ''node-3''] + 1) demo_sick) demo_rolling) 0 Finished
    (executeRolling (an_health demo_sick) (an_end demo_sick) [''node-1'', ''node-2'', ''node-3''] (ct_store demo_rolling ! 0))"
    by (rule rolling_stops_at_first_unhealthy)
  then have "ct_store (run_thread 0 (replicate 4 demo_sick) demo_rolling) ! 0 =
    executeRolling (an_health demo_sick) (an_end demo_sick) [''node-1'', ''node-2'', ''node-3''] (ct_store demo_rolling ! 0)"
    by (simp add: at_record_def eval_nat_numeral)
  moreover have "dpl_error (executeRolling (an_health demo_sick) (an_end demo_sick) [''node-1'', ''node-2'', ''node-3'']
      (ct_store demo_rolling ! 0)) = ''health check failed on node node-2''" by code_simp
  ultimately show ?thesis by simp
qed

definition demo_watching :: controller where
  "demo_watching = run_thread 0 [healthy_at 200, healthy_at 200] demo_started"

theorem canary_decides_witness:
  "at_record (run_thread 0 ([healthy_at 300] @ [demo_sick\<lparr>an_metric := (Fin 6, False)\<rparr>]) demo_watching) 0 Finished
     (performRollback (breach_text (Fin 6) True) 6 (ct_store demo_watching ! 0))"
proof -
  let ?z = "demo_sick\<lparr>an_metric := (Fin 6, False)\<rparr>"
  have "at_record demo_watching 0 (Canary_Watch 0 (200 + 2 * second)) (ct_store demo_watching ! 0)"
    unfolding at_record_def by (intro conjI refl) code_simp+
  moreover have "list_all (\<lambda>a. an_now a < 200 + 2 * second \<and> \<not> canary_breach a) [healthy_at 300]" by code_simp
  moreover have "an_now ?z < 200 + 2 * second \<and> canary_breach ?z" by code_simp
  ultimately have "at_record (run_thread 0 ([healthy_at 300] @ [?z]) demo_watching) 0 Finished
       (performRollback (breach_text (fst (an_metric ?z)) (an_health ?z ''canary-node'')) (an_end ?z) (ct_store demo_watching ! 0))"
    by (rule canary_decides [THEN conjunct2, THEN conjunct2, THEN mp])
  moreover have "fst (an_metric ?z) = Fin 6" "an_health ?z ''canary-node'' = True" "an_end ?z = 6" by code_simp+
  ultimately show ?thesis by simp
qed

theorem drain_without_agent_witness:
  "fst (DrainNode_orchestration \<lparr>dn_metadata = Some (UpdateNodeStatus (demo_pg ''x'' 0)), dn_agent = None\<rparr> ''n1'' demo_tables) =
     Inr (True, 0)"
proof -
  have "DrainNode_orchestration \<lparr>dn_metadata = Some (UpdateNodeStatus (demo_pg ''x'' 0)), dn_agent = None\<rparr> ''n1'' demo_tables =
      (Inr (True, 0), set_status ''n1'' ''drained'' demo_tables)"
    by (rule drain_without_agent [THEN conjunct1, of "demo_pg ''x'' 0"])
      (simp add: env_fine_def demo_pg_def, code_simp, code_simp, code_simp, simp_all)
  then show ?thesis by simp
qed

end
