(* ===== verification/Go_Time.thy ===== *)
theory Go_Time
  imports Go_Float Proto "HOL-Library.Signed_Division"
begin

text \<open>
  Go's durations, and its conversions between floating-point numbers and integers. An instant
  is a number of nanoseconds; a duration is one that fits 64 bits.
\<close>

section \<open>Durations\<close>

text \<open>The value that 64-bit arithmetic keeps of an exact result.\<close>

definition int64 :: "int \<Rightarrow> int" where
  "int64 i = signed_take_bit 63 i"

lemma int64_id: "- (2 ^ 63) \<le> i \<Longrightarrow> i < 2 ^ 63 \<Longrightarrow> int64 i = i"
  by (simp add: int64_def signed_take_bit_int_eq_self)

lemma int64_wrap_up:
  assumes "- (2 ^ 64) - 2 ^ 63 \<le> i" and "i < - (2 ^ 63)"
  shows "int64 i = i + 2 ^ 64"
proof -
  have "int64 i = (i + 2 ^ 63) mod 2 ^ 64 - 2 ^ 63"
    by (simp add: int64_def signed_take_bit_eq_take_bit_shift take_bit_eq_mod)
  also have "(i + 2 ^ 63) mod 2 ^ 64 = (i + 2 ^ 63 + 2 ^ 64) mod 2 ^ 64" by (simp only: mod_add_self2)
  also have "\<dots> = i + 2 ^ 63 + 2 ^ 64" using assms by (intro mod_pos_pos_trivial) auto
  finally show ?thesis by simp
qed

text \<open>\<^verbatim>\<open>Time.Sub\<close> saturates.\<close>

definition time_sub :: "int \<Rightarrow> int \<Rightarrow> int" where
  "time_sub a b = max (- (2 ^ 63)) (min (2 ^ 63 - 1) (a - b))"

text \<open>\<^verbatim>\<open>Duration.Seconds\<close> and \<^verbatim>\<open>Duration.Hours\<close>: whole units and the fraction.\<close>

definition duration_in :: "int \<Rightarrow> int \<Rightarrow> go_float" where
  "duration_in unit d = fadd F64 (of_int_f F64 (d sdiv unit)) (fdiv F64 (of_int_f F64 (d smod unit)) (of_int_f F64 unit))"

definition duration_seconds :: "int \<Rightarrow> go_float" where
  "duration_seconds d = duration_in second d"

definition duration_hours :: "int \<Rightarrow> go_float" where
  "duration_hours d = duration_in hour d"

section \<open>Conversions\<close>

definition rat_trunc :: "rat \<Rightarrow> int" where
  "rat_trunc r = (if 0 \<le> r then \<lfloor>r\<rfloor> else \<lceil>r\<rceil>)"

text \<open>
  Conversion to a signed integer of \<open>w\<close> bits truncates; what it does with a value out of
  range depends on the machine, \<open>oob\<close>.
\<close>

definition to_int :: "(go_float \<Rightarrow> int) \<Rightarrow> nat \<Rightarrow> go_float \<Rightarrow> int" where
  "to_int oob w x =
     (case x of
        Fin r \<Rightarrow> if - (2 ^ (w - 1)) \<le> rat_trunc r \<and> rat_trunc r < 2 ^ (w - 1) then rat_trunc r else oob x
      | _ \<Rightarrow> oob x)"

fun go_ceil :: "go_float \<Rightarrow> go_float" where
  "go_ceil (Fin r) = Fin (of_int \<lceil>r\<rceil>)"
| "go_ceil x = x"

section \<open>Facts\<close>

lemma rat_trunc_mono:
  assumes "a \<le> b"
  shows "rat_trunc a \<le> rat_trunc b"
proof (cases "0 \<le> a \<or> b < 0")
  case True
  then show ?thesis using assms by (auto simp: rat_trunc_def floor_mono ceiling_mono)
next
  case False
  then have "\<lceil>a\<rceil> \<le> 0" and "0 \<le> \<lfloor>b\<rfloor>" by (simp_all add: ceiling_le_iff)
  then have "\<lceil>a\<rceil> \<le> \<lfloor>b\<rfloor>" by (rule order_trans)
  then show ?thesis using False by (simp add: rat_trunc_def)
qed

lemma rat_trunc_nonneg: "0 \<le> r \<Longrightarrow> 0 \<le> rat_trunc r"
  by (simp add: rat_trunc_def)

lemma rat_trunc_of_int [simp]: "rat_trunc (of_int i) = i"
  by (simp add: rat_trunc_def)

lemma to_int_Fin: "- (2 ^ (w - 1)) \<le> rat_trunc r \<Longrightarrow> rat_trunc r < 2 ^ (w - 1) \<Longrightarrow> to_int oob w (Fin r) = rat_trunc r"
  by (simp add: to_int_def)

text \<open>Integers of less than 53 bits are exact in double precision.\<close>

lemma of_int_f_exact:
  assumes "\<bar>i\<bar> < 2 ^ 53"
  shows "of_int_f F64 i = Fin (of_int i)"
proof -
  have "\<bar>of_int i :: rat\<bar> < of_int (2 ^ 53)" using assms by (metis of_int_abs of_int_less_iff)
  also have "\<dots> = pow2 53" by (simp add: pow2_def)
  also have "\<dots> < pow2 (emax F64)" by (rule pow2_strict_mono) simp
  finally have "\<bar>of_int i :: rat\<bar> < pow2 (emax F64)" .
  moreover have "representable F64 (of_int i)" by (rule representable_int) (use assms in simp_all)
  ultimately show ?thesis unfolding of_int_f_def by (rule fround_representable [rotated])
qed

text \<open>The error of rounding a value below a power of two.\<close>

lemma round_rat_error:
  assumes "\<bar>x\<bar> < pow2 k" and "emin F \<le> k - int (prec F)"
  shows "\<bar>round_rat F x - x\<bar> \<le> pow2 (k - int (prec F)) / 2"
proof (cases "x = 0")
  case False
  let ?e = "ulp_exp F x"
  have "rat_log2 \<bar>x\<bar> < k" using assms(1) False by (simp add: rat_log2_less_iff)
  then have e: "?e \<le> k - int (prec F)" using assms(2) by (simp add: ulp_exp_def)
  have "round_rat F x - x = (of_int (round_even (x / pow2 ?e)) - x / pow2 ?e) * pow2 ?e"
    using False by (simp add: round_rat_def Let_def left_diff_distrib)
  then have "\<bar>round_rat F x - x\<bar> = \<bar>of_int (round_even (x / pow2 ?e)) - x / pow2 ?e\<bar> * pow2 ?e"
    by (simp add: abs_mult abs_of_pos)
  also have "\<dots> \<le> 1 / 2 * pow2 ?e"
    by (rule mult_right_mono [OF round_even_error]) (simp add: less_imp_le)
  also have "\<dots> \<le> pow2 (k - int (prec F)) / 2" using pow2_mono [OF e] by simp
  finally show ?thesis .
qed (simp add: less_imp_le)

lemma fround_Fin_iff: "fround F x = Fin r \<longleftrightarrow> \<bar>round_rat F x\<bar> < pow2 (emax F) \<and> r = round_rat F x"
  by (auto simp: fround_def Let_def)

lemma fround_small:
  assumes "\<bar>x\<bar> \<le> 2 ^ 52"
  shows "fround F64 x = Fin (round_rat F64 x)"
proof -
  have "representable F64 (- (2 ^ 52))" "representable F64 (2 ^ 52)"
    using representable_int [of "- (2 ^ 52)" F64] representable_int [of "2 ^ 52" F64] by simp_all
  then have "- (2 ^ 52) \<le> round_rat F64 x \<and> round_rat F64 x \<le> 2 ^ 52"
    using round_rat_between [of F64 "- (2 ^ 52)" "2 ^ 52" x] assms by auto
  moreover have "(2 ^ 52 :: rat) = pow2 52" by (simp add: pow2_def)
  moreover have "pow2 52 < pow2 (emax F64)" by (rule pow2_strict_mono) simp
  ultimately show ?thesis by (simp add: fround_Fin_iff) linarith
qed

end
