(* ===== verification/Sla.thy ===== *)
theory Sla
  imports Go_Time
begin

text \<open>
  \<^verbatim>\<open>services/sla-monitor/monitor/monitor.go\<close>: the event log of the SLA monitor and
  the report over a window, in the service's own float64 arithmetic. Both operations hold the
  mutex throughout. The clock readings are arguments.
\<close>

section \<open>The monitor\<close>

record request_record =
  rr_time :: int
  rr_success :: bool
  rr_latency :: int

record outage =
  og_start :: int
  og_resolved :: int

record monitor =
  mo_records :: "request_record list"
  mo_outages :: "outage list"
  mo_active :: "int option"

definition NewMonitor :: monitor where
  "NewMonitor = \<lparr>mo_records = [], mo_outages = [], mo_active = None\<rparr>"

text \<open>Every event is answered with success, an unknown one included.\<close>

definition RecordEvent :: "int \<Rightarrow> string \<Rightarrow> int \<Rightarrow> monitor \<Rightarrow> bool \<times> monitor" where
  "RecordEvent now eventType latency m =
     (True,
      if eventType = ''request_success''
      then m\<lparr>mo_records := mo_records m @ [\<lparr>rr_time = now, rr_success = True, rr_latency = latency\<rparr>]\<rparr>
      else if eventType = ''request_failure''
      then m\<lparr>mo_records := mo_records m @ [\<lparr>rr_time = now, rr_success = False, rr_latency = latency\<rparr>]\<rparr>
      else if eventType = ''outage_start''
      then (if mo_active m = None then m\<lparr>mo_active := Some now\<rparr> else m)
      else if eventType = ''outage_resolved''
      then (case mo_active m of
              Some started \<Rightarrow>
                m\<lparr>mo_outages := mo_outages m @ [\<lparr>og_start = started, og_resolved = now\<rparr>], mo_active := None\<rparr>
            | None \<Rightarrow> m)
      else m)"

section \<open>The report\<close>

text \<open>The loops over the records and the outages.\<close>

fun tally :: "int \<Rightarrow> request_record list \<Rightarrow> int \<times> int \<times> int list \<Rightarrow> int \<times> int \<times> int list" where
  "tally cutoff [] acc = acc"
| "tally cutoff (r # rs) (totalReqs, failedReqs, latencies) =
     (if rr_time r > cutoff
      then tally cutoff rs
             (totalReqs + 1, if \<not> rr_success r then failedReqs + 1 else failedReqs,
              if rr_latency r > 0 then latencies @ [rr_latency r] else latencies)
      else tally cutoff rs (totalReqs, failedReqs, latencies))"

fun recovery :: "int \<Rightarrow> outage list \<Rightarrow> go_float \<times> int \<Rightarrow> go_float \<times> int" where
  "recovery cutoff [] acc = acc"
| "recovery cutoff (ou # ous) (secs, n) =
     (if og_resolved ou > cutoff
      then recovery cutoff ous (fadd F64 secs (duration_seconds (time_sub (og_resolved ou) (og_start ou))), n + 1)
      else recovery cutoff ous (secs, n))"

definition availability :: "int \<Rightarrow> int \<Rightarrow> go_float" where
  "availability totalReqs failedReqs =
     (if totalReqs > 0
      then fmul F64 (fdiv F64 (of_int_f F64 (totalReqs - failedReqs)) (of_int_f F64 totalReqs)) (Fin 100)
      else Fin 100)"

definition percentile_index :: "(go_float \<Rightarrow> int) \<Rightarrow> rat \<Rightarrow> int \<Rightarrow> int" where
  "percentile_index oob q n =
     (let i = to_int oob 64 (fmul F64 (of_int_f F64 n) (fround F64 q)) in if i \<ge> n then n - 1 else i)"

text \<open>The percentile of a list; sorting integers leaves the routine no choice.\<close>

definition percentile :: "(go_float \<Rightarrow> int) \<Rightarrow> rat \<Rightarrow> int list \<Rightarrow> int" where
  "percentile oob q latencies =
     (if latencies = [] then 0
      else sort latencies ! nat (percentile_index oob q (int (length latencies))))"

definition window_cutoff :: "int \<Rightarrow> int \<Rightarrow> int" where
  "window_cutoff now windowMins =
     (let windowMins = (if windowMins \<le> 0 then 60 else windowMins) in now + int64 (- windowMins * minute))"

record sla_report =
  rp_availability :: go_float
  rp_p95 :: int
  rp_p99 :: int
  rp_total :: int
  rp_failed :: int
  rp_mttr :: int
  rp_met :: bool

definition GetSLAReport :: "(go_float \<Rightarrow> int) \<Rightarrow> int \<Rightarrow> int \<Rightarrow> monitor \<Rightarrow> sla_report" where
  "GetSLAReport oob now windowMins m =
     (let cutoff = window_cutoff now windowMins;
          (totalReqs, failedReqs, latencies) = tally cutoff (mo_records m) (0, 0, []);
          availPct = availability totalReqs failedReqs;
          (secs, outages) = recovery cutoff (mo_outages m) (Fin 0, 0)
      in \<lparr>rp_availability = availPct,
          rp_p95 = percentile oob (95 / 100) latencies,
          rp_p99 = percentile oob (99 / 100) latencies,
          rp_total = totalReqs, rp_failed = failedReqs,
          rp_mttr = (if outages > 0 then to_int oob 64 (fdiv F64 secs (of_int_f F64 outages)) else 0),
          rp_met = fle (fround F64 (999 / 10)) availPct\<rparr>)"

section \<open>What the loop counts\<close>

definition in_window :: "int \<Rightarrow> request_record list \<Rightarrow> request_record list" where
  "in_window cutoff rs = filter (\<lambda>r. rr_time r > cutoff) rs"

definition failures :: "request_record list \<Rightarrow> int" where
  "failures rs = int (length (filter (\<lambda>r. \<not> rr_success r) rs))"

definition timed :: "request_record list \<Rightarrow> int list" where
  "timed rs = filter (\<lambda>l. l > 0) (map rr_latency rs)"

lemma tally_counts:
  "tally cutoff rs (t, f, l) =
     (t + int (length (in_window cutoff rs)), f + failures (in_window cutoff rs), l @ timed (in_window cutoff rs))"
  by (induction rs arbitrary: t f l) (auto simp: in_window_def failures_def timed_def)

lemma failures_bounds: "0 \<le> failures rs" "failures rs \<le> int (length rs)"
  by (simp_all add: failures_def)

lemma GetSLAReport_sel:
  fixes now windowMins :: int and m :: monitor
  defines "W \<equiv> in_window (window_cutoff now windowMins) (mo_records m)"
  shows "rp_total (GetSLAReport oob now windowMins m) = int (length W)"
    and "rp_failed (GetSLAReport oob now windowMins m) = failures W"
    and "rp_availability (GetSLAReport oob now windowMins m) = availability (int (length W)) (failures W)"
    and "rp_met (GetSLAReport oob now windowMins m) = fle (fround F64 (999 / 10)) (availability (int (length W)) (failures W))"
    and "rp_p95 (GetSLAReport oob now windowMins m) = percentile oob (95 / 100) (timed W)"
    and "rp_p99 (GetSLAReport oob now windowMins m) = percentile oob (99 / 100) (timed W)"
  by (simp_all add: GetSLAReport_def Let_def tally_counts W_def split: prod.split)


section \<open>Availability and the objective\<close>

text \<open>For totals below 53 bits the operands are exact; a quotient is rounded, then its percentage.\<close>

definition percent_of :: "rat \<Rightarrow> rat" where
  "percent_of q = round_rat F64 (round_rat F64 q * 100)"

lemma percent_of_mono: "a \<le> b \<Longrightarrow> percent_of a \<le> percent_of b"
  unfolding percent_of_def by (intro round_rat_mono mult_right_mono) simp_all

lemma unit_rounds:
  assumes "0 \<le> q" and "q \<le> 1"
  shows "0 \<le> round_rat F64 q" and "round_rat F64 q \<le> 1"
  using round_rat_between [of F64 0 1 q] representable_int [of 0 F64] representable_int [of 1 F64] assms by simp_all

lemma availability_eq:
  assumes "0 \<le> f" and "f \<le> t" and "0 < t" and "t < 2 ^ 53"
  shows "availability t f = Fin (percent_of (of_int (t - f) / of_int t))"
proof -
  let ?q = "of_int (t - f) / of_int t :: rat"
  have q: "0 \<le> ?q" "?q \<le> 1" using assms by simp_all
  note r = unit_rounds [OF q]
  have "of_int_f F64 (t - f) = Fin (of_int (t - f))" "of_int_f F64 t = Fin (of_int t)"
    using assms by (simp_all only: of_int_f_exact)
  moreover have "\<bar>?q\<bar> \<le> 2 ^ 52" "\<bar>round_rat F64 ?q * 100\<bar> \<le> 2 ^ 52" using q r by simp_all
  note this [THEN fround_small]
  ultimately show ?thesis using assms(3) by (simp add: availability_def percent_of_def)
qed

lemma availability_range:
  assumes "0 \<le> f" and "f \<le> t" and "t < 2 ^ 53"
  shows "\<exists>a. availability t f = Fin a \<and> 0 \<le> a \<and> a \<le> 100"
proof (cases "t > 0")
  case True
  let ?q = "of_int (t - f) / of_int t :: rat"
  have q: "0 \<le> ?q" "?q \<le> 1" using assms True by simp_all
  have "percent_of 0 = 0" "percent_of 1 = 100" by code_simp+
  with percent_of_mono [OF q(1)] percent_of_mono [OF q(2)] availability_eq [OF assms(1,2) True assms(3)]
  show ?thesis by simp
qed (simp add: availability_def)

text \<open>
  The constant 99.9 is the percentage of 0.999, and the largest share of at most a billion
  requests below 0.999 has a smaller percentage.
\<close>

lemma slo_constants:
  "fround F64 (999 / 10) = Fin (percent_of (999 / 1000))"
  "percent_of (999 / 1000 - 1 / 10 ^ 12) < percent_of (999 / 1000)"
  by code_simp+

lemma availability_meets_iff:
  assumes "0 \<le> f" and "f \<le> t" and "t \<le> 10 ^ 9"
  shows "fle (fround F64 (999 / 10)) (availability t f) \<longleftrightarrow> 1000 * f \<le> t"
proof (cases "t > 0")
  case True
  let ?q = "of_int (t - f) / of_int t :: rat"
  have a: "availability t f = Fin (percent_of ?q)" by (rule availability_eq) (use assms True in auto)
  have q: "?q = 1 - of_int f / of_int t" using True by (simp add: diff_divide_distrib)
  show ?thesis
  proof (cases "1000 * f \<le> t")
    case meets: True
    then have "(of_int (1000 * f) :: rat) \<le> of_int t" by (simp only: of_int_le_iff)
    then have "1000 * of_int f \<le> (of_int t :: rat)" by simp
    then have "999 / 1000 \<le> ?q" unfolding q using True by (simp add: field_simps)
    then show ?thesis using meets percent_of_mono by (simp add: a slo_constants)
  next
    case False
    then have "t + 1 \<le> 1000 * f" by simp
    then have "(of_int (t + 1) :: rat) \<le> of_int (1000 * f)" by (simp only: of_int_le_iff)
    then have "of_int t + 1 \<le> (1000 * of_int f :: rat)" by simp
    moreover have "(of_int t :: rat) \<le> of_int (10 ^ 9)" using assms(3) by (simp only: of_int_le_iff)
    ultimately have "?q \<le> 999 / 1000 - 1 / 10 ^ 12" unfolding q using True by (simp add: field_simps)
    then have "percent_of ?q < percent_of (999 / 1000)"
      using percent_of_mono slo_constants(2) by (meson le_less_trans)
    then show ?thesis using False by (simp add: a slo_constants(1))
  qed
next
  case False
  then have "t = 0" "f = 0" using assms by simp_all
  moreover have "fle (fround F64 (999 / 10)) (Fin 100)" by code_simp
  ultimately show ?thesis by (simp add: availability_def)
qed


text \<open>
  C39. The report meets the objective of 99.9 percent exactly when at most one request in a
  thousand of the window failed, for up to a billion requests: the rounding of the quotient,
  of its percentage and of the constant never changes the verdict. The availability is
  between 0 and 100.
\<close>

theorem slo_met_exact:
  assumes "length (mo_records m) \<le> 10 ^ 9"
  shows "(rp_met (GetSLAReport oob now w m) \<longleftrightarrow>
      1000 * rp_failed (GetSLAReport oob now w m) \<le> rp_total (GetSLAReport oob now w m)) \<and>
    (\<exists>a. rp_availability (GetSLAReport oob now w m) = Fin a \<and> 0 \<le> a \<and> a \<le> 100)"
proof -
  let ?W = "in_window (window_cutoff now w) (mo_records m)"
  have "length ?W \<le> length (mo_records m)" by (simp add: in_window_def)
  then have "length ?W \<le> 10 ^ 9" using assms by (rule order_trans)
  then have n: "int (length ?W) \<le> 10 ^ 9" by simp
  then have "int (length ?W) < 2 ^ 53" by simp
  with n show ?thesis
    by (simp only: GetSLAReport_sel availability_meets_iff [OF failures_bounds] availability_range [OF failures_bounds] simp_thms)
qed

section \<open>Percentiles\<close>

text \<open>
  For a percentile of whole percents, rounding does not move the index across an integer: the
  error of the product is far below a hundredth.
\<close>

lemma product_error:
  assumes "0 < q" and "q < 1" and "0 < n" and "n < 2 ^ 40"
  shows "fmul F64 (of_int_f F64 n) (fround F64 q) = Fin (round_rat F64 (of_int n * round_rat F64 q))"
    and "\<bar>round_rat F64 (of_int n * round_rat F64 q) - of_int n * q\<bar> < 1 / 100"
proof -
  let ?c = "round_rat F64 q"
  have c: "fround F64 q = Fin ?c" by (rule fround_small) (use assms in auto)
  have "\<bar>?c - q\<bar> \<le> pow2 (0 - int (prec F64)) / 2"
    by (rule round_rat_error) (use assms in \<open>simp_all add: pow2_def\<close>)
  then have ce: "\<bar>?c - q\<bar> \<le> 1 / 2 ^ 54" by (simp add: pow2_def)
  have n: "of_int_f F64 n = Fin (of_int n)" by (rule of_int_f_exact) (use assms in auto)
  have "of_int n < (of_int (2 ^ 40) :: rat)" using assms(4) by (simp only: of_int_less_iff)
  then have nb: "0 < (of_int n :: rat)" "of_int n < (2 ^ 40 :: rat)" using assms(3) by simp_all
  have "\<bar>of_int n * ?c - of_int n * q\<bar> = of_int n * \<bar>?c - q\<bar>"
    using nb by (simp add: abs_mult right_diff_distrib [symmetric])
  also have "\<dots> \<le> 2 ^ 40 * (1 / 2 ^ 54)" using nb ce by (intro mult_mono) auto
  finally have e1: "\<bar>of_int n * ?c - of_int n * q\<bar> \<le> 1 / 16384" by simp
  have "0 \<le> ?c" "?c \<le> 1" using unit_rounds [of q] assms by simp_all
  then have p: "0 \<le> of_int n * ?c" "of_int n * ?c \<le> of_int n" using nb by (simp_all add: mult_left_le)
  then have pn: "of_int n * ?c < 2 ^ 40" using nb(2) by (rule_tac le_less_trans)
  have "\<bar>round_rat F64 (of_int n * ?c) - of_int n * ?c\<bar> \<le> pow2 (40 - int (prec F64)) / 2"
    by (rule round_rat_error) (use p pn in \<open>simp_all add: pow2_def\<close>)
  then have e2: "\<bar>round_rat F64 (of_int n * ?c) - of_int n * ?c\<bar> \<le> 1 / 16384" by (simp add: pow2_def)
  have "fround F64 (of_int n * ?c) = Fin (round_rat F64 (of_int n * ?c))"
    by (rule fround_small) (use p pn in auto)
  then show "fmul F64 (of_int_f F64 n) (fround F64 q) = Fin (round_rat F64 (of_int n * ?c))" by (simp add: n c)
  show "\<bar>round_rat F64 (of_int n * ?c) - of_int n * q\<bar> < 1 / 100"
    using e1 e2 by linarith
qed

lemma percentile_index_bounds:
  assumes "0 < p" and "p < 100" and "0 < n" and "n < 2 ^ 40"
  shows "0 \<le> percentile_index oob (of_int p / 100) n" and "percentile_index oob (of_int p / 100) n < n"
    and "p * n \<le> 100 * (percentile_index oob (of_int p / 100) n + 1)"
    and "100 * percentile_index oob (of_int p / 100) n \<le> p * n"
    and "percentile_index oob (of_int p / 100) n = rat_trunc (round_rat F64 (of_int n * round_rat F64 (of_int p / 100)))"
proof -
  let ?q = "of_int p / 100 :: rat"
  define v where "v = round_rat F64 (of_int n * round_rat F64 ?q)"
  have "0 < ?q" "?q < 1" using assms by simp_all
  note v = product_error [OF this assms(3,4), folded v_def]
  have pos: "0 \<le> v"
  proof -
    have "(1 :: rat) \<le> of_int (n * p)" using assms by (metis mult_pos_pos of_int_1_le_iff zless_imp_add1_zle add_0)
    then have "1 / 100 \<le> of_int n * ?q" by simp
    then show ?thesis using v(2) by linarith
  qed
  define i where "i = rat_trunc v"
  have i: "i = \<lfloor>v\<rfloor>" "of_int i \<le> v" "v < of_int i + 1" using pos floor_correct [of v] by (simp_all add: i_def rat_trunc_def)
  have "\<bar>100 * v - of_int (p * n)\<bar> < 1" using v(2) by (simp add: abs_less_iff field_simps)
  then have v100: "100 * v < of_int (p * n) + 1" "of_int (p * n) < 100 * v + 1" by linarith+
  have "(of_int (100 * i) :: rat) < of_int (p * n + 1)" and "(of_int (p * n) :: rat) < of_int (100 * i + 101)"
    using v100 i(2,3) by simp_all
  then have low: "100 * i \<le> p * n" and high: "p * n \<le> 100 * (i + 1)" unfolding of_int_less_iff by simp_all
  have "p * n < 100 * n" using assms by simp
  with low have lt: "i < n" by linarith
  have nonneg: "0 \<le> i" using pos i(1) by simp
  have "i < 2 ^ 63" using lt assms(4) by simp
  then have "percentile_index oob ?q n = i"
    using nonneg lt by (simp add: percentile_index_def v(1) to_int_def i_def [symmetric])
  with low high lt nonneg i_def [unfolded v_def] show "0 \<le> percentile_index oob ?q n" "percentile_index oob ?q n < n"
    "p * n \<le> 100 * (percentile_index oob ?q n + 1)" "100 * percentile_index oob ?q n \<le> p * n"
    "percentile_index oob ?q n = rat_trunc (round_rat F64 (of_int n * round_rat F64 ?q))" by simp_all
qed

text \<open>How many elements lie on either side of a position of the sorted list.\<close>

lemma sorted_sides:
  assumes "sorted xs" and "i < length xs"
  shows "length (filter (\<lambda>x. x > xs ! i) xs) \<le> length xs - Suc i"
    and "length (filter (\<lambda>x. x \<ge> xs ! i) xs) \<ge> length xs - i"
proof -
  have "filter (\<lambda>x. x > xs ! i) (take (Suc i) xs) = []"
    using assms by (auto simp: filter_empty_conv in_set_conv_nth not_less sorted_nth_mono)
  then have "filter (\<lambda>x. x > xs ! i) xs = filter (\<lambda>x. x > xs ! i) (drop (Suc i) xs)"
    by (metis append_Nil append_take_drop_id filter_append)
  also have "length \<dots> \<le> length (drop (Suc i) xs)" by (rule length_filter_le)
  finally show "length (filter (\<lambda>x. x > xs ! i) xs) \<le> length xs - Suc i" by simp
  have "filter (\<lambda>x. x \<ge> xs ! i) (drop i xs) = drop i xs"
    using assms by (auto simp: filter_id_conv in_set_conv_nth sorted_nth_mono)
  then have "length (filter (\<lambda>x. x \<ge> xs ! i) (drop i xs)) = length xs - i" by simp
  moreover have "length (filter (\<lambda>x. x \<ge> xs ! i) xs) =
      length (filter (\<lambda>x. x \<ge> xs ! i) (take i xs)) + length (filter (\<lambda>x. x \<ge> xs ! i) (drop i xs))"
    by (metis append_take_drop_id filter_append length_append)
  ultimately show "length (filter (\<lambda>x. x \<ge> xs ! i) xs) \<ge> length xs - i" by simp
qed

lemma length_filter_sort: "length (filter P (sort xs)) = length (filter P xs)"
  by (simp add: filter_sort)

lemma percentile_sides:
  assumes "0 < p" and "p < 100" and "ls \<noteq> []" and "length ls < 2 ^ 40"
  shows "percentile oob (of_int p / 100) ls \<in> set ls"
    and "100 * int (length (filter (\<lambda>l. l > percentile oob (of_int p / 100) ls) ls)) \<le> (100 - p) * int (length ls)"
    and "(100 - p) * int (length ls) \<le> 100 * int (length (filter (\<lambda>l. l \<ge> percentile oob (of_int p / 100) ls) ls))"
proof -
  let ?n = "int (length ls)" and ?q = "of_int p / 100 :: rat"
  define i where "i = nat (percentile_index oob ?q ?n)"
  have "0 < ?n" "?n < 2 ^ 40" using assms(3,4) by simp_all
  note b = percentile_index_bounds [OF assms(1,2) this, of oob]
  have i: "i < length (sort ls)" "p * ?n \<le> 100 * (int i + 1)" "100 * int i \<le> p * ?n"
    using b by (simp_all add: i_def)
  have e: "percentile oob ?q ls = sort ls ! i" using assms(3) by (simp add: percentile_def i_def)
  show "percentile oob ?q ls \<in> set ls" using nth_mem [OF i(1)] by (simp add: e)
  note s = sorted_sides [OF sorted_sort i(1), unfolded length_filter_sort]
  have "int (length (filter (\<lambda>x. x > sort ls ! i) ls)) \<le> ?n - int i - 1" using s(1) i(1) by simp
  with i(2) show "100 * int (length (filter (\<lambda>l. l > percentile oob ?q ls) ls)) \<le> (100 - p) * ?n"
    unfolding e by (simp add: left_diff_distrib)
  have "?n - int i \<le> int (length (filter (\<lambda>x. x \<ge> sort ls ! i) ls))" using s(2) by simp
  with i(3) show "(100 - p) * ?n \<le> 100 * int (length (filter (\<lambda>l. l \<ge> percentile oob ?q ls) ls))"
    unfolding e by (simp add: left_diff_distrib)
qed


text \<open>The percentiles are ordered as their ranks.\<close>

lemma percentile_mono:
  assumes "0 < p" and "p \<le> p'" and "p' < 100" and "ls \<noteq> []" and "length ls < 2 ^ 40"
  shows "percentile oob (of_int p / 100) ls \<le> percentile oob (of_int p' / 100) ls"
proof -
  let ?n = "int (length ls)"
  let ?i = "percentile_index oob (of_int p / 100) ?n" and ?j = "percentile_index oob (of_int p' / 100) ?n"
  have n: "0 < ?n" "?n < 2 ^ 40" using assms(4,5) by simp_all
  have "p < 100" "0 < p'" using assms by simp_all
  note i = percentile_index_bounds [OF assms(1) this(1) n, of oob]
    and j = percentile_index_bounds [OF this(2) assms(3) n, of oob]
  have "(of_int p :: rat) \<le> of_int p'" using assms(2) by (simp only: of_int_le_iff)
  then have "round_rat F64 (of_int p / 100) \<le> round_rat F64 (of_int p' / 100)"
    by (intro round_rat_mono) simp_all
  then have "of_int ?n * round_rat F64 (of_int p / 100) \<le> of_int ?n * round_rat F64 (of_int p' / 100)"
    by (intro mult_left_mono) simp_all
  then have "?i \<le> ?j" unfolding i(5) j(5) by (intro rat_trunc_mono round_rat_mono) simp_all
  then have "nat ?i \<le> nat ?j" "nat ?j < length (sort ls)" using i j by simp_all
  then show ?thesis using assms(4) by (simp add: percentile_def sorted_nth_mono)
qed

text \<open>
  For less than 2^40 timed requests in the window, the reported percentiles are
  latencies of the window, at most 5 (1) percent of its latencies are above the 95th (99th)
  percentile and at least 5 (1) percent are not below it; the 95th is not above the 99th.
\<close>

theorem percentiles_cover:
  fixes m :: monitor and now w :: int and oob :: "go_float \<Rightarrow> int"
  defines "L \<equiv> timed (in_window (window_cutoff now w) (mo_records m))"
    and "R \<equiv> GetSLAReport oob now w m"
  assumes "L \<noteq> []" and "length L < 2 ^ 40"
  shows "rp_p95 R \<in> set L \<and> rp_p99 R \<in> set L \<and> rp_p95 R \<le> rp_p99 R \<and>
    20 * length (filter (\<lambda>l. l > rp_p95 R) L) \<le> length L \<and> length L \<le> 20 * length (filter (\<lambda>l. l \<ge> rp_p95 R) L) \<and>
    100 * length (filter (\<lambda>l. l > rp_p99 R) L) \<le> length L \<and> length L \<le> 100 * length (filter (\<lambda>l. l \<ge> rp_p99 R) L)"
proof -
  have e: "rp_p95 R = percentile oob (of_int 95 / 100) L" "rp_p99 R = percentile oob (of_int 99 / 100) L"
    by (simp_all add: R_def L_def GetSLAReport_sel)
  note p = percentile_sides [of 95, OF _ _ assms(3,4), of oob, folded e] percentile_sides [of 99, OF _ _ assms(3,4), of oob, folded e]
  have "rp_p95 R \<le> rp_p99 R" unfolding e by (rule percentile_mono [OF _ _ _ assms(3,4)]) simp_all
  with p show ?thesis by simp
qed


text \<open>A monitor of four requests in the last hour and an older one, one of them failed.\<close>

definition demo_monitor :: monitor where
  "demo_monitor =
     \<lparr>mo_records =
        [\<lparr>rr_time = - hour, rr_success = False, rr_latency = 900\<rparr>,
         \<lparr>rr_time = 1, rr_success = True, rr_latency = 12\<rparr>,
         \<lparr>rr_time = 2, rr_success = True, rr_latency = 7\<rparr>,
         \<lparr>rr_time = 3, rr_success = False, rr_latency = 250\<rparr>,
         \<lparr>rr_time = 4, rr_success = True, rr_latency = 0\<rparr>],
      mo_outages = [\<lparr>og_start = 1, og_resolved = 3 * second\<rparr>], mo_active = None\<rparr>"

lemma slo_met_exact_witness:
  "length (mo_records demo_monitor) \<le> 10 ^ 9 \<and>
    (rp_met (GetSLAReport (\<lambda>_. 0) (4 * second) 60 demo_monitor) \<longleftrightarrow>
      1000 * rp_failed (GetSLAReport (\<lambda>_. 0) (4 * second) 60 demo_monitor) \<le>
        rp_total (GetSLAReport (\<lambda>_. 0) (4 * second) 60 demo_monitor)) \<and>
    rp_availability (GetSLAReport (\<lambda>_. 0) (4 * second) 60 demo_monitor) = Fin 75"
proof (intro conjI)
  show l: "length (mo_records demo_monitor) \<le> 10 ^ 9" by (simp add: demo_monitor_def)
  show "rp_met (GetSLAReport (\<lambda>_. 0) (4 * second) 60 demo_monitor) \<longleftrightarrow>
      1000 * rp_failed (GetSLAReport (\<lambda>_. 0) (4 * second) 60 demo_monitor) \<le>
        rp_total (GetSLAReport (\<lambda>_. 0) (4 * second) 60 demo_monitor)"
    by (rule slo_met_exact [OF l, THEN conjunct1])
qed code_simp

lemma percentiles_cover_witness:
  "timed (in_window (window_cutoff (4 * second) 60) (mo_records demo_monitor)) = [12, 7, 250] \<and>
    rp_p95 (GetSLAReport (\<lambda>_. 0) (4 * second) 60 demo_monitor) \<in> {12, 7, 250} \<and>
    rp_p99 (GetSLAReport (\<lambda>_. 0) (4 * second) 60 demo_monitor) = 250"
proof (intro conjI)
  show l: "timed (in_window (window_cutoff (4 * second) 60) (mo_records demo_monitor)) = [12, 7, 250]"
    by code_simp
  show "rp_p95 (GetSLAReport (\<lambda>_. 0) (4 * second) 60 demo_monitor) \<in> {12, 7, 250}"
    using percentiles_cover [of "4 * second" 60 demo_monitor "\<lambda>_. 0", unfolded l] by simp
qed code_simp

section \<open>Histories of events\<close>

text \<open>The monitor after a sequence of events: time, type and latency of each.\<close>

definition replay :: "(int \<times> string \<times> int) list \<Rightarrow> monitor \<Rightarrow> monitor" where
  "replay evs m = foldl (\<lambda>m (now, eventType, latency). snd (RecordEvent now eventType latency m)) m evs"

definition request_events :: "int \<Rightarrow> (int \<times> string \<times> int) list \<Rightarrow> (int \<times> string \<times> int) list" where
  "request_events cutoff evs =
     filter (\<lambda>(now, eventType, _). now > cutoff \<and> (eventType = ''request_success'' \<or> eventType = ''request_failure'')) evs"

definition failure_events :: "int \<Rightarrow> (int \<times> string \<times> int) list \<Rightarrow> (int \<times> string \<times> int) list" where
  "failure_events cutoff evs = filter (\<lambda>(now, eventType, _). now > cutoff \<and> eventType = ''request_failure'') evs"

lemma replay_Cons: "replay ((now, eventType, latency) # evs) m = replay evs (snd (RecordEvent now eventType latency m))"
  by (simp add: replay_def)

lemma replay_snoc: "replay (evs @ [(now, eventType, latency)]) m = snd (RecordEvent now eventType latency (replay evs m))"
  by (simp add: replay_def)

lemma RecordEvent_records:
  "mo_records (snd (RecordEvent now eventType latency m)) =
     mo_records m @
     (if eventType = ''request_success'' \<or> eventType = ''request_failure''
      then [\<lparr>rr_time = now, rr_success = (eventType = ''request_success''), rr_latency = latency\<rparr>] else [])"
  by (simp add: RecordEvent_def split: option.split)

lemma replay_counts:
  "length (in_window cutoff (mo_records (replay evs NewMonitor))) = length (request_events cutoff evs)"
  "failures (in_window cutoff (mo_records (replay evs NewMonitor))) = int (length (failure_events cutoff evs))"
proof (induction evs rule: rev_induct)
  case Nil
  {
    case 1 show ?case by (simp add: replay_def NewMonitor_def in_window_def request_events_def)
  next
    case 2 show ?case by (simp add: replay_def NewMonitor_def in_window_def failures_def failure_events_def)
  }
next
  case (snoc e evs)
  obtain now t l where e: "e = (now, t, l)" by (cases e)
  {
    case 1 show ?case using snoc.IH(1)
      by (simp add: e replay_snoc RecordEvent_records in_window_def request_events_def)
  next
    case 2 show ?case using snoc.IH(2)
      by (simp add: e replay_snoc RecordEvent_records in_window_def failures_def failure_events_def)
  }
qed

text \<open>
  After any sequence of events, a report counts exactly the request events and the failures
  inside its window; outages and unknown events change neither the counts nor the
  availability.
\<close>

theorem report_counts_events:
  "rp_total (GetSLAReport oob now w (replay evs NewMonitor)) =
     int (length (request_events (window_cutoff now w) evs)) \<and>
   rp_failed (GetSLAReport oob now w (replay evs NewMonitor)) =
     int (length (failure_events (window_cutoff now w) evs)) \<and>
   rp_availability (GetSLAReport oob now w (replay evs NewMonitor)) =
     availability (int (length (request_events (window_cutoff now w) evs)))
       (int (length (failure_events (window_cutoff now w) evs)))"
  by (simp add: GetSLAReport_sel replay_counts)

text \<open>Under a clock that does not run backwards, outages are disjoint and in order.\<close>

definition outages_ok :: "int \<Rightarrow> monitor \<Rightarrow> bool" where
  "outages_ok now m \<longleftrightarrow>
     (\<forall>ou \<in> set (mo_outages m). og_start ou \<le> og_resolved ou) \<and>
     sorted_wrt (\<lambda>a b. og_resolved a \<le> og_start b) (mo_outages m) \<and>
     (\<forall>ou \<in> set (mo_outages m). og_resolved ou \<le> now \<and> (\<forall>t. mo_active m = Some t \<longrightarrow> og_resolved ou \<le> t)) \<and>
     (\<forall>t. mo_active m = Some t \<longrightarrow> t \<le> now)"

lemma outages_ok_RecordEvent:
  assumes "outages_ok t0 m" and "t0 \<le> now"
  shows "outages_ok now (snd (RecordEvent now eventType latency m))"
proof -
  have "outages_ok now m" using assms unfolding outages_ok_def by fastforce
  then show ?thesis
    by (cases "mo_active m") (auto simp: RecordEvent_def outages_ok_def sorted_wrt_append)
qed

lemma outages_disjoint:
  assumes "sorted (map fst evs)"
  shows "outages_ok (if evs = [] then now else fst (last evs)) (replay evs NewMonitor)"
  using assms
proof (induction evs rule: rev_induct)
  case Nil
  show ?case by (simp add: replay_def NewMonitor_def outages_ok_def)
next
  case (snoc e evs)
  obtain t k l where e: "e = (t, k, l)" by (cases e)
  have IH: "outages_ok (if evs = [] then now else fst (last evs)) (replay evs NewMonitor)"
    using snoc by (simp add: sorted_append)
  show ?case
  proof (cases "evs = []")
    case True
    have "outages_ok t NewMonitor" by (simp add: NewMonitor_def outages_ok_def)
    then show ?thesis using True outages_ok_RecordEvent [of t NewMonitor t] by (simp add: e replay_def)
  next
    case False
    then have "fst (last evs) \<le> t" using snoc.prems by (simp add: e sorted_append)
    with IH False show ?thesis using outages_ok_RecordEvent by (simp add: e replay_snoc)
  qed
qed

section \<open>Windows beyond 292 years\<close>

text \<open>
  From 153722868 minutes the window overflows 64 bits: the cutoff lies in the future, and
  whatever was recorded the report shows no requests, full availability and a met objective.
\<close>

theorem huge_window_reports_perfect:
  assumes "153722867 < w" and "w \<le> 307445734" and "\<forall>r \<in> set (mo_records m). rr_time r \<le> now"
  shows "now \<le> window_cutoff now w \<and> rp_total (GetSLAReport oob now w m) = 0 \<and>
    rp_availability (GetSLAReport oob now w m) = Fin 100 \<and> rp_met (GetSLAReport oob now w m)"
proof -
  have "int64 (- w * minute) = - w * minute + 2 ^ 64"
    by (rule int64_wrap_up) (use assms in auto)
  then have c: "now \<le> window_cutoff now w" using assms by (simp add: window_cutoff_def)
  then have "in_window (window_cutoff now w) (mo_records m) = []"
    using assms(3) by (force simp: in_window_def filter_empty_conv)
  moreover have "fle (fround F64 (999 / 10)) (Fin 100)" by code_simp
  ultimately show ?thesis using c by (simp add: GetSLAReport_sel failures_def availability_def)
qed

lemma huge_window_reports_perfect_witness:
  "rp_failed (GetSLAReport (\<lambda>_. 0) (4 * second) 153722867 demo_monitor) = 2 \<and>
    rp_met (GetSLAReport (\<lambda>_. 0) (4 * second) 153722868 demo_monitor)"
proof (intro conjI)
  have "\<forall>r \<in> set (mo_records demo_monitor). rr_time r \<le> 4 * second" by (simp add: demo_monitor_def)
  then show "rp_met (GetSLAReport (\<lambda>_. 0) (4 * second) 153722868 demo_monitor)"
    using huge_window_reports_perfect [of 153722868 demo_monitor "4 * second" "\<lambda>_. 0"] by simp
qed code_simp

end
