(* ===== verification/Planner.thy ===== *)
theory Planner
  imports Go_Time
begin

text \<open>
  \<^verbatim>\<open>services/capacity-planner/planner/planner.go\<close>: the trend of the load by linear
  regression, in the service's own float64 arithmetic. The calendar of the process's time zone
  is a parameter; in UTC a day is 24 hours.
\<close>

section \<open>The planner\<close>

record metric_sample =
  ms_time :: int
  ms_value :: go_float

record planner =
  pl_data :: "metric_sample list"

definition NewPlanner :: planner where
  "NewPlanner = \<lparr>pl_data = []\<rparr>"

definition SetHistoricalData :: "metric_sample list \<Rightarrow> planner \<Rightarrow> planner" where
  "SetHistoricalData data p = p\<lparr>pl_data := data\<rparr>"

text \<open>\<^verbatim>\<open>t.AddDate(0, 0, n)\<close> and \<^verbatim>\<open>t.Format("2006-01-02")\<close> in a time zone.\<close>

record time_zone =
  tz_add_days :: "int \<Rightarrow> int \<Rightarrow> int"
  tz_date :: "int \<Rightarrow> string"

definition utc_add_days :: "int \<Rightarrow> int \<Rightarrow> int" where
  "utc_add_days t n = t + n * (24 * hour)"

section \<open>Linear regression\<close>

definition days_between :: "int \<Rightarrow> int \<Rightarrow> go_float" where
  "days_between t s = fdiv F64 (duration_hours (time_sub t s)) (Fin 24)"

fun regression_sums ::
  "int \<Rightarrow> metric_sample list \<Rightarrow> go_float \<times> go_float \<times> go_float \<times> go_float \<Rightarrow> go_float \<times> go_float \<times> go_float \<times> go_float" where
  "regression_sums start [] acc = acc"
| "regression_sums start (s # samples) (sumX, sumY, sumXY, sumXX) =
     (let x = days_between (ms_time s) start; y = ms_value s
      in regression_sums start samples
           (fadd F64 sumX x, fadd F64 sumY y, fadd F64 sumXY (fmul F64 x y), fadd F64 sumXX (fmul F64 x x)))"

definition calculateLinearRegression :: "metric_sample list \<Rightarrow> go_float \<times> go_float" where
  "calculateLinearRegression samples =
     (let n = of_int_f F64 (int (length samples))
      in if samples = [] then (Fin 0, Fin 0)
         else
         let (sumX, sumY, sumXY, sumXX) =
               regression_sums (ms_time (samples ! 0)) samples (Fin 0, Fin 0, Fin 0, Fin 0);
             denom = fsub F64 (fmul F64 n sumXX) (fmul F64 sumX sumX)
         in if feq denom (Fin 0) then (Fin 0, fdiv F64 sumY n)
            else
            let slope = fdiv F64 (fsub F64 (fmul F64 n sumXY) (fmul F64 sumX sumY)) denom
            in (slope, fdiv F64 (fsub F64 sumY (fmul F64 slope sumX)) n))"

section \<open>Prediction\<close>

text \<open>The dataset used while fewer than two samples are known; decimal constants are rounded.\<close>

definition fallback_data :: "time_zone \<Rightarrow> int \<Rightarrow> metric_sample list" where
  "fallback_data tz now =
     [\<lparr>ms_time = tz_add_days tz now (- 6), ms_value = fround F64 4\<rparr>,
      \<lparr>ms_time = tz_add_days tz now (- 5), ms_value = fround F64 (42 / 10)\<rparr>,
      \<lparr>ms_time = tz_add_days tz now (- 4), ms_value = fround F64 (44 / 10)\<rparr>,
      \<lparr>ms_time = tz_add_days tz now (- 3), ms_value = fround F64 (46 / 10)\<rparr>,
      \<lparr>ms_time = tz_add_days tz now (- 2), ms_value = fround F64 (48 / 10)\<rparr>,
      \<lparr>ms_time = tz_add_days tz now (- 1), ms_value = fround F64 5\<rparr>,
      \<lparr>ms_time = now, ms_value = fround F64 (52 / 10)\<rparr>]"

record prediction =
  pr_current :: int
  pr_projected :: int
  pr_growth :: go_float
  pr_method :: string
  pr_date :: string

definition PredictCapacity :: "(go_float \<Rightarrow> int) \<Rightarrow> time_zone \<Rightarrow> int \<Rightarrow> int \<Rightarrow> planner \<Rightarrow> prediction" where
  "PredictCapacity oob tz now horizonDays p =
     (let horizonDays = (if horizonDays \<le> 0 then 7 else horizonDays);
          data = (if length (pl_data p) < 2 then fallback_data tz now else pl_data p);
          newest = data ! (length data - 1);
          currentNodes = to_int oob 32 (go_ceil (ms_value newest));
          (slope, intercept) = calculateLinearRegression data;
          horizonTime = tz_add_days tz (ms_time newest) horizonDays;
          daysFromStart = days_between horizonTime (ms_time (data ! 0));
          projectedValue = fadd F64 (fmul F64 slope daysFromStart) intercept;
          projectedValue =
            (if flt projectedValue (of_int_f F64 currentNodes) then of_int_f F64 currentNodes else projectedValue);
          projectedNodes = to_int oob 32 (go_ceil projectedValue);
          growthRatePct =
            fmul F64 (fdiv F64 (fsub F64 (of_int_f F64 projectedNodes) (of_int_f F64 currentNodes))
                        (of_int_f F64 currentNodes)) (Fin 100)
      in \<lparr>pr_current = currentNodes, pr_projected = projectedNodes, pr_growth = growthRatePct,
          pr_method = ''linear_regression'', pr_date = tz_date tz horizonTime\<rparr>)"

section \<open>Whole numbers are exact\<close>

lemma fround_int: "\<bar>i\<bar> < 2 ^ 53 \<Longrightarrow> fround F64 (of_int i) = Fin (of_int i)"
  using of_int_f_exact by (simp add: of_int_f_def)

lemma exact_add: "\<bar>i + j\<bar> < 9007199254740992 \<Longrightarrow> fadd F64 (Fin (of_int i)) (Fin (of_int j)) = Fin (of_int (i + j))"
  using fround_int [of "i + j"] by simp

lemma exact_sub: "\<bar>i - j\<bar> < 9007199254740992 \<Longrightarrow> fsub F64 (Fin (of_int i)) (Fin (of_int j)) = Fin (of_int (i - j))"
  using fround_int [of "i - j"] by (simp add: fsub_def)

lemma exact_mul: "\<bar>i * j\<bar> < 9007199254740992 \<Longrightarrow> fmul F64 (Fin (of_int i)) (Fin (of_int j)) = Fin (of_int (i * j))"
  using fround_int [of "i * j"] by simp

lemma exact_div:
  assumes "j \<noteq> 0" and "i = q * j" and "\<bar>q\<bar> < 2 ^ 53"
  shows "fdiv F64 (Fin (of_int i)) (Fin (of_int j)) = Fin (of_int q)"
  using assms fround_int [of q] by simp

lemma days_between_whole:
  assumes "0 \<le> d" and "d \<le> 100000"
  shows "days_between (t + d * (24 * hour)) t = Fin (of_int d)"
proof -
  have "time_sub (t + d * (24 * hour)) t = 24 * d * hour" using assms by (simp add: time_sub_def)
  moreover have "(24 * d * hour) sdiv hour = 24 * d" "(24 * d * hour) smod hour = 0"
    by (simp_all add: signed_divide_int_def signed_modulo_int_def sgn_mult abs_mult sgn_mult_abs)
  moreover have "of_int_f F64 0 = Fin (of_int 0)" "of_int_f F64 (24 * d) = Fin (of_int (24 * d))"
    "of_int_f F64 hour = Fin (of_int hour)"
    by (rule of_int_f_exact; use assms in simp)+
  moreover have "fdiv F64 (Fin (of_int 0)) (Fin (of_int hour)) = Fin (of_int 0)" by (rule exact_div) simp_all
  moreover have "fadd F64 (Fin (of_int (24 * d))) (Fin (of_int 0)) = Fin (of_int (24 * d + 0))"
    by (rule exact_add) (use assms in auto)
  moreover have "fdiv F64 (Fin (of_int (24 * d))) (Fin (of_int 24)) = Fin (of_int d)"
    by (rule exact_div) (use assms in auto)
  ultimately show ?thesis by (simp add: days_between_def duration_hours_def duration_in_def)
qed


section \<open>Samples on a line\<close>

text \<open>Samples at whole days after \<open>t\<close> with the values \<open>a + b * d\<close>.\<close>

definition line_samples :: "int \<Rightarrow> int \<Rightarrow> int \<Rightarrow> int list \<Rightarrow> metric_sample list" where
  "line_samples t a b ds = map (\<lambda>d. \<lparr>ms_time = t + d * (24 * hour), ms_value = Fin (of_int (a + b * d))\<rparr>) ds"

definition squares :: "int list \<Rightarrow> int" where
  "squares ds = sum_list (map (\<lambda>d. d * d) ds)"

text \<open>The bounds: up to a thousand samples, days and units each way.\<close>

definition modest :: "int \<Rightarrow> int \<Rightarrow> int list \<Rightarrow> bool" where
  "modest a b ds \<longleftrightarrow> \<bar>a\<bar> \<le> 1000 \<and> \<bar>b\<bar> \<le> 1000 \<and> length ds \<le> 1000 \<and> (\<forall>d \<in> set ds. 0 \<le> d \<and> d \<le> 1000)"

lemma modest_terms:
  assumes "\<bar>a\<bar> \<le> 1000" and "\<bar>b\<bar> \<le> 1000" and "0 \<le> d" and "d \<le> (1000 :: int)"
  shows "\<bar>a + b * d\<bar> \<le> 1001000" and "\<bar>d * (a + b * d)\<bar> \<le> 1001000000" and "\<bar>d * d\<bar> \<le> 1000000"
proof -
  have "\<bar>b * d\<bar> \<le> 1000 * 1000" unfolding abs_mult by (rule mult_mono) (use assms in auto)
  with assms(1) show v: "\<bar>a + b * d\<bar> \<le> 1001000" by linarith
  have "\<bar>d * (a + b * d)\<bar> \<le> 1000 * 1001000" unfolding abs_mult by (rule mult_mono) (use assms v in auto)
  then show "\<bar>d * (a + b * d)\<bar> \<le> 1001000000" by simp
  have "\<bar>d * d\<bar> \<le> 1000 * 1000" unfolding abs_mult by (rule mult_mono) (use assms in auto)
  then show "\<bar>d * d\<bar> \<le> 1000000" by simp
qed

lemma regression_sums_line:
  assumes "\<bar>a\<bar> \<le> 1000" and "\<bar>b\<bar> \<le> 1000" and "\<forall>d \<in> set ds. 0 \<le> d \<and> d \<le> 1000"
    and "k + int (length ds) \<le> 1000"
    and "\<bar>X\<bar> \<le> k * 2000000000" "\<bar>Y\<bar> \<le> k * 2000000000" "\<bar>P\<bar> \<le> k * 2000000000" "\<bar>Q\<bar> \<le> k * 2000000000"
  shows "regression_sums t (line_samples t a b ds) (Fin (of_int X), Fin (of_int Y), Fin (of_int P), Fin (of_int Q)) =
    (Fin (of_int (X + sum_list ds)), Fin (of_int (Y + (int (length ds) * a + b * sum_list ds))),
     Fin (of_int (P + (a * sum_list ds + b * squares ds))), Fin (of_int (Q + squares ds)))"
  using assms(3-)
proof (induction ds arbitrary: k X Y P Q)
  case Nil
  then show ?case by (simp add: line_samples_def squares_def)
next
  case (Cons d ds)
  have d: "0 \<le> d" "d \<le> 1000" using Cons.prems(1) by simp_all
  note m = modest_terms [OF assms(1,2) d]
  let ?v = "a + b * d"
  have k: "0 \<le> k" "k \<le> 999" using Cons.prems(2,3) by auto
  have b: "\<bar>X + d\<bar> \<le> (k + 1) * 2000000000" "\<bar>Y + ?v\<bar> \<le> (k + 1) * 2000000000"
    "\<bar>P + d * ?v\<bar> \<le> (k + 1) * 2000000000" "\<bar>Q + d * d\<bar> \<le> (k + 1) * 2000000000"
    using Cons.prems(3-6) m d by (simp_all only: distrib_right mult_1)
  have "(k + 1) * 2000000000 < 9007199254740992" using k by simp
  note small = b [THEN le_less_trans, OF this]
  have e: "days_between (t + d * (24 * hour)) t = Fin (of_int d)" by (rule days_between_whole) (use d in auto)
  have f: "fmul F64 (Fin (of_int d)) (Fin (of_int ?v)) = Fin (of_int (d * ?v))"
    "fmul F64 (Fin (of_int d)) (Fin (of_int d)) = Fin (of_int (d * d))"
    by (rule exact_mul, rule le_less_trans [OF m(2)], simp) (rule exact_mul, rule le_less_trans [OF m(3)], simp)
  note s = small [THEN exact_add]
  have IH: "regression_sums t (line_samples t a b ds)
      (Fin (of_int (X + d)), Fin (of_int (Y + ?v)), Fin (of_int (P + d * ?v)), Fin (of_int (Q + d * d))) =
    (Fin (of_int (X + d + sum_list ds)), Fin (of_int (Y + ?v + (int (length ds) * a + b * sum_list ds))),
     Fin (of_int (P + d * ?v + (a * sum_list ds + b * squares ds))), Fin (of_int (Q + d * d + squares ds)))"
    by (rule Cons.IH [of "k + 1"]) (use Cons.prems(1,2) b in \<open>simp_all\<close>)
  have "regression_sums t (line_samples t a b (d # ds))
      (Fin (of_int X), Fin (of_int Y), Fin (of_int P), Fin (of_int Q)) =
    regression_sums t (line_samples t a b ds)
      (Fin (of_int (X + d)), Fin (of_int (Y + ?v)), Fin (of_int (P + d * ?v)), Fin (of_int (Q + d * d)))"
    by (simp only: line_samples_def list.map regression_sums.simps Let_def metric_sample.simps e f s)
  then show ?case by (simp only: IH) (simp add: squares_def algebra_simps)
qed


text \<open>Unless all samples are of the same day, the denominator is positive.\<close>

lemma sum_square_differences:
  "sum_list (map (\<lambda>x. (c - x) * (c - x)) ds) = int (length ds) * (c * c) - 2 * c * sum_list ds + squares ds"
  by (induction ds) (simp_all add: squares_def algebra_simps)

lemma sum_of_quadratics:
  "sum_list (map (\<lambda>c. n * (c * c) - 2 * c * s + q) ds) = n * squares ds - 2 * sum_list ds * s + int (length ds) * q"
  by (induction ds) (simp_all add: squares_def algebra_simps)

lemma denominator_pos:
  assumes "c \<in> set ds" and "d \<in> set ds" and "c \<noteq> d"
  shows "0 < int (length ds) * squares ds - sum_list ds * sum_list ds"
proof -
  let ?f = "\<lambda>c. sum_list (map (\<lambda>x. (c - x) * (c - x)) ds)"
  have nn: "0 \<le> ?f x" for x by (rule sum_list_nonneg) auto
  have "?f c \<noteq> 0"
    using assms(2,3) by (subst sum_list_nonneg_eq_0_iff) auto
  then have "sum_list (map ?f ds) \<noteq> 0"
    using assms(1) nn by (subst sum_list_nonneg_eq_0_iff) auto
  moreover have "0 \<le> sum_list (map ?f ds)" by (rule sum_list_nonneg) (use nn in auto)
  moreover have "sum_list (map ?f ds) = 2 * (int (length ds) * squares ds - sum_list ds * sum_list ds)"
    by (simp only: sum_square_differences sum_of_quadratics) (simp add: algebra_simps)
  ultimately have "0 < 2 * (int (length ds) * squares ds - sum_list ds * sum_list ds)" by (simp only: less_le) simp
  then show ?thesis by simp
qed

lemma modest_sums:
  assumes "modest a b ds"
  shows "0 \<le> sum_list ds" "sum_list ds \<le> 1000000" "0 \<le> squares ds" "squares ds \<le> 1000000000"
proof -
  have all: "\<forall>d \<in> set ds. 0 \<le> d \<and> d \<le> 1000" and n: "int (length ds) \<le> 1000" using assms by (auto simp: modest_def)
  have 1: "0 \<le> sum_list ds \<and> sum_list ds \<le> int (length ds) * 1000"
    using all by (induction ds) auto
  have "0 \<le> d * d \<and> d * d \<le> 1000 * 1000" if "0 \<le> d" "d \<le> 1000" for d :: int
    using that by (intro conjI mult_nonneg_nonneg mult_mono) simp_all
  then have 2: "0 \<le> squares ds \<and> squares ds \<le> int (length ds) * 1000000"
    using all by (induction ds) (fastforce simp: squares_def)+
  show "0 \<le> sum_list ds" "sum_list ds \<le> 1000000" "0 \<le> squares ds" "squares ds \<le> 1000000000"
    using 1 2 n by linarith+
qed

lemma regression_line:
  assumes m: "modest a b ds" and "ds \<noteq> []" and "ds ! 0 = 0" and "d \<in> set ds" and "d \<noteq> 0"
  shows "calculateLinearRegression (line_samples t a b ds) = (Fin (of_int b), Fin (of_int a))"
proof -
  let ?n = "int (length ds)" and ?S = "sum_list ds" and ?Q = "squares ds"
  let ?D = "?n * ?Q - ?S * ?S"
  have ab: "\<bar>a\<bar> \<le> 1000" "\<bar>b\<bar> \<le> 1000" and n: "?n \<le> 1000" "0 < ?n" and all: "\<forall>d \<in> set ds. 0 \<le> d \<and> d \<le> 1000"
    using assms(1,2) by (simp_all add: modest_def)
  note s = modest_sums [OF m]
  have "0 \<in> set ds" using assms(2,3) nth_mem [of 0 ds] by simp
  then have D: "0 < ?D" using denominator_pos [of 0 ds d] assms(4,5) by simp
  have p: "?n * ?Q \<le> 1000 * 1000000000" "0 \<le> ?n * ?Q" "?S * ?S \<le> 1000000 * 1000000" "0 \<le> ?S * ?S"
    "\<bar>a * ?S\<bar> \<le> 1000 * 1000000" "\<bar>b * ?S\<bar> \<le> 1000 * 1000000" "\<bar>b * ?Q\<bar> \<le> 1000 * 1000000000"
    "\<bar>?n * a\<bar> \<le> 1000 * 1000"
    unfolding abs_mult by ((rule mult_mono mult_nonneg_nonneg; use n s ab in simp)+)
  let ?Y = "?n * a + b * ?S" and ?P = "a * ?S + b * ?Q"
  have YP: "\<bar>?Y\<bar> \<le> 2000000000" "\<bar>?P\<bar> \<le> 2000000000000" using p by linarith+
  have q: "\<bar>?n * ?P\<bar> \<le> 1000 * 2000000000000" "\<bar>?S * ?Y\<bar> \<le> 1000000 * 2000000000"
    unfolding abs_mult by (rule mult_mono; use n s YP in simp)+
  have num: "?n * ?P - ?S * ?Y = b * ?D" by (simp add: algebra_simps)
  have sums: "regression_sums t (line_samples t a b ds) (Fin 0, Fin 0, Fin 0, Fin 0) =
    (Fin (of_int ?S), Fin (of_int ?Y), Fin (of_int ?P), Fin (of_int ?Q))"
    using regression_sums_line [OF ab all, of 0 0 0 0 0 t] n by simp
  have len: "of_int_f F64 (int (length (line_samples t a b ds))) = Fin (of_int ?n)"
    unfolding line_samples_def length_map by (rule of_int_f_exact) (use n in simp)
  have f: "fmul F64 (Fin (of_int ?n)) (Fin (of_int ?Q)) = Fin (of_int (?n * ?Q))"
    "fmul F64 (Fin (of_int ?S)) (Fin (of_int ?S)) = Fin (of_int (?S * ?S))"
    "fmul F64 (Fin (of_int ?n)) (Fin (of_int ?P)) = Fin (of_int (?n * ?P))"
    "fmul F64 (Fin (of_int ?S)) (Fin (of_int ?Y)) = Fin (of_int (?S * ?Y))"
    "fmul F64 (Fin (of_int b)) (Fin (of_int ?S)) = Fin (of_int (b * ?S))"
    "fsub F64 (Fin (of_int (?n * ?Q))) (Fin (of_int (?S * ?S))) = Fin (of_int ?D)"
    "fsub F64 (Fin (of_int (?n * ?P))) (Fin (of_int (?S * ?Y))) = Fin (of_int (?n * ?P - ?S * ?Y))"
    "fsub F64 (Fin (of_int ?Y)) (Fin (of_int (b * ?S))) = Fin (of_int (?Y - b * ?S))"
    by (rule exact_mul exact_sub; use p q in linarith)+
  have slope: "fdiv F64 (Fin (of_int (?n * ?P - ?S * ?Y))) (Fin (of_int ?D)) = Fin (of_int b)"
    by (rule exact_div) (use D num ab in simp_all)
  have icept: "fdiv F64 (Fin (of_int (?Y - b * ?S))) (Fin (of_int ?n)) = Fin (of_int a)"
    by (rule exact_div) (use n ab in \<open>simp_all add: algebra_simps\<close>)
  have "(of_int ?D :: rat) \<noteq> 0" using D by (simp only: of_int_eq_0_iff)
  then have "\<not> feq (Fin (of_int ?D)) (Fin 0)" by (simp only: feq_iff go_float.inject simp_thms)
  moreover have "line_samples t a b ds \<noteq> []" "ms_time (line_samples t a b ds ! 0) = t"
    using assms(2,3) by (simp_all add: line_samples_def)
  ultimately show ?thesis
    by (simp only: calculateLinearRegression_def Let_def len sums prod.case f slope icept if_False)
qed


section \<open>Predictions\<close>

definition effective_horizon :: "int \<Rightarrow> int" where
  "effective_horizon h = (if h \<le> 0 then 7 else h)"

lemma to_int_whole: "\<bar>i\<bar> < 2 ^ 31 \<Longrightarrow> to_int oob 32 (go_ceil (Fin (of_int i))) = i"
  by (auto simp: to_int_def abs_less_iff)

text \<open>
  C40. In UTC, load samples that lie on a line of whole numbers (up to a thousand samples, days
  and units) are extrapolated exactly: the planner finds the line, answers the newest value
  as the current number of nodes and the value of the line at the horizon, but not less than
  the current number, as the projected one.
\<close>

theorem linear_trend_projected:
  assumes m: "modest a b ds" and ne: "ds \<noteq> []" and z: "ds ! 0 = 0" and d: "d \<in> set ds" "d \<noteq> 0"
    and utc: "tz_add_days tz = utc_add_days" and h: "effective_horizon h \<le> 10000"
    and data: "pl_data p = line_samples t a b ds"
  shows "calculateLinearRegression (pl_data p) = (Fin (of_int b), Fin (of_int a)) \<and>
    pr_current (PredictCapacity oob tz now h p) = a + b * last ds \<and>
    pr_projected (PredictCapacity oob tz now h p) =
      max (a + b * last ds) (a + b * (last ds + effective_horizon h))"
proof -
  let ?h = "effective_horizon h" and ?c = "a + b * last ds" and ?v = "b * (last ds + effective_horizon h) + a"
  have l: "0 \<le> last ds" "last ds \<le> 1000" "\<bar>a\<bar> \<le> 1000" "\<bar>b\<bar> \<le> 1000" using m ne by (auto simp: modest_def)
  have h0: "0 < ?h" by (simp add: effective_horizon_def)
  have "\<bar>b * (last ds + ?h)\<bar> \<le> 1000 * 11000" unfolding abs_mult by (rule mult_mono) (use l h h0 in auto)
  with l have v: "\<bar>b * (last ds + ?h)\<bar> \<le> 11000000" "\<bar>?v\<bar> \<le> 11001000" by linarith+
  have c: "\<bar>?c\<bar> \<le> 1001000" by (rule modest_terms) (use l in auto)
  have reg: "calculateLinearRegression (line_samples t a b ds) = (Fin (of_int b), Fin (of_int a))"
    by (rule regression_line [OF m ne z d])
  have "2 \<le> length ds"
  proof (rule ccontr)
    assume "\<not> 2 \<le> length ds"
    moreover have "0 < length ds" using ne by simp
    ultimately have "length ds = 1" by linarith
    then obtain x where "ds = [x]" by (auto simp: length_Suc_conv)
    with z d show False by simp
  qed
  then have two: "\<not> length (line_samples t a b ds) < 2" by (simp add: line_samples_def)
  have newest: "line_samples t a b ds ! (length (line_samples t a b ds) - 1) =
      \<lparr>ms_time = t + last ds * (24 * hour), ms_value = Fin (of_int ?c)\<rparr>"
    using ne by (simp add: line_samples_def last_conv_nth)
  have start: "ms_time (line_samples t a b ds ! 0) = t" using ne z by (simp add: line_samples_def)
  have "utc_add_days (t + last ds * (24 * hour)) ?h = t + (last ds + ?h) * (24 * hour)"
    by (simp add: utc_add_days_def algebra_simps)
  then have x: "days_between (utc_add_days (t + last ds * (24 * hour)) ?h) t = Fin (of_int (last ds + ?h))"
    using days_between_whole [of "last ds + ?h" t] l h h0 by simp
  have y: "fadd F64 (fmul F64 (Fin (of_int b)) (Fin (of_int (last ds + ?h)))) (Fin (of_int a)) = Fin (of_int ?v)"
    using exact_mul [of b "last ds + ?h"] exact_add [of "b * (last ds + ?h)" a] v by simp
  have cur: "of_int_f F64 ?c = Fin (of_int ?c)" by (rule of_int_f_exact) (use c in simp)
  have clip: "(if flt (Fin (of_int ?v)) (Fin (of_int ?c)) then Fin (of_int ?c) else Fin (of_int ?v)) = Fin (of_int (max ?c ?v))"
    by (simp add: max_def del: of_int_add of_int_mult)
  have "\<bar>max ?c ?v\<bar> < 2 ^ 31" using c v by (auto simp: max_def)
  moreover have "\<bar>?c\<bar> < 2 ^ 31" using c by simp
  ultimately have ints: "to_int oob 32 (go_ceil (Fin (of_int (max ?c ?v)))) = max ?c ?v"
    "to_int oob 32 (go_ceil (Fin (of_int ?c))) = ?c" by (simp_all only: to_int_whole)
  have "pr_current (PredictCapacity oob tz now h p) = ?c"
    by (simp only: PredictCapacity_def Let_def data two if_False newest metric_sample.simps prediction.simps reg prod.case) (use ints in simp)
  moreover have "pr_projected (PredictCapacity oob tz now h p) = max ?c ?v"
    using ints by (simp only: PredictCapacity_def Let_def data two if_False newest metric_sample.simps prediction.simps reg prod.case
        utc effective_horizon_def [symmetric] start x y cur clip)
  ultimately show ?thesis using reg by (simp add: data algebra_simps)
qed

lemma growth_eq:
  fixes oob h p now tz
  defines "P \<equiv> PredictCapacity oob tz now h p"
  shows "pr_growth P = fmul F64 (fdiv F64 (fsub F64 (of_int_f F64 (pr_projected P)) (of_int_f F64 (pr_current P)))
      (of_int_f F64 (pr_current P))) (Fin 100)"
  unfolding P_def PredictCapacity_def by (simp only: Let_def case_prod_beta prediction.simps)

text \<open>
  A current load of no node makes the growth rate a division by zero: the answer is NaN or
  infinite.
\<close>

theorem growth_undefined_without_nodes:
  assumes "pr_current (PredictCapacity oob tz now h p) = 0"
  shows "pr_growth (PredictCapacity oob tz now h p) \<in> {NaN, PInf, NInf}"
proof -
  have z: "of_int_f F64 0 = Fin 0" by code_simp
  have "fmul F64 (fdiv F64 x (Fin 0)) (Fin 100) \<in> {NaN, PInf, NInf}" for x
    by (cases x) (simp_all add: inf_sgn_def)
  then show ?thesis by (simp only: growth_eq assms z)
qed


section \<open>Concrete predictions\<close>

definition utc :: time_zone where
  "utc = \<lparr>tz_add_days = utc_add_days, tz_date = (\<lambda>_. [])\<rparr>"

definition demo_planner :: planner where
  "demo_planner = SetHistoricalData (line_samples 0 4 2 [0, 1, 3]) NewPlanner"

text \<open>Four nodes growing by two a day, ten now: twenty-four in a week, a growth of 140 percent.\<close>

lemma linear_trend_projected_witness:
  "pr_current (PredictCapacity (\<lambda>_. 0) utc 0 0 demo_planner) = 10 \<and>
    pr_projected (PredictCapacity (\<lambda>_. 0) utc 0 0 demo_planner) = 24 \<and>
    pr_growth (PredictCapacity (\<lambda>_. 0) utc 0 0 demo_planner) = Fin 140"
proof -
  have "modest 4 2 [0, 1, 3]" by (simp add: modest_def)
  moreover have "tz_add_days utc = utc_add_days" by (simp add: utc_def)
  moreover have "pl_data demo_planner = line_samples 0 4 2 [0, 1, 3]"
    by (simp add: demo_planner_def SetHistoricalData_def)
  moreover have "effective_horizon 0 \<le> 10000" by (simp add: effective_horizon_def)
  ultimately have "pr_current (PredictCapacity (\<lambda>_. 0) utc 0 0 demo_planner) = 4 + 2 * last [0, 1, 3] \<and>
      pr_projected (PredictCapacity (\<lambda>_. 0) utc 0 0 demo_planner) =
        max (4 + 2 * last [0, 1, 3]) (4 + 2 * (last [0, 1, 3] + effective_horizon 0))"
    using linear_trend_projected [of 4 2 "[0, 1, 3]" 3 utc 0 demo_planner 0 "\<lambda>_. 0" 0] by simp
  then have p: "pr_current (PredictCapacity (\<lambda>_. 0) utc 0 0 demo_planner) = 10 \<and>
    pr_projected (PredictCapacity (\<lambda>_. 0) utc 0 0 demo_planner) = 24" by (simp add: effective_horizon_def)
  moreover have "fmul F64 (fdiv F64 (fsub F64 (of_int_f F64 24) (of_int_f F64 10)) (of_int_f F64 10)) (Fin 100) = Fin 140"
    by code_simp
  ultimately show ?thesis by (simp only: growth_eq simp_thms)
qed

definition idle_planner :: planner where
  "idle_planner = SetHistoricalData (line_samples 0 0 0 [0, 1]) NewPlanner"

lemma growth_undefined_without_nodes_witness:
  "pr_current (PredictCapacity (\<lambda>_. 0) utc 0 7 idle_planner) = 0 \<and>
    pr_growth (PredictCapacity (\<lambda>_. 0) utc 0 7 idle_planner) \<in> {NaN, PInf, NInf}"
proof -
  have c: "pr_current (PredictCapacity (\<lambda>_. 0) utc 0 7 idle_planner) = 0" by code_simp
  show ?thesis using c growth_undefined_without_nodes [OF c] by simp
qed

end
