(* ===== verification/Gateway.thy ===== *)
theory Gateway
  imports Cluster Router Access Vector_Search Planner
begin

text \<open>
  \<^verbatim>\<open>services/gateway/handlers/gateway.go\<close>: the public REST API. A decoded JSON body
  is an argument, or the decoder's error text; the clients of the metadata service and of the
  node agents are a record of operations on a state \<open>'w\<close>. Telemetry is left out.
\<close>

section \<open>What the gateway calls\<close>

text \<open>
  \<open>gw_insert addr db id data embedding metadata\<close> and \<open>gw_search addr db query topK filter exact\<close>
  are calls on the agent dialed at an address.
\<close>

record 'w gateway =
  gw_get_nodes :: "string \<Rightarrow> 'w \<Rightarrow> node_info list rpc \<times> 'w"
  gw_create_record :: "string \<Rightarrow> string \<Rightarrow> string \<Rightarrow> int \<Rightarrow> 'w \<Rightarrow> string rpc \<times> 'w"
  gw_get :: "string \<Rightarrow> 'w \<Rightarrow> database_info option rpc \<times> 'w"
  gw_list :: "string \<Rightarrow> 'w \<Rightarrow> database_info list rpc \<times> 'w"
  gw_delete_record :: "string \<Rightarrow> 'w \<Rightarrow> bool rpc \<times> 'w"
  gw_dial :: "string \<Rightarrow> 'w \<Rightarrow> string option \<times> 'w"
  gw_insert :: "string \<Rightarrow> string \<Rightarrow> string \<Rightarrow> string \<Rightarrow> go_float list \<Rightarrow> (string \<times> string) list option \<Rightarrow> 'w \<Rightarrow>
     (bool \<times> 64 word) rpc \<times> 'w"
  gw_search :: "string \<Rightarrow> string \<Rightarrow> go_float list \<Rightarrow> int \<Rightarrow> string \<Rightarrow> bool \<Rightarrow> 'w \<Rightarrow>
     (bool \<times> scored_result list) rpc \<times> 'w"

text \<open>
  The environment: the sorting routine and map order of the router, the time zone, the clock
  and the variable \<^verbatim>\<open>WORKER_NODE_ADDR\<close> (empty when unset).
\<close>

record gateway_env =
  ge_sort :: "(string \<times> int \<Rightarrow> string \<times> int \<Rightarrow> bool) \<Rightarrow> (string \<times> int) list \<Rightarrow> (string \<times> int) list"
  ge_range :: "(string \<times> int) list \<Rightarrow> (string \<times> int) list"
  ge_zone :: time_zone
  ge_now :: int
  ge_worker_addr :: string

section \<open>Addresses and regions\<close>

definition resolveNodeRegion :: "string \<Rightarrow> string \<Rightarrow> string" where
  "resolveNodeRegion clusterID hostname =
     (case first_match (\<lambda>r. str_contains (to_lower clusterID) r \<or> str_contains (to_lower hostname) r) SupportedRegions of
        Some r \<Rightarrow> r
      | None \<Rightarrow> RegionIndia)"

definition getWorkerNodeAddr :: "gateway_env \<Rightarrow> string" where
  "getWorkerNodeAddr ge =
     (if ge_worker_addr ge \<noteq> [] then ge_worker_addr ge else ''nimbusdb-worker-node:50053'')"

text \<open>The address of the agent whose host stands before the first slash of the endpoint.\<close>

definition endpoint_address :: "string \<Rightarrow> string option" where
  "endpoint_address endpoint =
     (if endpoint = [] then None
      else let host = str_split ''/'' endpoint ! 0
           in if has_prefix host ''nimbusdb-worker-node-'' then Some (host @ ''.nimbusdb-worker-node:50053'')
              else if host \<noteq> [] then Some (host @ '':50053'')
              else None)"

definition resolveWorkerNodeAddr :: "gateway_env \<Rightarrow> 'w gateway \<Rightarrow> string \<Rightarrow> 'w \<Rightarrow> string \<times> 'w" where
  "resolveWorkerNodeAddr ge gw dbID w =
     (if dbID \<noteq> [] \<and> dbID \<noteq> ''default''
      then case gw_get gw dbID w of
             (Inr (Some db), w) \<Rightarrow>
               (case endpoint_address (di_endpoint db) of Some addr \<Rightarrow> addr | None \<Rightarrow> getWorkerNodeAddr ge, w)
           | (_, w) \<Rightarrow> (getWorkerNodeAddr ge, w)
      else (getWorkerNodeAddr ge, w))"

section \<open>Databases\<close>

record create_body =
  gb_name :: string
  gb_cluster :: string
  gb_region :: string

record create_answer =
  ga_id :: string
  ga_status :: string
  ga_preferred :: string
  ga_served :: string
  ga_rerouted :: bool
  ga_reason :: string

definition default_cluster :: "string \<Rightarrow> string" where
  "default_cluster c =
     (if c = [] \<or> c = ''default-cluster'' then ''00000000-0000-0000-0000-000000000000'' else c)"

text \<open>The regions as the router sees them: by cluster and host name, not by the node's own region.\<close>

definition routing_state :: "node_info \<Rightarrow> node_state" where
  "routing_state n =
     \<lparr>ns_id = ni_id n, ns_region = resolveNodeRegion (ni_cluster n) (ni_hostname n), ns_status = ni_status n\<rparr>"

definition region_health_map :: "node_state list \<Rightarrow> string \<rightharpoonup> region_status" where
  "region_health_map nodeStates =
     map_of (map (\<lambda>reg. (reg, ri_status (RollupRegionHealth reg nodeStates))) SupportedRegions)"

definition gateway_create ::
  "gateway_env \<Rightarrow> 'w gateway \<Rightarrow> string + create_body \<Rightarrow> 'w \<Rightarrow> create_answer http_answer \<times> 'w" where
  "gateway_create ge gw body w =
     (case body of
        Inl err \<Rightarrow> (Http_Error 400 (''invalid request body: '' @ err), w)
      | Inr req \<Rightarrow>
          if gb_name req = [] then (Http_Error 400 ''database name is required'', w)
          else
            let clusterID = default_cluster (gb_cluster req);
                (nodesRes, w) = gw_get_nodes gw [] w;
                nodeStates = (case nodesRes of Inl err \<Rightarrow> [] | Inr nodes \<Rightarrow> map routing_state nodes)
            in case SelectRegion (ge_sort ge) (ge_range ge) (gb_region req) (region_health_map nodeStates) of
                 Inl err \<Rightarrow> (Http_Error 503 ''routing failed: all simulated regions are currently down'', w)
               | Inr route \<Rightarrow>
                   (case gw_create_record gw (gb_name req) clusterID ''provisioning'' 1 w of
                      (Inl err, w) \<Rightarrow> (Http_Error 500 (''internal server error: '' @ err_text err), w)
                    | (Inr dbID, w) \<Rightarrow>
                        (Http_Body 202
                           \<lparr>ga_id = dbID, ga_status = ''provisioning'', ga_preferred = PreferredRegion route,
                            ga_served = ServedRegion route, ga_rerouted = FallbackRerouted route,
                            ga_reason = Reason route\<rparr>, w)))"

definition gateway_get :: "'w gateway \<Rightarrow> string \<Rightarrow> 'w \<Rightarrow> database_info option http_answer \<times> 'w" where
  "gateway_get gw dbID w =
     (if dbID = [] then (Http_Error 400 ''database id is required'', w)
      else case gw_get gw dbID w of
        (Inl err, w) \<Rightarrow> (Http_Error 404 ''database not found'', w)
      | (Inr db, w) \<Rightarrow> (Http_Body 200 db, w))"

definition gateway_list :: "'w gateway \<Rightarrow> string \<Rightarrow> 'w \<Rightarrow> database_info list http_answer \<times> 'w" where
  "gateway_list gw clusterID w =
     (case gw_list gw clusterID w of
        (Inl err, w) \<Rightarrow> (Http_Error 500 (''internal server error: '' @ err_text err), w)
      | (Inr dbs, w) \<Rightarrow> (Http_Body 200 dbs, w))"

definition gateway_delete :: "'w gateway \<Rightarrow> string \<Rightarrow> 'w \<Rightarrow> bool http_answer \<times> 'w" where
  "gateway_delete gw dbID w =
     (if dbID = [] then (Http_Error 400 ''database id is required'', w)
      else case gw_delete_record gw dbID w of
        (Inl err, w) \<Rightarrow> (Http_Error 500 (''failed to delete database: '' @ err_text err), w)
      | (Inr _, w) \<Rightarrow> (Http_Body 200 True, w))"

section \<open>Regions and nodes\<close>

definition node_region :: "node_info \<Rightarrow> string" where
  "node_region n = (if ni_region n = [] then resolveNodeRegion (ni_cluster n) (ni_hostname n) else ni_region n)"

definition handleListRegions ::
  "'w gateway \<Rightarrow> 'w \<Rightarrow> (region_health_info list \<times> (string \<times> (string \<times> int) list) list) http_answer \<times> 'w" where
  "handleListRegions gw w =
     (let (nodesRes, w) = gw_get_nodes gw [] w;
          nodeStates = (case nodesRes of Inl err \<Rightarrow> []
            | Inr nodes \<Rightarrow> map (\<lambda>n. \<lparr>ns_id = ni_id n, ns_region = node_region n, ns_status = ni_status n\<rparr>) nodes)
      in (Http_Body 200 (map (\<lambda>r. RollupRegionHealth r nodeStates) SupportedRegions, LatencyMatrix), w))"

record node_json =
  nj_id :: string
  nj_cluster :: string
  nj_hostname :: string
  nj_region :: string
  nj_status :: string
  nj_cpu :: go_float
  nj_mem :: go_float
  nj_disk :: go_float
  nj_last :: "time_text option"
  nj_registered :: time_text

definition node_json_of :: "node_info \<Rightarrow> node_json" where
  "node_json_of n =
     \<lparr>nj_id = ni_id n, nj_cluster = ni_cluster n, nj_hostname = ni_hostname n, nj_region = node_region n,
      nj_status = ni_status n, nj_cpu = ni_cpu n, nj_mem = ni_mem n, nj_disk = ni_disk n,
      nj_last = (if ni_last_heartbeat n = OtherText [] then None else Some (ni_last_heartbeat n)),
      nj_registered = ni_registered_at n\<rparr>"

text \<open>The answer to a preflight request has no body.\<close>

definition handleListNodes :: "bool \<Rightarrow> 'w gateway \<Rightarrow> 'w \<Rightarrow> node_json list option http_answer \<times> 'w" where
  "handleListNodes preflight gw w =
     (if preflight then (Http_Body 200 None, w)
      else case gw_get_nodes gw [] w of
        (Inl err, w) \<Rightarrow> (Http_Error 500 (''failed to get nodes: '' @ err_text err), w)
      | (Inr nodes, w) \<Rightarrow> (Http_Body 200 (Some (map node_json_of nodes)), w))"


section \<open>Vectors\<close>

record insert_body =
  ib_database :: string
  ib_id :: string
  ib_data :: string
  ib_embedding :: "go_float list"
  ib_metadata :: "(string \<times> string) list option"

record search_body =
  sb_database :: string
  sb_query :: "go_float list"
  sb_topk :: int
  sb_filter :: string
  sb_exact :: bool

text \<open>The database of a vector request: the path's, the body's, or the default one.\<close>

definition vector_database :: "string \<Rightarrow> string \<Rightarrow> string" where
  "vector_database path body = (let dbID = (if path = [] then body else path) in if dbID = [] then ''default'' else dbID)"

text \<open>The answer: success, sequence number, vector ID and database.\<close>

definition handleInsertVector ::
  "gateway_env \<Rightarrow> 'w gateway \<Rightarrow> string \<Rightarrow> string + insert_body \<Rightarrow> 'w \<Rightarrow>
   (bool \<times> 64 word \<times> string \<times> string) http_answer \<times> 'w" where
  "handleInsertVector ge gw path body w =
     (case body of
        Inl err \<Rightarrow> (Http_Error 400 (''invalid request body: '' @ err), w)
      | Inr req \<Rightarrow>
          (let dbID = vector_database path (ib_database req)
           in if ib_id req = [] then (Http_Error 400 ''vector id is required'', w)
              else
                let (workerAddr, w) = resolveWorkerNodeAddr ge gw dbID w
                in case gw_dial gw workerAddr w of
                     (Some err, w) \<Rightarrow> (Http_Error 503 (''failed to dial worker node: '' @ err), w)
                   | (None, w) \<Rightarrow>
                       (case gw_insert gw workerAddr dbID (ib_id req) (ib_data req) (ib_embedding req) (ib_metadata req) w of
                          (Inl err, w) \<Rightarrow> (Http_Error 500 (''failed to insert vector: '' @ err_text err), w)
                        | (Inr (success, lsn), w) \<Rightarrow> (Http_Body 200 (success, lsn, ib_id req, dbID), w))))"

text \<open>The answer: success, database and results.\<close>

definition handleSearchVector ::
  "gateway_env \<Rightarrow> 'w gateway \<Rightarrow> string \<Rightarrow> string + search_body \<Rightarrow> 'w \<Rightarrow>
   (bool \<times> string \<times> scored_result list) http_answer \<times> 'w" where
  "handleSearchVector ge gw path body w =
     (case body of
        Inl err \<Rightarrow> (Http_Error 400 (''invalid request body: '' @ err), w)
      | Inr req \<Rightarrow>
          (let dbID = vector_database path (sb_database req);
               (workerAddr, w) = resolveWorkerNodeAddr ge gw dbID w
           in case gw_dial gw workerAddr w of
                (Some err, w) \<Rightarrow> (Http_Error 503 (''failed to dial worker node: '' @ err), w)
              | (None, w) \<Rightarrow>
                  (case gw_search gw workerAddr dbID (sb_query req) (sb_topk req) (sb_filter req) (sb_exact req) w of
                     (Inl err, w) \<Rightarrow> (Http_Error 500 (''failed to search vector: '' @ err_text err), w)
                   | (Inr (success, results), w) \<Rightarrow> (Http_Body 200 (success, dbID, results), w))))"

section \<open>Endpoints with fixed answers\<close>

text \<open>Operations, capacity and SLA endpoints: JSON objects, computed without any service.\<close>

datatype json = JString string | JInt int | JFloat go_float | JBool bool

type_synonym json_object = "(string \<times> json) list"

definition handleTriggerRollingDeployment :: "gateway_env \<Rightarrow> json_object http_answer" where
  "handleTriggerRollingDeployment ge =
     Http_Body 202
       [(''deploymentId'', JString (''rolling-'' @ itoa (ge_now ge))), (''status'', JString ''in_progress''),
        (''type'', JString ''rolling'')]"

definition handleTriggerCanaryDeployment :: "gateway_env \<Rightarrow> json_object http_answer" where
  "handleTriggerCanaryDeployment ge =
     Http_Body 202
       [(''deploymentId'', JString (''canary-'' @ itoa (ge_now ge))), (''status'', JString ''in_progress''),
        (''type'', JString ''canary''), (''canaryWeight'', JInt 10)]"

definition handleTriggerBlueGreenDeployment :: "gateway_env \<Rightarrow> json_object http_answer" where
  "handleTriggerBlueGreenDeployment ge =
     Http_Body 202
       [(''deploymentId'', JString (''blue-green-'' @ itoa (ge_now ge))), (''status'', JString ''in_progress''),
        (''type'', JString ''blue-green'')]"

definition handleTriggerRollback :: "json_object http_answer" where
  "handleTriggerRollback =
     Http_Body 200
       [(''status'', JString ''rolled_back''), (''trafficSplit'', JInt 0),
        (''reason'', JString ''Operator initiated rollback'')]"

definition handleDrainNode :: "string \<Rightarrow> json_object http_answer" where
  "handleDrainNode nodeID =
     Http_Body 200 [(''nodeId'', JString nodeID), (''status'', JString ''draining''), (''databasesMoved'', JInt 0)]"

definition handleGetCapacityProjection :: "gateway_env \<Rightarrow> json_object http_answer" where
  "handleGetCapacityProjection ge =
     Http_Body 200
       [(''currentNodes'', JInt 5), (''projectedNodes'', JInt 6), (''growthRatePct'', JFloat (Fin 20)),
        (''method'', JString ''linear_regression''),
        (''horizonDate'', JString (tz_date (ge_zone ge) (tz_add_days (ge_zone ge) (ge_now ge) 7)))]"

definition handleGetSLAReport :: "json_object http_answer" where
  "handleGetSLAReport =
     Http_Body 200
       [(''availabilityPct'', JFloat (fround F64 (9992 / 100))), (''p95LatencyMs'', JInt 45),
        (''p99LatencyMs'', JInt 48), (''totalRequests'', JInt 1000), (''failedRequests'', JInt 1),
        (''mttrSeconds'', JInt 0), (''sloMet'', JBool True)]"

definition gateway_health :: "json_object http_answer" where
  "gateway_health = Http_Body 200 [(''status'', JString ''UP''), (''service'', JString ''gateway'')]"

section \<open>Routes\<close>

text \<open>
  A request by its route, with its path value, query and body. The two routes of each vector
  operation differ in the path value, empty for \<^verbatim>\<open>/v1/vectors/...\<close>. \<^verbatim>\<open>/metrics\<close>
  is the metrics library's.
\<close>

datatype gateway_call =
    To_Create "string + create_body"
  | To_Get string
  | To_List string
  | To_Delete string
  | To_Regions
  | To_Rolling
  | To_Canary
  | To_Blue_Green
  | To_Rollback
  | To_Drain string
  | To_Capacity
  | To_SLA
  | To_Insert string "string + insert_body"
  | To_Search string "string + search_body"
  | To_Nodes bool
  | To_Health

fun route_role :: "gateway_call \<Rightarrow> string option" where
  "route_role (To_Create _) = Some RoleOperator"
| "route_role (To_Get _) = Some RoleReadOnly"
| "route_role (To_List _) = Some RoleReadOnly"
| "route_role (To_Delete _) = Some RoleOperator"
| "route_role To_Regions = Some RoleReadOnly"
| "route_role To_Rolling = Some RoleAdmin"
| "route_role To_Canary = Some RoleAdmin"
| "route_role To_Blue_Green = Some RoleAdmin"
| "route_role To_Rollback = Some RoleAdmin"
| "route_role (To_Drain _) = Some RoleAdmin"
| "route_role To_Capacity = Some RoleReadOnly"
| "route_role To_SLA = Some RoleReadOnly"
| "route_role (To_Insert _ _) = Some RoleOperator"
| "route_role (To_Search _ _) = Some RoleReadOnly"
| "route_role (To_Nodes _) = None"
| "route_role To_Health = None"

datatype gateway_body =
    Created_Body create_answer
  | Database_Body "database_info option"
  | Databases_Body "database_info list"
  | Deleted_Body bool
  | Regions_Body "region_health_info list \<times> (string \<times> (string \<times> int) list) list"
  | Json_Body json_object
  | Inserted_Body "bool \<times> 64 word \<times> string \<times> string"
  | Found_Body "bool \<times> string \<times> scored_result list"
  | Nodes_Body "node_json list option"

fun gateway_handle :: "gateway_env \<Rightarrow> 'w gateway \<Rightarrow> gateway_call \<Rightarrow> 'w \<Rightarrow> gateway_body http_answer \<times> 'w" where
  "gateway_handle ge gw (To_Create body) w = apfst (map_http_answer Created_Body) (gateway_create ge gw body w)"
| "gateway_handle ge gw (To_Get d) w = apfst (map_http_answer Database_Body) (gateway_get gw d w)"
| "gateway_handle ge gw (To_List c) w = apfst (map_http_answer Databases_Body) (gateway_list gw c w)"
| "gateway_handle ge gw (To_Delete d) w = apfst (map_http_answer Deleted_Body) (gateway_delete gw d w)"
| "gateway_handle ge gw To_Regions w = apfst (map_http_answer Regions_Body) (handleListRegions gw w)"
| "gateway_handle ge gw To_Rolling w = (map_http_answer Json_Body (handleTriggerRollingDeployment ge), w)"
| "gateway_handle ge gw To_Canary w = (map_http_answer Json_Body (handleTriggerCanaryDeployment ge), w)"
| "gateway_handle ge gw To_Blue_Green w = (map_http_answer Json_Body (handleTriggerBlueGreenDeployment ge), w)"
| "gateway_handle ge gw To_Rollback w = (map_http_answer Json_Body handleTriggerRollback, w)"
| "gateway_handle ge gw (To_Drain n) w = (map_http_answer Json_Body (handleDrainNode n), w)"
| "gateway_handle ge gw To_Capacity w = (map_http_answer Json_Body (handleGetCapacityProjection ge), w)"
| "gateway_handle ge gw To_SLA w = (map_http_answer Json_Body handleGetSLAReport, w)"
| "gateway_handle ge gw (To_Insert d body) w = apfst (map_http_answer Inserted_Body) (handleInsertVector ge gw d body w)"
| "gateway_handle ge gw (To_Search d body) w = apfst (map_http_answer Found_Body) (handleSearchVector ge gw d body w)"
| "gateway_handle ge gw (To_Nodes preflight) w = apfst (map_http_answer Nodes_Body) (handleListNodes preflight gw w)"
| "gateway_handle ge gw To_Health w = (map_http_answer Json_Body gateway_health, w)"

text \<open>A request through the mux, with its path and credentials, on the state of the gateway's process.\<close>

definition gateway_serve ::
  "auth_env \<Rightarrow> int \<Rightarrow> int \<Rightarrow> gateway_env \<Rightarrow> 'w gateway \<Rightarrow> gateway_call \<Rightarrow> http_request \<Rightarrow> auth_state \<times> 'w \<Rightarrow>
   (http_reject + gateway_body http_answer) \<times> auth_state \<times> 'w" where
  "gateway_serve env t0 t1 ge gw = mux_serve route_role (gateway_handle ge gw) env t0 t1"

section \<open>Facts\<close>


lemma fixed_answer:
  assumes "\<And>(gw :: 'w gateway) w. gateway_handle ge gw call w = (Http_Body code (Json_Body body), w)" and "code \<in> {200, 202}"
  shows "\<exists>code body. code \<in> {200, 202} \<and> (\<forall>(gw :: 'w gateway) w. gateway_handle ge gw call w = (Http_Body code (Json_Body body), w))"
  by (rule exI [of _ code], rule exI [of _ body], intro conjI allI) (fact assms)+

text \<open>
  The operations, capacity and SLA endpoints reach no service: starting or rolling back a
  deployment and draining a node report success and change nothing, and the capacity and SLA
  answers do not depend on the state of the system.
\<close>

theorem operations_endpoints_do_nothing:
  assumes "call \<in> {To_Rolling, To_Canary, To_Blue_Green, To_Rollback, To_Drain n, To_Capacity, To_SLA}"
  shows "\<exists>code body. code \<in> {200, 202} \<and> (\<forall>gw w. gateway_handle ge gw call w = (Http_Body code (Json_Body body), w))"
  using assms
  by (elim insertE emptyE; hypsubst; intro fixed_answer;
      (simp only: gateway_handle.simps handleTriggerRollingDeployment_def handleTriggerCanaryDeployment_def
        handleTriggerBlueGreenDeployment_def handleTriggerRollback_def handleDrainNode_def
        handleGetCapacityProjection_def handleGetSLAReport_def http_answer.map)?; simp?)

section \<open>Routing a creation\<close>

lemma resolveNodeRegion_supported: "resolveNodeRegion c h \<in> set SupportedRegions"
  by (auto simp: resolveNodeRegion_def SupportedRegions_def split: option.split dest: first_match_in)

lemma supported_lower: "r \<in> set SupportedRegions \<Longrightarrow> to_lower r = r"
proof -
  have "list_all (\<lambda>r. to_lower r = r) SupportedRegions" by code_simp
  then show "r \<in> set SupportedRegions \<Longrightarrow> to_lower r = r" by (simp add: list_all_iff)
qed

lemma serves_health_map:
  assumes "r \<in> set SupportedRegions"
  shows "serves (region_health_map ns) r \<longleftrightarrow> (\<exists>n \<in> set ns. in_region r n \<and> state_healthy n)"
proof -
  have "region_health_map ns r = Some (ri_status (RollupRegionHealth r ns))"
    using assms by (simp add: region_health_map_def map_of_map_restrict)
  moreover have "ri_healthy (RollupRegionHealth r ns) = 0 \<longleftrightarrow> \<not> (\<exists>n \<in> set ns. in_region r n \<and> state_healthy n)"
    by (simp only: RollupRegionHealth_counts length_filter_eq_0) blast
  ultimately show ?thesis by (simp add: serves_def RollupRegionHealth_status)
qed

text \<open>The outcome of a creation once its body is decoded and named.\<close>

lemma gateway_create_eq:
  assumes "gb_name req \<noteq> []" and "gw_get_nodes gw [] w = (res, w1)"
  shows "gateway_create ge gw (Inr req) w =
    (case SelectRegion (ge_sort ge) (ge_range ge) (gb_region req)
        (region_health_map (case res of Inl err \<Rightarrow> [] | Inr nodes \<Rightarrow> map routing_state nodes)) of
       Inl err \<Rightarrow> (Http_Error 503 ''routing failed: all simulated regions are currently down'', w1)
     | Inr route \<Rightarrow>
         (case gw_create_record gw (gb_name req) (default_cluster (gb_cluster req)) ''provisioning'' 1 w1 of
            (Inl err, w) \<Rightarrow> (Http_Error 500 (''internal server error: '' @ err_text err), w)
          | (Inr dbID, w) \<Rightarrow>
              (Http_Body 202
                 \<lparr>ga_id = dbID, ga_status = ''provisioning'', ga_preferred = PreferredRegion route,
                  ga_served = ServedRegion route, ga_rerouted = FallbackRerouted route, ga_reason = Reason route\<rparr>, w)))"
  using assms by (simp add: gateway_create_def)

lemma SelectRegion_fails_iff:
  assumes "slice_sort srt" and "map_range rng"
  shows "SelectRegion srt rng p health = Inl e \<longleftrightarrow> (\<forall>r \<in> set SupportedRegions. \<not> serves health r)"
  by (simp add: SelectRegion_eq [OF assms] select_loop_Inl fallback_order_props(1))

text \<open>
  C21. A creation is refused as unroutable exactly when no node at all is healthy: a cluster
  whose nodes are all overloaded or unhealthy refuses creations that placement would accept.
  When it is routed, the region that serves has a healthy node.
\<close>

theorem create_routable_iff_healthy_node:
  assumes "slice_sort (ge_sort ge)" and "map_range (ge_range ge)" and "gb_name req \<noteq> []"
    and "gw_get_nodes gw [] w = (Inr nodes, w1)"
  shows "((\<exists>msg w'. gateway_create ge gw (Inr req) w = (Http_Error 503 msg, w')) \<longleftrightarrow>
      \<not> (\<exists>n \<in> set nodes. to_lower (ni_status n) = ''healthy'')) \<and>
    (\<forall>ans w'. gateway_create ge gw (Inr req) w = (Http_Body 202 ans, w') \<longrightarrow>
      (\<exists>n \<in> set nodes. to_lower (ni_status n) = ''healthy'' \<and> resolveNodeRegion (ni_cluster n) (ni_hostname n) = ga_served ans))"
proof -
  let ?health = "region_health_map (map routing_state nodes)"
  have region: "in_region r (routing_state n) \<longleftrightarrow> r = resolveNodeRegion (ni_cluster n) (ni_hostname n)"
    if "r \<in> set SupportedRegions" for r n
    using supported_lower [OF that] supported_lower [OF resolveNodeRegion_supported, of "ni_cluster n" "ni_hostname n"]
    by (auto simp: in_region_def routing_state_def equal_fold_def)
  have healthy: "state_healthy (routing_state n) \<longleftrightarrow> to_lower (ni_status n) = ''healthy''" for n
    by (simp add: state_healthy_def routing_state_def)
  have serve: "serves ?health r \<longleftrightarrow>
      (\<exists>n \<in> set nodes. to_lower (ni_status n) = ''healthy'' \<and> resolveNodeRegion (ni_cluster n) (ni_hostname n) = r)"
    if "r \<in> set SupportedRegions" for r
    using region [OF that] by (auto simp: serves_health_map [OF that] healthy)
  have none: "(\<forall>r \<in> set SupportedRegions. \<not> serves ?health r) \<longleftrightarrow> \<not> (\<exists>n \<in> set nodes. to_lower (ni_status n) = ''healthy'')"
    using serve resolveNodeRegion_supported by blast
  have e: "gateway_create ge gw (Inr req) w =
    (case SelectRegion (ge_sort ge) (ge_range ge) (gb_region req) ?health of
       Inl err \<Rightarrow> (Http_Error 503 ''routing failed: all simulated regions are currently down'', w1)
     | Inr route \<Rightarrow>
         (case gw_create_record gw (gb_name req) (default_cluster (gb_cluster req)) ''provisioning'' 1 w1 of
            (Inl err, w) \<Rightarrow> (Http_Error 500 (''internal server error: '' @ err_text err), w)
          | (Inr dbID, w) \<Rightarrow>
              (Http_Body 202
                 \<lparr>ga_id = dbID, ga_status = ''provisioning'', ga_preferred = PreferredRegion route,
                  ga_served = ServedRegion route, ga_rerouted = FallbackRerouted route, ga_reason = Reason route\<rparr>, w)))"
    using gateway_create_eq [OF assms(3,4)] by simp
  show ?thesis
  proof (cases "SelectRegion (ge_sort ge) (ge_range ge) (gb_region req) ?health")
    case (Inl err)
    then have "\<forall>r \<in> set SupportedRegions. \<not> serves ?health r" by (simp add: SelectRegion_fails_iff [OF assms(1,2)])
    with none Inl show ?thesis by (simp add: e)
  next
    case (Inr route)
    then have "\<not> (\<forall>r \<in> set SupportedRegions. \<not> serves ?health r)"
      using SelectRegion_fails_iff [OF assms(1,2), of "gb_region req" ?health] by auto
    moreover obtain xs ys where s: "fallback_order (effective_pref (gb_region req)) = xs @ ServedRegion route # ys"
      "serves ?health (ServedRegion route)"
      by (rule SelectRegion_Inr [OF assms(1,2) Inr])
    moreover have "ServedRegion route \<in> set SupportedRegions"
      using s(1) fallback_order_props(1) [of "effective_pref (gb_region req)"] by (metis in_set_conv_decomp)
    ultimately show ?thesis using none serve Inr by (auto simp: e split: prod.split sum.split)
  qed
qed


section \<open>Creation and what becomes of it\<close>

text \<open>
  The region chosen for a creation is only reported: with any other preference the same
  record is created, with the same ID and in the same state of the services.
\<close>

theorem served_region_has_no_effect:
  assumes "slice_sort (ge_sort ge)" and "map_range (ge_range ge)"
    and "gateway_create ge gw (Inr req) w = (Http_Body 202 ans, w')"
  shows "\<exists>ans'. gateway_create ge gw (Inr (req\<lparr>gb_region := other\<rparr>)) w = (Http_Body 202 ans', w') \<and> ga_id ans' = ga_id ans"
proof -
  have name: "gb_name req \<noteq> []" using assms(3) by (auto simp: gateway_create_def)
  obtain res w1 where nodes: "gw_get_nodes gw [] w = (res, w1)" by (cases "gw_get_nodes gw [] w")
  let ?health = "region_health_map (case res of Inl err \<Rightarrow> [] | Inr nodes \<Rightarrow> map routing_state nodes)"
  note e = gateway_create_eq [OF name nodes, of ge] gateway_create_eq [of "req\<lparr>gb_region := other\<rparr>", OF _ nodes, of ge]
  obtain route where "SelectRegion (ge_sort ge) (ge_range ge) (gb_region req) ?health = Inr route"
    using assms(3) by (cases "SelectRegion (ge_sort ge) (ge_range ge) (gb_region req) ?health") (simp_all add: e)
  moreover from this have "\<not> (\<forall>r \<in> set SupportedRegions. \<not> serves ?health r)"
    using SelectRegion_fails_iff [OF assms(1,2), of "gb_region req" ?health] by auto
  then obtain route' where "SelectRegion (ge_sort ge) (ge_range ge) other ?health = Inr route'"
    using SelectRegion_fails_iff [OF assms(1,2), of other ?health]
    by (cases "SelectRegion (ge_sort ge) (ge_range ge) other ?health") auto
  ultimately show ?thesis using assms(3) name by (auto simp: e split: prod.splits sum.splits)
qed

text \<open>A healthy node of europe whose host name does not say so.\<close>

definition demo_european :: node_info where
  "demo_european = \<lparr>ni_id = ''n1'', ni_cluster = ''c1'', ni_hostname = ''worker-1'', ni_status = ''healthy'',
     ni_cpu = Fin 1, ni_mem = Fin 1, ni_disk = Fin 1, ni_last_heartbeat = OtherText [],
     ni_registered_at = OtherText [], ni_region = ''europe''\<rparr>"

definition demo_gateway :: "unit gateway" where
  "demo_gateway =
     \<lparr>gw_get_nodes = (\<lambda>_ w. (Inr [demo_european], w)), gw_create_record = (\<lambda>_ _ _ _ w. (Inr ''d1'', w)),
      gw_get = (\<lambda>_ w. (Inl (Status NotFound []), w)), gw_list = (\<lambda>_ w. (Inr [], w)),
      gw_delete_record = (\<lambda>_ w. (Inr True, w)), gw_dial = (\<lambda>_ w. (None, w)),
      gw_insert = (\<lambda>_ _ _ _ _ _ w. (Inr (True, 1), w)), gw_search = (\<lambda>_ _ _ _ _ _ w. (Inr (True, []), w))\<rparr>"

definition demo_gateway_env :: gateway_env where
  "demo_gateway_env = \<lparr>ge_sort = go_isort, ge_range = go_range 0, ge_zone = utc, ge_now = 0, ge_worker_addr = []\<rparr>"

text \<open>
  Creation and the region list disagree on where a node is: a node registered in europe
  with an ordinary host name counts as europe in the list, and as india for a creation, which
  is then told that europe is down.
\<close>

theorem create_ignores_registered_region:
  "(\<exists>infos matrix. handleListRegions demo_gateway () = (Http_Body 200 (infos, matrix), ()) \<and>
      (\<exists>i \<in> set infos. ri_region i = ''europe'' \<and> ri_status i = StatusHealthy)) \<and>
   (\<exists>ans. gateway_create demo_gateway_env demo_gateway (Inr \<lparr>gb_name = ''orders'', gb_cluster = [], gb_region = ''europe''\<rparr>) () =
        (Http_Body 202 ans, ()) \<and> ga_preferred ans = ''europe'' \<and> ga_served ans = ''india'' \<and> ga_rerouted ans)"
proof
  let ?l = "fst (handleListRegions demo_gateway ())"
  have "case ?l of Http_Body code (infos, _) \<Rightarrow> code = 200 \<and>
      list_ex (\<lambda>i. ri_region i = ''europe'' \<and> ri_status i = StatusHealthy) infos | _ \<Rightarrow> False" by code_simp
  then obtain infos matrix where l: "?l = Http_Body 200 (infos, matrix)"
      "list_ex (\<lambda>i. ri_region i = ''europe'' \<and> ri_status i = StatusHealthy) infos"
    by (auto split: http_answer.splits)
  then have "handleListRegions demo_gateway () = (Http_Body 200 (infos, matrix), ())"
    by (cases "handleListRegions demo_gateway ()") simp
  with l(2) show "\<exists>infos matrix. handleListRegions demo_gateway () = (Http_Body 200 (infos, matrix), ()) \<and>
      (\<exists>i \<in> set infos. ri_region i = ''europe'' \<and> ri_status i = StatusHealthy)" by (auto simp: list_ex_iff)
  let ?c = "gateway_create demo_gateway_env demo_gateway (Inr \<lparr>gb_name = ''orders'', gb_cluster = [], gb_region = ''europe''\<rparr>) ()"
  have "case fst ?c of Http_Body code ans \<Rightarrow> code = 202 \<and> ga_preferred ans = ''europe'' \<and> ga_served ans = ''india'' \<and> ga_rerouted ans
      | _ \<Rightarrow> False" by code_simp
  then obtain ans where a: "fst ?c = Http_Body 202 ans" "ga_preferred ans = ''europe''" "ga_served ans = ''india''" "ga_rerouted ans"
    by (auto split: http_answer.splits)
  then have "?c = (Http_Body 202 ans, ())" by (cases ?c) simp
  with a show "\<exists>ans. ?c = (Http_Body 202 ans, ()) \<and> ga_preferred ans = ''europe'' \<and> ga_served ans = ''india'' \<and> ga_rerouted ans"
    by blast
qed


section \<open>Concrete requests\<close>

lemma demo_gateway_env_sort: "slice_sort (ge_sort demo_gateway_env)" "map_range (ge_range demo_gateway_env)"
  using isort.slice_sort_axioms ranged.map_range_axioms [of 0] by (simp_all add: demo_gateway_env_def)


lemma operations_endpoints_do_nothing_witness:
  "\<exists>code body. code \<in> {200, 202} \<and>
     (\<forall>gw (w :: unit). gateway_handle demo_gateway_env gw (To_Drain ''n1'') w = (Http_Body code (Json_Body body), w))"
  by (rule operations_endpoints_do_nothing [of _ "''n1''"]) simp

abbreviation demo_request :: create_body where
  "demo_request \<equiv> \<lparr>gb_name = ''orders'', gb_cluster = [], gb_region = ''europe''\<rparr>"

lemma create_routable_iff_healthy_node_witness:
  "\<not> (\<exists>msg w'. gateway_create demo_gateway_env demo_gateway (Inr demo_request) () = (Http_Error 503 msg, w'))"
proof -
  have "gw_get_nodes demo_gateway [] () = (Inr [demo_european], ())" by (simp add: demo_gateway_def)
  moreover have "to_lower (ni_status demo_european) = ''healthy''" by code_simp
  ultimately show ?thesis
    using create_routable_iff_healthy_node [OF demo_gateway_env_sort, of demo_request demo_gateway "()" "[demo_european]" "()"]
    by (simp only: create_body.simps list.distinct list.set bex_simps simp_thms)
qed

lemma served_region_has_no_effect_witness:
  "\<exists>ans ans'. gateway_create demo_gateway_env demo_gateway (Inr demo_request) () = (Http_Body 202 ans, ()) \<and>
     gateway_create demo_gateway_env demo_gateway (Inr (demo_request\<lparr>gb_region := ''japan''\<rparr>)) () = (Http_Body 202 ans', ()) \<and>
     ga_id ans' = ga_id ans"
proof -
  obtain ans where a: "gateway_create demo_gateway_env demo_gateway (Inr demo_request) () = (Http_Body 202 ans, ())"
  proof -
    have "case fst (gateway_create demo_gateway_env demo_gateway (Inr demo_request) ()) of Http_Body code ans \<Rightarrow> code = 202 | _ \<Rightarrow> False"
      by code_simp
    then show thesis
      using that by (cases "gateway_create demo_gateway_env demo_gateway (Inr demo_request) ()") (auto split: http_answer.splits)
  qed
  from served_region_has_no_effect [OF demo_gateway_env_sort a, of "''japan''"] a show ?thesis by blast
qed

end
