(* ===== verification/Gateway_Flow.thy ===== *)
theory Gateway_Flow
  imports Gateway
begin

text \<open>
  The gateway in front of the metadata service and the node agents of \<^verbatim>\<open>Cluster\<close>:
  what becomes of a creation, a deletion and of vectors sent through it.
\<close>

section \<open>The gateway's clients\<close>

definition real_gateway ::
  "(node_row list \<Rightarrow> node_row list) \<Rightarrow> (database_row list \<Rightarrow> database_row list) \<Rightarrow> result_sort \<Rightarrow> meta_range \<Rightarrow>
   entry_range \<Rightarrow> cluster_world gateway" where
  "real_gateway rng rngd srt rngm rnge =
     \<lparr>gw_get_nodes = (\<lambda>c w. (GetNodes rng (cw_pg w) c (cw_tables w), w)),
      gw_create_record = (\<lambda>name c st k. on_tables (\<lambda>env. CreateDatabaseRecord env name c [] st k)),
      gw_get = (\<lambda>d w. (map_sum id Some (GetDatabase (cw_pg w) d (cw_tables w)), w)),
      gw_list = (\<lambda>c w. (ListDatabases rngd (cw_pg w) c (cw_tables w), w)),
      gw_delete_record = (\<lambda>d. on_tables (\<lambda>env. DeleteDatabaseRecord env d)),
      gw_dial = (\<lambda>_ w. (None, w)),
      gw_insert = (\<lambda>addr d i data emb meta. on_agent addr (\<lambda>a. apfst (map_sum id (Pair True)) (InsertVector d i data emb meta a))),
      gw_search = (\<lambda>addr d q k f e. on_agent addr (\<lambda>a. (Inr (True, SearchVector srt rngm rnge d q k f a), a)))\<rparr>"

lemmas real_gateway_sel = real_gateway_def gateway.simps

lemma real_gateway_calls:
  "gw_dial (real_gateway rng rngd srt rngm rnge) addr w = (None, w)"
  "gw_insert (real_gateway rng rngd srt rngm rnge) addr d i data emb meta =
     on_agent addr (\<lambda>a. apfst (map_sum id (Pair True)) (InsertVector d i data emb meta a))"
  "gw_search (real_gateway rng rngd srt rngm rnge) addr d q k f e =
     on_agent addr (\<lambda>a. (Inr (True, SearchVector srt rngm rnge d q k f a), a))"
  by (simp_all add: real_gateway_def)

section \<open>A creation through the gateway\<close>

lemma gateway_create_accepted:
  assumes "gateway_create ge gw (Inr req) w = (Http_Body 202 ans, w')"
  shows "gb_name req \<noteq> [] \<and> (\<exists>res w1. gw_get_nodes gw [] w = (res, w1) \<and>
    gw_create_record gw (gb_name req) (default_cluster (gb_cluster req)) ''provisioning'' 1 w1 = (Inr (ga_id ans), w'))"
proof -
  have name: "gb_name req \<noteq> []" using assms by (auto simp: gateway_create_def)
  obtain res w1 where "gw_get_nodes gw [] w = (res, w1)" by (cases "gw_get_nodes gw [] w")
  with name assms show ?thesis by (auto simp: gateway_create_eq split: prod.splits sum.splits)
qed



section \<open>Deleting through the gateway\<close>

text \<open>
  A deletion through the gateway removes the record and touches no node: whatever agent
  holds the database keeps it, while the client is told of success.
\<close>

theorem gateway_delete_keeps_data:
  assumes "gateway_delete (real_gateway rng rngd srt rngm rnge) d w = (Http_Body 200 True, w')"
  shows "cw_agents w' = cw_agents w \<and> \<not> has_record d w'"
proof -
  obtain v t where del: "DeleteDatabaseRecord (cw_pg w) d (cw_tables w) = (Inr v, t)" and w': "w' = w\<lparr>cw_tables := t\<rparr>"
    using assms by (auto simp: gateway_delete_def real_gateway_sel on_tables_def split: if_splits prod.splits sum.splits)
  obtain d' where "pg_uuid (cw_pg w) d = Some d'" "find_row dr_id d' (tb_databases (cw_tables w)) \<noteq> None"
    "t = (cw_tables w)\<lparr>tb_databases := filter (\<lambda>r. dr_id r \<noteq> d') (tb_databases (cw_tables w)),
            tb_replicas := filter (\<lambda>r. rr_database r \<noteq> d') (tb_replicas (cw_tables w))\<rparr>"
    using del by (rule DeleteDatabaseRecord_success)
  then show ?thesis by (auto simp: has_record_def w')
qed

section \<open>Vectors through the gateway\<close>

text \<open>The address the gateway derives from the endpoint an agent reported.\<close>

lemma endpoint_of_creation:
  "CreateDatabase ctx mkdir name d a = (Inr res, a') \<Longrightarrow> cr_success res \<Longrightarrow> cr_endpoint res = ag_hostname a @ ''/db/'' @ d"
  by (auto simp: CreateDatabase_eq register_db_def split: if_splits option.splits)

lemma endpoint_address_host:
  assumes "h \<noteq> []" and "CHR ''/'' \<notin> set h"
  shows "endpoint_address (h @ ''/db/'' @ d) =
    Some (if has_prefix h ''nimbusdb-worker-node-'' then h @ ''.nimbusdb-worker-node:50053'' else h @ '':50053'')"
proof -
  have "str_split ''/'' (h @ ''/db/'' @ d) ! 0 = h"
    using str_split_char(1) [OF assms(2), of "''db/'' @ d"] by simp
  then show ?thesis using assms(1) by (simp add: endpoint_address_def)
qed

text \<open>
  C11. For a database an agent reports as created, the gateway dials the address that
  provisioning dialed, except for the two host names of local setups, for which provisioning
  dials localhost and the gateway the name itself.
\<close>

theorem gateway_dials_provisioned_agent:
  assumes "CreateDatabase ctx mkdir name d a = (Inr res, a')" and "cr_success res"
    and "ag_hostname a \<noteq> []" and "CHR ''/'' \<notin> set (ag_hostname a)"
  shows "endpoint_address (cr_endpoint res) = Some (agent_address (ag_hostname a)) \<longleftrightarrow>
    ag_hostname a \<noteq> ''worker-local'' \<and> ag_hostname a \<noteq> ''test-worker-node''"
proof -
  let ?h = "ag_hostname a"
  have p: "\<not> has_prefix ''worker-local'' ''nimbusdb-worker-node-''"
    "\<not> has_prefix ''test-worker-node'' ''nimbusdb-worker-node-''" "\<not> has_prefix ''localhost'' ''nimbusdb-worker-node-''"
    by code_simp+
  have e: "endpoint_address (cr_endpoint res) =
      Some (if has_prefix ?h ''nimbusdb-worker-node-'' then ?h @ ''.nimbusdb-worker-node:50053'' else ?h @ '':50053'')"
    using endpoint_of_creation [OF assms(1,2)] endpoint_address_host [OF assms(3,4)] by simp
  consider "?h = ''worker-local''" | "?h = ''test-worker-node''" | "?h = ''localhost''"
    | "?h \<noteq> ''worker-local''" "?h \<noteq> ''test-worker-node''" "?h \<noteq> ''localhost''" by blast
  then show ?thesis
  proof cases
    case 1
    then show ?thesis unfolding e using p by (simp add: agent_address_def)
  next
    case 2
    then show ?thesis unfolding e using p by (simp add: agent_address_def)
  next
    case 3
    then show ?thesis unfolding e using p by (simp add: agent_address_def)
  next
    case 4
    then show ?thesis unfolding e by (simp only: agent_address_def if_False simp_thms if_cancel)
  qed
qed


lemma length_update_le: "length (AList.update k v al) \<le> Suc (length al)"
  by (induction al) auto

text \<open>Inserting at an address the gateway resolves; the registry is not involved.\<close>

lemma real_resolve_frame:
  assumes "cw_pg w' = cw_pg w" and "cw_tables w' = cw_tables w"
  shows "fst (resolveWorkerNodeAddr ge (real_gateway rng rngd srt rngm rnge) d w') =
      fst (resolveWorkerNodeAddr ge (real_gateway rng rngd srt rngm rnge) d w)"
    and "snd (resolveWorkerNodeAddr ge (real_gateway rng rngd srt rngm rnge) d w) = w"
  using assms by (simp_all add: resolveWorkerNodeAddr_def real_gateway_sel split: sum.split option.split)

lemma InsertVector_stores:
  assumes "i \<noteq> []"
  shows "\<exists>lsn a'. InsertVector d i data emb meta a = (Inr lsn, a') \<and>
    map_of (ag_vectors a' (default_db d)) i = Some \<lparr>ve_id = i, ve_data = data, ve_embedding = emb, ve_metadata = meta\<rparr>"
  using assms by (simp add: InsertVector_def Let_def update_conv')

lemma SearchVector_all:
  assumes "slice_sort srt" and "map_range rnge" and "trim_space f = []"
    and "map_of (ag_vectors a (default_db d)) i = Some v" and "ve_id v = i"
    and "int (length (ag_vectors a (default_db d))) \<le> effective_k k"
  shows "i \<in> fst ` set (SearchVector srt rngm rnge d q k f a)"
proof -
  let ?es = "ag_vectors a (default_db d)"
  let ?scored = "map (score_entry q) (search_candidates rngm rnge d f a)"
  have all: "search_candidates rngm rnge d f a = map snd (rnge ?es)"
    by (simp add: search_candidates_def matchesFilter_def assms(3))
  have "length ?scored = length ?es" by (simp add: all map_range.rng_length [OF assms(2)])
  moreover have "length ?es \<le> nat (effective_k k)" using assms(6) by linarith
  ultimately have "SearchVector srt rngm rnge d q k f a = srt more_similar ?scored"
    by (simp add: SearchVector_def Let_def slice_sort.srt_length [OF assms(1)])
  then have "set (SearchVector srt rngm rnge d q k f a) = set ?scored" by (simp add: slice_sort.srt_set [OF assms(1)])
  moreover have "v \<in> set (map snd (rnge ?es))"
    using map_of_SomeD [OF assms(4)] by (force simp: map_range.rng_set [OF assms(2)])
  then have "score_entry q v \<in> set ?scored" unfolding all set_map [of "score_entry q"] by (rule imageI)
  ultimately show ?thesis using assms(5) by (force simp: score_entry_def)
qed



section \<open>On the concrete cluster\<close>

abbreviation demo_real_gateway :: "cluster_world gateway" where
  "demo_real_gateway \<equiv> real_gateway (go_range 0) (go_range 0) go_isort (go_range 0) (go_range 0)"

abbreviation demo_orders :: create_body where
  "demo_orders \<equiv> \<lparr>gb_name = ''orders'', gb_cluster = ''c1'', gb_region = []\<rparr>"


lemma gateway_delete_keeps_data_witness:
  "\<exists>w'. gateway_delete demo_real_gateway ''d1'' demo_provisioned = (Http_Body 200 True, w') \<and>
     cw_agents w' = cw_agents demo_provisioned \<and> \<not> has_record ''d1'' w'"
proof -
  have "case fst (gateway_delete demo_real_gateway ''d1'' demo_provisioned) of Http_Body code b \<Rightarrow> code = 200 \<and> b | _ \<Rightarrow> False"
    by code_simp
  then obtain w' where "gateway_delete demo_real_gateway ''d1'' demo_provisioned = (Http_Body 200 True, w')"
    by (cases "gateway_delete demo_real_gateway ''d1'' demo_provisioned") (auto split: http_answer.splits)
  with gateway_delete_keeps_data [OF this] show ?thesis by blast
qed

lemma gateway_dials_provisioned_agent_witness:
  "\<exists>res a'. CreateDatabase None None ''orders'' ''d1'' (NewServer ''data'' ''worker-local'') = (Inr res, a') \<and>
     endpoint_address (cr_endpoint res) \<noteq> Some (agent_address ''worker-local'')"
proof -
  have "case fst (CreateDatabase None None ''orders'' ''d1'' (NewServer ''data'' ''worker-local'')) of Inl e \<Rightarrow> False | Inr res \<Rightarrow> cr_success res"
    by code_simp
  then obtain res a' where c: "CreateDatabase None None ''orders'' ''d1'' (NewServer ''data'' ''worker-local'') = (Inr res, a')" "cr_success res"
    by (cases "CreateDatabase None None ''orders'' ''d1'' (NewServer ''data'' ''worker-local'')") (auto split: sum.splits)
  have h: "ag_hostname (NewServer ''data'' ''worker-local'') = ''worker-local''" by (simp add: NewServer_def)
  have "CHR ''/'' \<notin> set ''worker-local''" by code_simp
  then have "endpoint_address (cr_endpoint res) \<noteq> Some (agent_address ''worker-local'')"
    using gateway_dials_provisioned_agent [OF c] by (simp add: h)
  with c show ?thesis by blast
qed

definition demo_worker_env :: gateway_env where
  "demo_worker_env = demo_gateway_env\<lparr>ge_worker_addr := ''h-n1:50053''\<rparr>"


end
