(* ===== verification/Startup.thy ===== *)
theory Startup
  imports Config
begin

text \<open>
  How the processes come up: the listeners each \<^verbatim>\<open>main\<close> opens, in its order, and
  what it does when a port is taken; the connection pool and the migrations of the metadata
  service. What libraries answer (the pool, the migration engine, dialing) is an argument.
\<close>

section \<open>Listeners\<close>

text \<open>
  A port a process must get, or else exits (\<^verbatim>\<open>net.Listen\<close> followed by
  \<^verbatim>\<open>os.Exit(1)\<close>, or a failed server reported to the main goroutine), or one whose
  failure is only logged or dropped, in a goroutine of its own.
\<close>

datatype listener = Must (port_of: string) | May (port_of: string)

definition metadata_listeners :: "getenv \<Rightarrow> listener list" where
  "metadata_listeners env = [Must (mc_grpc (Load_metadata env)), Must (mc_port (Load_metadata env))]"

definition scheduler_listeners :: "getenv \<Rightarrow> listener list" where
  "scheduler_listeners env = [May ''9091'', Must (sc_port (Load_scheduler env))]"

definition control_plane_listeners :: "getenv \<Rightarrow> listener list" where
  "control_plane_listeners env = [May (cc_http (Load_control_plane env))]"

definition gateway_listeners :: "getenv \<Rightarrow> listener list" where
  "gateway_listeners env = [May (snd (gateway_settings env))]"

definition worker_listeners :: "getenv \<Rightarrow> listener list" where
  "worker_listeners env = [May (wc_debug (Load_worker env)), Must (wc_agent (Load_worker env))]"

definition auth_listeners :: "getenv \<Rightarrow> listener list" where
  "auth_listeners env = [May (auth_port env)]"

text \<open>The receiver serves in the main goroutine, which returns when serving fails.\<close>

definition webhook_listeners :: "getenv \<Rightarrow> listener list" where
  "webhook_listeners env = [Must (webhook_port env)]"

definition deployment_listeners :: "getenv \<Rightarrow> listener list" where
  "deployment_listeners env = [May (snd (deployment_ports env)), Must (fst (deployment_ports env))]"

definition planner_listeners :: "getenv \<Rightarrow> listener list" where
  "planner_listeners env = [May (snd (planner_ports env)), Must (fst (planner_ports env))]"

definition sla_listeners :: "getenv \<Rightarrow> listener list" where
  "sla_listeners env = [May (snd (sla_ports env)), Must (fst (sla_ports env))]"

type_synonym program = "string \<times> listener list"

definition programs :: "getenv \<Rightarrow> program list" where
  "programs env =
     [(''metadata-service'', metadata_listeners env), (''scheduler'', scheduler_listeners env),
      (''control-plane'', control_plane_listeners env), (''gateway'', gateway_listeners env),
      (''worker-node'', worker_listeners env), (''auth-service'', auth_listeners env),
      (''webhook'', webhook_listeners env), (''deployment-controller'', deployment_listeners env),
      (''capacity-planner'', planner_listeners env), (''sla-monitor'', sla_listeners env)]"

section \<open>Starting on one machine\<close>

text \<open>The ports a program gets beside those that are bound; \<open>None\<close> when it exits.\<close>

fun claim :: "listener list \<Rightarrow> string list \<Rightarrow> string list option" where
  "claim [] bound = Some []"
| "claim (May p # ls) bound =
     (if p \<in> set bound then claim ls bound else map_option (Cons p) (claim ls (p # bound)))"
| "claim (Must p # ls) bound =
     (if p \<in> set bound then None else map_option (Cons p) (claim ls (p # bound)))"

text \<open>Programs started one after the other: what each serves. One that exits releases its ports.\<close>

fun boot :: "program list \<Rightarrow> string list \<Rightarrow> (string \<times> string list option) list" where
  "boot [] bound = []"
| "boot ((name, ls) # ps) bound =
     (case claim ls bound of
        None \<Rightarrow> (name, None) # boot ps bound
      | Some served \<Rightarrow> (name, Some served) # boot ps (served @ bound))"

definition ports :: "program \<Rightarrow> string list" where
  "ports p = map port_of (snd p)"

definition must_ports :: "program \<Rightarrow> string set" where
  "must_ports p = {q. Must q \<in> set (snd p)}"

lemma claim_eq:
  assumes "distinct (map port_of ls)" and "\<And>q. Must q \<in> set ls \<Longrightarrow> q \<notin> set bound"
  shows "claim ls bound = Some (filter (\<lambda>q. q \<notin> set bound) (map port_of ls))"
  using assms
proof (induction ls arbitrary: bound)
  case (Cons l ls)
  have rest: "claim ls (port_of l # bound) = Some (filter (\<lambda>q. q \<notin> set bound) (map port_of ls))"
  proof -
    have "claim ls (port_of l # bound) = Some (filter (\<lambda>q. q \<notin> set (port_of l # bound)) (map port_of ls))"
    proof (rule Cons.IH)
      show "q \<notin> set (port_of l # bound)" if "Must q \<in> set ls" for q
        using that Cons.prems(1) Cons.prems(2) [of q] image_eqI [of q port_of "Must q" "set ls"] by (cases "q = port_of l") simp_all
    qed (use Cons.prems(1) in simp)
    moreover have "filter (\<lambda>q. q \<notin> set (port_of l # bound)) (map port_of ls) = filter (\<lambda>q. q \<notin> set bound) (map port_of ls)"
    proof (intro filter_cong)
      show "(q \<notin> set (port_of l # bound)) = (q \<notin> set bound)" if "q \<in> set (map port_of ls)" for q
        using Cons.prems(1) that by (cases "q = port_of l") simp_all
    qed simp
    ultimately show ?thesis by simp
  qed
  show ?case using rest Cons by (cases l) auto
qed simp

text \<open>
  Where no program needs a port another one claims, none exits, and each gets the ports that
  no program started before it claims.
\<close>

definition compatible :: "program list \<Rightarrow> bool" where
  "compatible ps \<longleftrightarrow> (\<forall>p \<in> set ps. distinct (ports p)) \<and>
     (\<forall>i < length ps. \<forall>j < length ps. i \<noteq> j \<longrightarrow> must_ports (ps ! i) \<inter> set (ports (ps ! j)) = {})"

lemma boot_eq:
  assumes "compatible ps" and "\<And>p. p \<in> set ps \<Longrightarrow> must_ports p \<inter> set bound = {}" and "i < length ps"
  shows "boot ps bound ! i =
    (fst (ps ! i), Some (filter (\<lambda>q. q \<notin> set bound \<and> (\<forall>j < i. q \<notin> set (ports (ps ! j)))) (ports (ps ! i))))"
  using assms
proof (induction ps arbitrary: bound i)
  case (Cons p ps)
  obtain name ls where p: "p = (name, ls)" by (cases p)
  have ls: "claim ls bound = Some (filter (\<lambda>q. q \<notin> set bound) (ports p))"
    unfolding ports_def p snd_conv
    by (rule claim_eq) (use Cons.prems(1) Cons.prems(2) [of p] in \<open>auto simp: compatible_def ports_def must_ports_def p\<close>)
  let ?served = "filter (\<lambda>q. q \<notin> set bound) (ports p)"
  have b: "boot (p # ps) bound = (name, Some ?served) # boot ps (?served @ bound)" using ls by (simp add: p)
  show ?case
  proof (cases i)
    case 0
    then show ?thesis unfolding b by (simp add: p)
  next
    case (Suc k)
    have comp: "compatible ps"
      unfolding compatible_def
    proof (intro conjI allI impI)
      show "\<forall>p \<in> set ps. distinct (ports p)" using Cons.prems(1) by (simp add: compatible_def)
      show "must_ports (ps ! i) \<inter> set (ports (ps ! j)) = {}" if "i < length ps" "j < length ps" "i \<noteq> j" for i j
        using Cons.prems(1) that unfolding compatible_def by (metis Suc_less_eq length_Cons nat.inject nth_Cons_Suc)
    qed
    have "must_ports p' \<inter> set (?served @ bound) = {}" if "p' \<in> set ps" for p'
    proof -
      obtain j where "j < length ps" "ps ! j = p'" using \<open>p' \<in> set ps\<close> by (auto simp: in_set_conv_nth)
      then have "must_ports p' \<inter> set (ports p) = {}"
        using Cons.prems(1) unfolding compatible_def
        by (metis Suc_less_eq length_Cons nat.distinct(1) nth_Cons_0 nth_Cons_Suc zero_less_Suc)
      with Cons.prems(2) [of p'] that show ?thesis by auto
    qed
    from Cons.IH [OF comp this] have "boot ps (?served @ bound) ! k = (fst (ps ! k),
        Some (filter (\<lambda>q. q \<notin> set (?served @ bound) \<and> (\<forall>j < k. q \<notin> set (ports (ps ! j)))) (ports (ps ! k))))"
      using Cons.prems(3) Suc by simp
    moreover have "filter (\<lambda>q. q \<notin> set (?served @ bound) \<and> (\<forall>j < k. q \<notin> set (ports (ps ! j)))) (ports (ps ! k)) =
        filter (\<lambda>q. q \<notin> set bound \<and> (\<forall>j < Suc k. q \<notin> set (ports ((p # ps) ! j)))) (ports (ps ! k))"
      by (rule filter_cong) (auto simp: All_less_Suc2)
    ultimately show ?thesis unfolding b by (simp add: Suc)
  qed
qed simp

lemma length_boot [simp]: "length (boot ps bound) = length ps"
  by (induction ps bound rule: boot.induct) (auto split: option.split)

section \<open>With nothing configured\<close>

definition the_control_plane :: program where
  "the_control_plane = (''control-plane'', control_plane_listeners no_settings)"

definition the_gateway :: program where
  "the_gateway = (''gateway'', gateway_listeners no_settings)"

text \<open>Two programs that claim no common port, or are the control plane and the gateway.\<close>

definition apart :: "program \<Rightarrow> program \<Rightarrow> bool" where
  "apart p q \<longleftrightarrow> list_all (\<lambda>x. x \<notin> set (ports q)) (ports p)"

definition contenders :: "program \<Rightarrow> program \<Rightarrow> bool" where
  "contenders p q \<longleftrightarrow> p = the_control_plane \<and> q = the_gateway \<or> p = the_gateway \<and> q = the_control_plane"

lemma apart_iff: "apart p q \<longleftrightarrow> set (ports p) \<inter> set (ports q) = {}"
  by (auto simp: apart_def list_all_iff)

lemma programs_distinct: "distinct (map fst (programs no_settings))"
  by code_simp

lemma programs_ports: "list_all (\<lambda>p. distinct (ports p)) (programs no_settings)"
  by code_simp

lemma programs_apart:
  "list_all (\<lambda>p. list_all (\<lambda>q. fst p = fst q \<or> apart p q \<or> contenders p q) (programs no_settings)) (programs no_settings)"
  by code_simp

lemma contenders_in: "the_control_plane \<in> set (programs no_settings)" "the_gateway \<in> set (programs no_settings)"
  by (simp_all add: programs_def the_control_plane_def the_gateway_def)

lemma contenders_ports: "ports the_control_plane = [''8082'']" "ports the_gateway = [''8082'']"
  "the_control_plane \<noteq> the_gateway"
  by code_simp+

lemma contenders_must: "contenders p q \<Longrightarrow> must_ports p = {}"
  by (auto simp: contenders_def the_control_plane_def the_gateway_def must_ports_def control_plane_listeners_def gateway_listeners_def)

lemma must_ports_subset: "must_ports p \<subseteq> set (ports p)"
  by (force simp: must_ports_def ports_def)

lemma boot_nth_apart:
  assumes ps: "mset ps = mset (programs no_settings)" and "i < length ps" and "j < length ps" and "i \<noteq> j"
  shows "apart (ps ! i) (ps ! j) \<or> contenders (ps ! i) (ps ! j)"
proof -
  have "mset (map fst ps) = mset (map fst (programs no_settings))" using ps by simp
  then have "distinct (map fst ps)" using programs_distinct mset_eq_imp_distinct_iff by blast
  then have "fst (ps ! i) \<noteq> fst (ps ! j)" using assms by (simp add: distinct_conv_nth)
  moreover have "ps ! i \<in> set (programs no_settings)" "ps ! j \<in> set (programs no_settings)"
    using assms mset_eq_setD [OF ps] nth_mem by blast+
  ultimately show ?thesis using programs_apart unfolding list_all_iff by blast
qed

lemma boot_compatible:
  assumes ps: "mset ps = mset (programs no_settings)"
  shows "compatible ps"
  unfolding compatible_def
proof (intro conjI allI impI)
  show "\<forall>p \<in> set ps. distinct (ports p)"
    using programs_ports mset_eq_setD [OF ps] by (simp add: list_all_iff)
  show "must_ports (ps ! i) \<inter> set (ports (ps ! j)) = {}" if "i < length ps" "j < length ps" "i \<noteq> j" for i j
    using boot_nth_apart [OF ps that]
  proof
    assume "apart (ps ! i) (ps ! j)"
    then show ?thesis using must_ports_subset [of "ps ! i"] unfolding apart_iff by blast
  qed (simp add: contenders_must)
qed

lemma boot_nth:
  assumes ps: "mset ps = mset (programs no_settings)" and "i < length ps"
  shows "boot ps [] ! i = (fst (ps ! i), Some (filter (\<lambda>q. \<forall>j < i. q \<notin> set (ports (ps ! j))) (ports (ps ! i))))"
  using boot_eq [OF boot_compatible [OF ps] _ assms(2), of "[]"] by simp

lemma boot_later:
  assumes ps: "mset ps = mset (programs no_settings)"
    and "i < j" and "j < length ps" and "contenders (ps ! i) (ps ! j)"
  shows "boot ps [] ! j = (fst (ps ! j), Some [])"
proof -
  have "ports (ps ! i) = [''8082'']" "ports (ps ! j) = [''8082'']"
    using assms(4) contenders_ports by (auto simp: contenders_def)
  then have "\<not> (\<forall>k < j. q \<notin> set (ports (ps ! k)))" if "q \<in> set (ports (ps ! j))" for q
    using assms(2) that by fastforce
  then have "filter (\<lambda>q. \<forall>k < j. q \<notin> set (ports (ps ! k))) (ports (ps ! j)) = []"
    by (intro filter_False) blast
  then show ?thesis using boot_nth [OF ps assms(3)] by (simp only:)
qed

lemma boot_others:
  assumes ps: "mset ps = mset (programs no_settings)"
    and "k < length ps" and "\<And>i. i < k \<Longrightarrow> \<not> contenders (ps ! k) (ps ! i)"
  shows "boot ps [] ! k = (fst (ps ! k), Some (ports (ps ! k)))"
proof -
  have "q \<notin> set (ports (ps ! j))" if "q \<in> set (ports (ps ! k))" "j < k" for q j
    using boot_nth_apart [OF ps assms(2), of j] assms(2) assms(3) [OF that(2)] that unfolding apart_iff by auto
  then have "filter (\<lambda>q. \<forall>j < k. q \<notin> set (ports (ps ! j))) (ports (ps ! k)) = ports (ps ! k)"
    by (intro filter_True) blast
  then show ?thesis using boot_nth [OF ps assms(2)] by (simp only:)
qed

text \<open>
  With nothing configured and in whatever order the ten processes are started on one machine,
  none of them exits. One of the control plane and the gateway (the one started later) stays
  up serving no port at all: the error of its server is only logged. Every other process
  serves each of its ports.
\<close>

definition started :: "(string \<times> string list option) list \<Rightarrow> program \<Rightarrow> bool" where
  "started r p \<longleftrightarrow> (fst p, Some (ports p)) \<in> set r"

theorem one_process_serves_nothing:
  assumes ps: "mset ps = mset (programs no_settings)"
  shows "\<exists>idle \<in> {the_control_plane, the_gateway}.
    (fst idle, Some []) \<in> set (boot ps []) \<and> (\<forall>p \<in> set (programs no_settings). p \<noteq> idle \<longrightarrow> started (boot ps []) p)"
proof -
  note set_ps = mset_eq_setD [OF ps]
  obtain a b where ab: "a < b" "b < length ps" "contenders (ps ! a) (ps ! b)"
  proof -
    obtain i j where "i < length ps" "ps ! i = the_control_plane" "j < length ps" "ps ! j = the_gateway"
      using contenders_in by (metis in_set_conv_nth set_ps)
    then show thesis using that [of i j] that [of j i] contenders_ports(3)
      by (metis contenders_def linorder_neqE_nat)
  qed
  have idle: "ps ! b \<in> {the_control_plane, the_gateway}" using ab(3) by (auto simp: contenders_def)
  have idle_serves: "(fst (ps ! b), Some []) \<in> set (boot ps [])"
    using boot_later [OF ps ab] ab(2) by (metis length_boot nth_mem)
  have "started (boot ps []) p" if program: "p \<in> set (programs no_settings)" and other: "p \<noteq> ps ! b" for p
  proof -
    obtain k where k: "k < length ps" "ps ! k = p" using program by (metis in_set_conv_nth set_ps)
    have distinct: "distinct ps"
      using programs_distinct mset_eq_imp_distinct_iff [OF ps] by (simp add: distinct_map)
    have order: "\<not> contenders (ps ! k) (ps ! i)" if ik: "i < k" for i
    proof
      assume c: "contenders (ps ! k) (ps ! i)"
      have "ps ! k \<noteq> ps ! b" using k(2) other by simp
      then have "ps ! k = ps ! a \<and> ps ! i = ps ! b"
        using c ab(3) contenders_ports(3) unfolding contenders_def by (elim disjE conjE) simp_all
      then have "k = a" "i = b" using distinct k(1) ab(1,2) ik by (simp_all add: nth_eq_iff_index_eq)
      then show False using ik ab(1) by simp
    qed
    from boot_others [OF ps k(1) order] show ?thesis
      unfolding started_def using k by (metis length_boot nth_mem)
  qed
  then have "\<forall>p \<in> set (programs no_settings). p \<noteq> ps ! b \<longrightarrow> started (boot ps []) p" by blast
  with idle_serves show ?thesis by (intro bexI [OF _ idle] conjI)
qed

section \<open>The database of the metadata service\<close>

text \<open>
  \<^verbatim>\<open>db.Connect\<close>: parse the address, create a pool, ping the database. The pgx
  functions are arguments: the two fallible constructors and the error of a ping, if any.
  Beside the result, the pools that are left open.
\<close>

record ('config, 'pool) pgx =
  ParseConfig :: "string \<Rightarrow> string + 'config"
  NewWithConfig :: "'config \<Rightarrow> string + 'pool"
  Ping :: "'pool \<Rightarrow> string option"

definition Connect :: "('config, 'pool) pgx \<Rightarrow> string \<Rightarrow> (string + 'pool) \<times> 'pool list" where
  "Connect pgx dbURL =
     (case ParseConfig pgx dbURL of
        Inl e \<Rightarrow> (Inl (''unable to parse database url: '' @ e), [])
      | Inr config \<Rightarrow>
          (case NewWithConfig pgx config of
             Inl e \<Rightarrow> (Inl (''unable to create connection pool: '' @ e), [])
           | Inr pool \<Rightarrow>
               (case Ping pgx pool of
                  Some e \<Rightarrow> (Inl (''unable to ping database: '' @ e), removeAll pool [pool])
                | None \<Rightarrow> (Inr pool, [pool]))))"

text \<open>A pool is handed out exactly when it answers, and no other is left open.\<close>

lemma Connect_no_leak:
  "snd (Connect pgx dbURL) = (case fst (Connect pgx dbURL) of Inl _ \<Rightarrow> [] | Inr pool \<Rightarrow> [pool])"
  by (simp add: Connect_def split: sum.split option.split)

lemma Connect_answers: "fst (Connect pgx dbURL) = Inr pool \<Longrightarrow> Ping pgx pool = None"
  by (auto simp: Connect_def split: sum.splits option.splits)

text \<open>
  The migrations: the steps of golang-migrate are arguments, \<open>Up\<close> and \<open>Down\<close>
  act on the version of the schema and may answer that there was nothing to do. Beside the
  result, the version and the handles left open.
\<close>

datatype migrate_reply = Migrated | ErrNoChange | Migrate_failed string

record ('db, 'source, 'driver, 'inst) migrator =
  sql_Open :: "string \<Rightarrow> string + 'db"
  iofs_New :: "string \<Rightarrow> string + 'source"
  WithInstance :: "'db \<Rightarrow> string + 'driver"
  NewWithInstance :: "'source \<Rightarrow> 'driver \<Rightarrow> string + 'inst"
  Up :: "'inst \<Rightarrow> nat \<Rightarrow> migrate_reply \<times> nat"
  Down :: "'inst \<Rightarrow> nat \<Rightarrow> migrate_reply \<times> nat"

text \<open>The part the two functions share: everything before the migration runs.\<close>

definition prepare :: "('db, 'source, 'driver, 'inst) migrator \<Rightarrow> 'db \<Rightarrow> string \<Rightarrow> string + 'inst" where
  "prepare m db path =
     (case iofs_New m path of
        Inl e \<Rightarrow> Inl (''failed to create iofs source driver: '' @ e)
      | Inr d \<Rightarrow>
          (case WithInstance m db of
             Inl e \<Rightarrow> Inl (''failed to create postgres database driver: '' @ e)
           | Inr driver \<Rightarrow>
               (case NewWithInstance m d driver of
                  Inl e \<Rightarrow> Inl (''failed to create migration instance: '' @ e)
                | Inr inst \<Rightarrow> Inr inst)))"

definition RunMigrations ::
  "('db, 'source, 'driver, 'inst) migrator \<Rightarrow> string \<Rightarrow> string \<Rightarrow> nat \<Rightarrow> string option \<times> nat" where
  "RunMigrations m dbURL path v =
     (case sql_Open m dbURL of
        Inl e \<Rightarrow> (Some (''failed to open database for migrations: '' @ e), v)
      | Inr db \<Rightarrow>
          (case prepare m db path of
             Inl e \<Rightarrow> (Some e, v)
           | Inr inst \<Rightarrow>
               (case Up m inst v of
                  (Migrate_failed e, v') \<Rightarrow> (Some (''failed to apply migrations: '' @ e), v')
                | (_, v') \<Rightarrow> (None, v'))))"

definition RollbackMigrations ::
  "('db, 'source, 'driver, 'inst) migrator \<Rightarrow> string \<Rightarrow> string \<Rightarrow> nat \<Rightarrow> string option \<times> nat" where
  "RollbackMigrations m dbURL path v =
     (case sql_Open m dbURL of
        Inl e \<Rightarrow> (Some (''failed to open database for migrations: '' @ e), v)
      | Inr db \<Rightarrow>
          (case prepare m db path of
             Inl e \<Rightarrow> (Some e, v)
           | Inr inst \<Rightarrow>
               (case Down m inst v of
                  (Migrate_failed e, v') \<Rightarrow> (Some (''failed to rollback migrations: '' @ e), v')
                | (_, v') \<Rightarrow> (None, v'))))"

section \<open>The metadata service comes up\<close>

text \<open>
  \<^verbatim>\<open>main\<close>: migrations, then the pool, then the listeners; it exits at the first
  that fails. The ports it serves, the pools it leaves open and the version of the schema.
\<close>

definition metadata_start ::
  "('db, 'source, 'driver, 'inst) migrator \<Rightarrow> ('config, 'pool) pgx \<Rightarrow> getenv \<Rightarrow> string list \<Rightarrow> nat \<Rightarrow>
   string list option \<times> 'pool list \<times> nat" where
  "metadata_start m pgx env bound v =
     (let dbURL = mc_database (Load_metadata env) in
      case RunMigrations m dbURL ''migrations'' v of
        (Some e, v') \<Rightarrow> (None, [], v')
      | (None, v') \<Rightarrow>
          (case Connect pgx dbURL of
             (Inl e, pools) \<Rightarrow> (None, pools, v')
           | (Inr pool, pools) \<Rightarrow> (claim (metadata_listeners env) bound, pools, v')))"

text \<open>
  Where the engine is left after a migration that does not fail: \<open>Up\<close> ends at the
  last embedded version, \<open>Down\<close> before the first.
\<close>

definition migrates_to :: "('inst \<Rightarrow> nat \<Rightarrow> migrate_reply \<times> nat) \<Rightarrow> nat \<Rightarrow> bool" where
  "migrates_to run n \<longleftrightarrow> (\<forall>inst v r v'. run inst v = (r, v') \<longrightarrow> (\<exists>e. r = Migrate_failed e) \<or> v' = n)"

lemma RunMigrations_latest:
  assumes "migrates_to (Up m) n" and "RunMigrations m dbURL path v = (None, v')"
  shows "v' = n"
  using assms unfolding migrates_to_def RunMigrations_def
  by (fastforce split: sum.splits prod.splits migrate_reply.splits)

lemma RollbackMigrations_none:
  assumes "migrates_to (Down m) 0" and "RollbackMigrations m dbURL path v = (None, v')"
  shows "v' = 0"
  using assms unfolding migrates_to_def RollbackMigrations_def
  by (fastforce split: sum.splits prod.splits migrate_reply.splits)

text \<open>
  A metadata service that serves has the last schema, one open pool whose database answered,
  and both its ports, whatever schema it was started on.
\<close>

theorem metadata_serves_latest:
  assumes up: "migrates_to (Up m) n" and start: "metadata_start m pgx env bound v = (Some served, pools, v')"
  shows "v' = n \<and> (\<exists>pool. pools = [pool] \<and> Ping pgx pool = None) \<and>
    set served = {mc_grpc (Load_metadata env), mc_port (Load_metadata env)} \<and> set served \<inter> set bound = {}"
proof -
  let ?url = "mc_database (Load_metadata env)"
  obtain pool where mig: "RunMigrations m ?url ''migrations'' v = (None, v')"
    and con: "Connect pgx ?url = (Inr pool, pools)"
    and ls: "claim (metadata_listeners env) bound = Some served"
    using start unfolding metadata_start_def Let_def by (auto split: prod.splits option.splits sum.splits)
  have "pools = [pool]" using Connect_no_leak [of pgx ?url] con by simp
  moreover have "Ping pgx pool = None" using Connect_answers [of pgx ?url] con by simp
  moreover have "set served = {mc_grpc (Load_metadata env), mc_port (Load_metadata env)}" "set served \<inter> set bound = {}"
    using ls by (auto simp: metadata_listeners_def split: if_splits)
  ultimately show ?thesis using RunMigrations_latest [OF up mig] by blast
qed

text \<open>
  A restart on the schema an earlier start left succeeds with the engine answering that there
  is nothing to do: the answer counts as success.
\<close>

lemma metadata_restarts:
  assumes "metadata_start m pgx env bound v = (Some served, pools, v')"
    and "\<And>inst. Up m inst v' = (ErrNoChange, v')"
  shows "metadata_start m pgx env bound v' = (Some served, pools, v')"
  using assms unfolding metadata_start_def Let_def RunMigrations_def
  by (auto split: prod.splits option.splits sum.splits migrate_reply.splits)

end
