(* ===== verification/Worker.thy ===== *)
theory Worker
  imports Config Health Agent
begin

text \<open>
  \<^verbatim>\<open>services/worker-node/main.go\<close>: the loop that registers the node, the debug
  endpoints, and the heartbeat loop with its simulated load. The loops run against a metadata
  client; \<open>worker_link\<close> is the client whose other end is the model of the metadata service.
\<close>

section \<open>Registration\<close>

text \<open>
  The two calls of the loop, on a state \<open>'s\<close> of the world. The number is the iteration: the
  network, the database and the other participants differ from one to the next.
\<close>

record 's meta_client =
  mc_register :: "nat \<Rightarrow> string \<Rightarrow> string \<Rightarrow> 's \<Rightarrow> register_response rpc \<times> 's"
  mc_nodes :: "nat \<Rightarrow> string \<Rightarrow> 's \<Rightarrow> node_info list rpc \<times> 's"

text \<open>The identifier of the first node of the list with this host name, empty when there is none.\<close>

fun reattach :: "string \<Rightarrow> node_info list \<Rightarrow> string" where
  "reattach host [] = []"
| "reattach host (n # ns) = (if ni_hostname n = host then ni_id n else reattach host ns)"

text \<open>One iteration: the node's identifier and heartbeat interval when the loop is left.\<close>

definition register_attempt ::
  "'s meta_client \<Rightarrow> worker_config \<Rightarrow> nat \<Rightarrow> 's \<Rightarrow> (string \<times> int) option \<times> 's" where
  "register_attempt mc cfg i s =
     (case mc_register mc i (wc_cluster cfg) (wc_hostname cfg) s of
        (Inr res, s1) \<Rightarrow> (Some (rs_node res, if rs_interval res > 0 then rs_interval res else 5), s1)
      | (Inl err, s1) \<Rightarrow>
          if code_of err = AlreadyExists
          then (case mc_nodes mc i (wc_cluster cfg) s1 of
                  (Inr nodes, s2) \<Rightarrow>
                    (let nodeID = reattach (wc_hostname cfg) nodes
                     in (if nodeID \<noteq> [] then Some (nodeID, 5) else None, s2))
                | (Inl getErr, s2) \<Rightarrow> (None, s2))
          else (None, s1))"

text \<open>
  The loop. \<open>stop i\<close> says whether the process is told to stop during the two seconds after
  iteration \<open>i\<close>. It may run for ever, and then has no value.
\<close>

datatype registration = Registered string int | Aborted

partial_function (option) register_loop ::
  "'s meta_client \<Rightarrow> worker_config \<Rightarrow> (nat \<Rightarrow> bool) \<Rightarrow> nat \<Rightarrow> 's \<Rightarrow> (registration \<times> 's) option" where
  "register_loop mc cfg stop i s =
     (case register_attempt mc cfg i s of (r, s1) \<Rightarrow>
       (case r of
          Some (nodeID, interval) \<Rightarrow> Some (Registered nodeID interval, s1)
        | None \<Rightarrow> if stop i then Some (Aborted, s1) else register_loop mc cfg stop (i + 1) s1))"

section \<open>Debug server and heartbeats\<close>

record worker =
  wk_node :: string
  wk_cpu :: go_float
  wk_mem :: go_float
  wk_disk :: go_float
  wk_paused :: bool
  wk_agent :: agent

definition start_worker :: "worker_config \<Rightarrow> string \<Rightarrow> worker" where
  "start_worker cfg nodeID =
     \<lparr>wk_node = nodeID, wk_cpu = Fin 50, wk_mem = Fin 50, wk_disk = Fin 50, wk_paused = False,
      wk_agent = NewServer ''data'' (wc_hostname cfg)\<rparr>"

text \<open>
  The debug endpoints; the query parameters of \<^verbatim>\<open>/debug/inject-failure\<close> are the
  numbers \<^verbatim>\<open>Sscanf\<close> read, \<open>None\<close> for an absent or empty parameter.
\<close>

datatype debug_path = Pause | Resume | Inject "int option" "int option" | Health_Check

definition debug_request :: "string \<Rightarrow> debug_path \<Rightarrow> worker \<Rightarrow> (nat \<times> string) \<times> worker" where
  "debug_request method p w =
     (case p of
        Health_Check \<Rightarrow> ((200, ''{\"status\":\"UP\",\"service\":\"worker-node\"}''), w)
      | _ \<Rightarrow>
        if method \<noteq> ''POST'' then ((405, ''method not allowed''), w)
        else (case p of
            Pause \<Rightarrow> ((200, ''paused''), w\<lparr>wk_paused := True\<rparr>)
          | Resume \<Rightarrow> ((200, ''resumed''), w\<lparr>wk_paused := False\<rparr>)
          | Inject attempts hang \<Rightarrow> ((200, ''injected''), w\<lparr>wk_agent := inject_failure attempts hang (wk_agent w)\<rparr>)))"

text \<open>
  \<^verbatim>\<open>randomWalk\<close>: \<open>r\<close> is the draw of \<^verbatim>\<open>rand.Float32\<close>, which is in
  \<open>[0, 1)\<close>. The product is exact, so it does not matter whether it is fused with the difference.
\<close>

definition randomWalk :: "go_float \<Rightarrow> go_float \<Rightarrow> go_float" where
  "randomWalk r val =
     (let change = fsub F32 (fmul F32 r (Fin 4)) (Fin 2);
          newVal = fadd F32 val change;
          newVal = (if flt newVal (Fin 0) then Fin 0 else newVal)
      in if flt (Fin 100) newVal then Fin 100 else newVal)"

record heartbeat =
  hb_node :: string
  hb_cpu :: go_float
  hb_mem :: go_float
  hb_disk :: go_float
  hb_healthy :: bool

text \<open>A tick of the heartbeat loop, with its three draws: the heartbeat it sends, if any.\<close>

definition heartbeat_tick :: "go_float \<times> go_float \<times> go_float \<Rightarrow> worker \<Rightarrow> heartbeat option \<times> worker" where
  "heartbeat_tick rnd w =
     (if wk_paused w then (None, w)
      else case rnd of (r1, r2, r3) \<Rightarrow>
        (let cpu = randomWalk r1 (wk_cpu w); mem = randomWalk r2 (wk_mem w); disk = randomWalk r3 (wk_disk w)
         in (Some \<lparr>hb_node = wk_node w, hb_cpu = cpu, hb_mem = mem, hb_disk = disk, hb_healthy = True\<rparr>,
             w\<lparr>wk_cpu := cpu, wk_mem := mem, wk_disk := disk\<rparr>)))"

section \<open>The registration loop\<close>

text \<open>The state after a number of iterations.\<close>

primrec attempts :: "'s meta_client \<Rightarrow> worker_config \<Rightarrow> nat \<Rightarrow> nat \<Rightarrow> 's \<Rightarrow> 's" where
  "attempts mc cfg i 0 s = s"
| "attempts mc cfg i (Suc n) s = attempts mc cfg (Suc i) n (snd (register_attempt mc cfg i s))"

definition outcome :: "(string \<times> int) option \<Rightarrow> registration" where
  "outcome r = (case r of Some (nodeID, interval) \<Rightarrow> Registered nodeID interval | None \<Rightarrow> Aborted)"

text \<open>The loop is left at the first iteration that succeeds or after which the process is told to stop.\<close>

lemma register_loop_returns:
  assumes "fst (register_attempt mc cfg (i + n) (attempts mc cfg i n s)) \<noteq> None \<or> stop (i + n)"
  shows "\<exists>m \<le> n. \<exists>r s'. register_attempt mc cfg (i + m) (attempts mc cfg i m s) = (r, s') \<and>
    (r = None \<longrightarrow> stop (i + m)) \<and> register_loop mc cfg stop i s = Some (outcome r, s')"
  using assms
proof (induction n arbitrary: i s)
  case 0
  obtain r s' where at: "register_attempt mc cfg i s = (r, s')" by (cases "register_attempt mc cfg i s")
  with 0 show ?case
    by (auto simp: register_loop.simps [of mc cfg stop i] outcome_def split: option.split)
next
  case (Suc n)
  obtain r s1 where at: "register_attempt mc cfg i s = (r, s1)" by (cases "register_attempt mc cfg i s")
  show ?case
  proof (cases "r \<noteq> None \<or> stop i")
    case True
    then have "register_loop mc cfg stop i s = Some (outcome r, s1)"
      by (auto simp: register_loop.simps [of mc cfg stop i] at outcome_def split: option.split)
    with True at show ?thesis by (intro exI [of _ 0]) auto
  next
    case False
    then have "r = None" "\<not> stop i" by blast+
    then have rest: "register_loop mc cfg stop i s = register_loop mc cfg stop (Suc i) s1"
      by (simp add: register_loop.simps [of mc cfg stop i] at)
    have "\<exists>m\<le>n. \<exists>r s'. register_attempt mc cfg (Suc i + m) (attempts mc cfg (Suc i) m s1) = (r, s') \<and>
      (r = None \<longrightarrow> stop (Suc i + m)) \<and> register_loop mc cfg stop (Suc i) s1 = Some (outcome r, s')"
      by (rule Suc.IH) (use Suc.prems at in simp)
    then obtain m r' s' where "m \<le> n" and "register_attempt mc cfg (Suc i + m) (attempts mc cfg (Suc i) m s1) = (r', s')"
      and "r' = None \<longrightarrow> stop (Suc i + m)" and "register_loop mc cfg stop (Suc i) s1 = Some (outcome r', s')" by blast
    then show ?thesis by (intro exI [of _ "Suc m"] conjI exI [of _ r'] exI [of _ s']) (simp_all add: at rest)
  qed
qed

text \<open>It is never left when no iteration succeeds and no stop arrives.\<close>

lemma register_loop_diverges:
  assumes step: "\<And>i s. Q s \<Longrightarrow> fst (register_attempt mc cfg i s) = None \<and> Q (snd (register_attempt mc cfg i s))"
    and going: "\<And>i. \<not> stop i" and start: "Q s"
  shows "register_loop mc cfg stop i s = None"
proof -
  have "\<not> (mc' = mc \<and> cfg' = cfg \<and> stop' = stop \<and> Q s')" if "register_loop mc' cfg' stop' i' s' = Some y"
    for mc' cfg' stop' i' s' y
  proof (rule register_loop.raw_induct [where P = "\<lambda>mc' cfg' stop' i' s' y. \<not> (mc' = mc \<and> cfg' = cfg \<and> stop' = stop \<and> Q s')", OF _ that])
    fix loop and mc' :: "'a meta_client" and cfg' stop' i' s' y
    assume IH: "\<And>mc' cfg' stop' i' s' y. loop mc' cfg' stop' i' s' = Some y \<Longrightarrow>
        \<not> (mc' = mc \<and> cfg' = cfg \<and> stop' = stop \<and> Q s')"
      and run: "(case register_attempt mc' cfg' i' s' of (r, s1) \<Rightarrow>
         (case r of Some (nodeID, interval) \<Rightarrow> Some (Registered nodeID interval, s1)
          | None \<Rightarrow> if stop' i' then Some (Aborted, s1) else loop mc' cfg' stop' (i' + 1) s1)) = Some y"
    show "\<not> (mc' = mc \<and> cfg' = cfg \<and> stop' = stop \<and> Q s')"
    proof
      assume same: "mc' = mc \<and> cfg' = cfg \<and> stop' = stop \<and> Q s'"
      then obtain s1 where "register_attempt mc cfg i' s' = (None, s1)" and "Q s1"
        using step [of s' i'] by (cases "register_attempt mc cfg i' s'") auto
      then show False using run IH same going by auto
    qed
  qed
  then show ?thesis using start by (cases "register_loop mc cfg stop i s") auto
qed

text \<open>
  What the loop needs of the service behind its client: an invariant of the world, that an
  iteration which yields a node has made the service hold it, and that an iteration in which
  the service is up yields one.
\<close>

locale registry_service =
  fixes client :: "'s meta_client" and cfg :: worker_config and inv :: "'s \<Rightarrow> bool"
    and holds :: "string \<Rightarrow> 's \<Rightarrow> bool" and up :: "nat \<Rightarrow> 's \<Rightarrow> bool"
  assumes keeps: "inv s \<Longrightarrow> register_attempt client cfg i s = (r, s') \<Longrightarrow> inv s'"
    and yields: "inv s \<Longrightarrow> register_attempt client cfg i s = (Some (nodeID, interval), s') \<Longrightarrow>
      interval = 5 \<and> holds nodeID s'"
    and progress: "inv s \<Longrightarrow> up i s \<Longrightarrow> fst (register_attempt client cfg i s) \<noteq> None"
begin

lemma attempts_keep: "inv s \<Longrightarrow> inv (attempts client cfg i n s)"
proof (induction n arbitrary: i s)
  case (Suc n)
  obtain r s' where "register_attempt client cfg i s = (r, s')" by (metis surj_pair)
  with keeps [OF Suc.prems this] Suc show ?case by simp
qed simp

lemma loop_returns:
  assumes "inv s" and "up k (attempts client cfg 0 k s)"
  shows "\<exists>m \<le> k. \<exists>r s'. register_loop client cfg stop 0 s = Some (r, s') \<and> inv s' \<and>
    (case r of Registered nodeID interval \<Rightarrow> interval = 5 \<and> holds nodeID s' | Aborted \<Rightarrow> stop m)"
proof -
  have "fst (register_attempt client cfg (0 + k) (attempts client cfg 0 k s)) \<noteq> None"
    using progress [OF attempts_keep [OF assms(1)] assms(2)] by simp
  from register_loop_returns [OF disjI1 [OF this]] obtain m r s' where m: "m \<le> k"
    and at: "register_attempt client cfg (0 + m) (attempts client cfg 0 m s) = (r, s')"
    and st: "r = None \<longrightarrow> stop (0 + m)" and loop: "register_loop client cfg stop 0 s = Some (outcome r, s')" by blast
  have "case outcome r of Registered nodeID interval \<Rightarrow> interval = 5 \<and> holds nodeID s' | Aborted \<Rightarrow> stop m"
    using yields [OF attempts_keep [OF assms(1)]] at st by (auto simp: outcome_def split: option.split)
  with m loop keeps [OF attempts_keep [OF assms(1)] at] show ?thesis by blast
qed

end

section \<open>Registration with the metadata service\<close>

text \<open>
  What happens to a call on the way: it is answered; it is served but its answer is lost or
  later than the five seconds of the call's context; it does not arrive.
\<close>

datatype delivery = Delivered | Response_Lost | Not_Delivered

definition deliver :: "delivery \<Rightarrow> ('s \<Rightarrow> 'a rpc \<times> 's) \<Rightarrow> 's \<Rightarrow> 'a rpc \<times> 's" where
  "deliver d f s =
     (case d of
        Delivered \<Rightarrow> f s
      | Response_Lost \<Rightarrow> (Inl (Status DeadlineExceeded ''context deadline exceeded''), snd (f s))
      | Not_Delivered \<Rightarrow> (Inl (Status Unavailable ''connection refused''), s))"

text \<open>
  Per iteration: the database under each of the two calls, the fate of each call, what the
  other participants do to the registry before the iteration, and the order of result rows.
\<close>

record link =
  lk_pg :: "nat \<Rightarrow> pg_env"
  lk_list_pg :: "nat \<Rightarrow> pg_env"
  lk_reg :: "nat \<Rightarrow> delivery"
  lk_list :: "nat \<Rightarrow> delivery"
  lk_others :: "nat \<Rightarrow> tables \<Rightarrow> tables"
  lk_order :: "nat \<Rightarrow> node_row list \<Rightarrow> node_row list"

definition worker_link :: "link \<Rightarrow> tables meta_client" where
  "worker_link l =
     \<lparr>mc_register = (\<lambda>i c h t. deliver (lk_reg l i) (RegisterNode (lk_pg l i) c h) (lk_others l i t)),
      mc_nodes = (\<lambda>i c t. deliver (lk_list l i) (\<lambda>t. (GetNodes (lk_order l i) (lk_list_pg l i) c t, t)) t)\<rparr>"

text \<open>The rows of a host in a cluster, and the registries in which the host can be registered.\<close>

definition nodes_named :: "string \<Rightarrow> string \<Rightarrow> tables \<Rightarrow> node_row list" where
  "nodes_named c h t = filter (\<lambda>n. nr_cluster n = c \<and> nr_hostname n = h) (tb_nodes t)"

definition home_ok :: "string \<Rightarrow> tables \<Rightarrow> bool" where
  "home_ok c t \<longleftrightarrow> registry_ok t \<and> c \<in> ct_id ` set (tb_clusters t) \<and> [] \<notin> nr_id ` set (tb_nodes t)"

definition link_ok :: "link \<Rightarrow> string \<Rightarrow> string \<Rightarrow> bool" where
  "link_ok l cluster c \<longleftrightarrow> cluster \<noteq> [] \<and>
     (\<forall>i. pg_uuid (lk_pg l i) cluster = Some c \<and> pg_uuid (lk_list_pg l i) cluster = Some c \<and>
       pg_new_id (lk_pg l i) \<noteq> [] \<and> (\<forall>t. home_ok c t \<longrightarrow> home_ok c (lk_others l i t)) \<and>
       (\<forall>rows. mset (lk_order l i rows) = mset rows))"

lemma nodes_named_unique:
  assumes "registry_ok t" and "n \<in> set (nodes_named c h t)"
  shows "nodes_named c h t = [n]"
proof -
  let ?k = "\<lambda>n. (nr_cluster n, nr_hostname n)"
  have "distinct (map ?k (nodes_named c h t))"
    using assms(1) unfolding nodes_named_def registry_defs by (intro distinct_map_filter) blast
  moreover have "?k m = (c, h)" if "m \<in> set (nodes_named c h t)" for m
    using that by (simp add: nodes_named_def)
  ultimately have "distinct (nodes_named c h t) \<and> (\<forall>m \<in> set (nodes_named c h t). m = n)"
    using assms(2) by (auto simp: distinct_map inj_on_def)
  then show ?thesis using assms(2) by (metis distinct.simps(2) list.exhaust list.set_intros set_ConsD list.set(1) empty_iff)
qed

lemma RegisterNode_home:
  assumes "home_ok c t" and "pg_uuid env cluster = Some c" and "pg_new_id env \<noteq> []"
    and "RegisterNode env cluster h t = (r, t')"
  shows "home_ok c t'" and "r = Inr res \<Longrightarrow> rs_interval res = 5 \<and> map nr_id (nodes_named c h t') = [rs_node res]"
proof -
  have "home_ok c t' \<and> (\<forall>res. r = Inr res \<longrightarrow> rs_interval res = 5 \<and> map nr_id (nodes_named c h t') = [rs_node res])"
  proof (cases r)
    case (Inl e)
    then have "t' = t" using assms(4) RegisterNode_error by blast
    then show ?thesis using assms(1) Inl by simp
  next
    case (Inr res)
    then have ins: "insert_node env cluster h t = Inr (rs_node res, t')"
      using assms(4) RegisterNode_success by blast
    have five: "rs_interval res = 5" using assms(4) Inr by (auto simp: RegisterNode_def split: sum.splits if_splits)
    define n where "n = \<lparr>nr_id = pg_new_id env, nr_cluster = c, nr_hostname = h, nr_status = ''healthy'',
      nr_cpu = None, nr_mem = None, nr_disk = None, nr_last = None, nr_registered = pg_now env\<rparr>"
    have n: "nr_id n = pg_new_id env" "nr_cluster n = c" "nr_hostname n = h" by (simp_all add: n_def)
    have "insert_node env cluster h t = Inr (rs_node res, t') \<Longrightarrow>
        rs_node res = pg_new_id env \<and> t' = t\<lparr>tb_nodes := tb_nodes t @ [n]\<rparr>"
      unfolding insert_node_def as_uuid_def assms(2) n_def option.case sum.case by (metis Inl_Inr_False Inr_inject prod.inject)
    with ins have t': "t' = t\<lparr>tb_nodes := tb_nodes t @ [n]\<rparr>" and res: "rs_node res = pg_new_id env" by blast+
    have ok: "registry_ok t'" using insert_node_ok [OF _ ins] assms(1) by (simp add: home_ok_def)
    then have "home_ok c t'" using assms(1,3) by (auto simp: home_ok_def t' n)
    moreover have "n \<in> set (nodes_named c h t')" by (simp add: nodes_named_def t' n)
    then have "nodes_named c h t' = [n]" by (rule nodes_named_unique [OF ok])
    ultimately show ?thesis using Inr five res n by simp
  qed
  then show "home_ok c t'" and "r = Inr res \<Longrightarrow> rs_interval res = 5 \<and> map nr_id (nodes_named c h t') = [rs_node res]"
    by blast+
qed

lemma reattach_map:
  "reattach h (map (node_message t) ns) = (case find (\<lambda>n. nr_hostname n = h) ns of None \<Rightarrow> [] | Some n \<Rightarrow> nr_id n)"
  by (induction ns) (simp_all add: node_message_def)

lemma GetNodes_rows:
  assumes "GetNodes rng env cluster t = Inr nodes" and "pg_uuid env cluster = Some c" and "cluster \<noteq> []"
  shows "nodes = map (node_message t) (delivered env 0 (rng (filter (\<lambda>n. nr_cluster n = c) (tb_nodes t))))"
  using assms by (auto simp: GetNodes_def round_trip_def as_uuid_def split: option.splits)

text \<open>A node found by its host name is the one of that host in the cluster.\<close>

lemma reattach_found:
  assumes "GetNodes rng env cluster t = Inr nodes" and "pg_uuid env cluster = Some c" and "cluster \<noteq> []"
    and "registry_ok t" and "\<And>rows. mset (rng rows) = mset rows" and "reattach h nodes \<noteq> []"
  shows "map nr_id (nodes_named c h t) = [reattach h nodes]"
proof -
  let ?rows = "delivered env 0 (rng (filter (\<lambda>n. nr_cluster n = c) (tb_nodes t)))"
  have "reattach h nodes = (case find (\<lambda>n. nr_hostname n = h) ?rows of None \<Rightarrow> [] | Some n \<Rightarrow> nr_id n)"
    unfolding GetNodes_rows [OF assms(1-3)] by (rule reattach_map)
  with assms(6) obtain n where f: "find (\<lambda>n. nr_hostname n = h) ?rows = Some n" and r: "reattach h nodes = nr_id n"
    by (auto split: option.splits)
  from f have "n \<in> set ?rows" and "nr_hostname n = h" by (auto simp: find_Some_iff)
  moreover have "set ?rows \<subseteq> set (rng (filter (\<lambda>n. nr_cluster n = c) (tb_nodes t)))" by (rule set_delivered)
  ultimately have "n \<in> set (nodes_named c h t)" using mset_eq_setD [OF assms(5)] by (auto simp: nodes_named_def)
  then have "nodes_named c h t = [n]" by (rule nodes_named_unique [OF assms(4)])
  then show ?thesis using r by simp
qed

text \<open>
  Whatever happens to its calls, an iteration that yields a node has registered the host, once,
  and yields that registration.
\<close>

lemma attempt_home:
  assumes "link_ok l (wc_cluster cfg) c" and "home_ok c t"
    and run: "register_attempt (worker_link l) cfg i t = (r, t')"
  shows "home_ok c t'"
    and "r = Some (nodeID, interval) \<Longrightarrow> interval = 5 \<and> map nr_id (nodes_named c (wc_hostname cfg) t') = [nodeID]"
proof -
  let ?t0 = "lk_others l i t" and ?h = "wc_hostname cfg" and ?cl = "wc_cluster cfg"
  have cl: "?cl \<noteq> []" and uu: "pg_uuid (lk_pg l i) ?cl = Some c" "pg_uuid (lk_list_pg l i) ?cl = Some c"
    and new: "pg_new_id (lk_pg l i) \<noteq> []" and t0: "home_ok c ?t0"
    and perm: "\<And>rows. mset (lk_order l i rows) = mset rows"
    using assms(1,2) by (auto simp: link_ok_def)
  obtain q t1 where reg: "mc_register (worker_link l) i ?cl ?h t = (q, t1)" by (metis surj_pair)
  obtain q0 t10 where rn: "RegisterNode (lk_pg l i) ?cl ?h ?t0 = (q0, t10)" by (metis surj_pair)
  note home = RegisterNode_home [OF t0 uu(1) new rn]
  have q: "home_ok c t1 \<and> (\<forall>res. q = Inr res \<longrightarrow> rs_interval res = 5 \<and> map nr_id (nodes_named c ?h t1) = [rs_node res])"
    using reg t0 home by (auto simp: worker_link_def deliver_def rn split: delivery.splits)
  show "home_ok c t'"
    and "r = Some (nodeID, interval) \<Longrightarrow> interval = 5 \<and> map nr_id (nodes_named c ?h t') = [nodeID]"
  proof -
    have "home_ok c t' \<and> (r = Some (nodeID, interval) \<longrightarrow> interval = 5 \<and> map nr_id (nodes_named c ?h t') = [nodeID])"
    proof (cases q)
      case (Inr res)
      with run reg q show ?thesis by (auto simp: register_attempt_def)
    next
      case (Inl err)
      obtain q2 t2 where list: "mc_nodes (worker_link l) i ?cl t1 = (q2, t2)" by (metis surj_pair)
      have t2: "t2 = t1" using list by (auto simp: worker_link_def deliver_def split: delivery.splits)
      have get: "GetNodes (lk_order l i) (lk_list_pg l i) ?cl t1 = Inr nodes" if "q2 = Inr nodes" for nodes
        using list that by (auto simp: worker_link_def deliver_def split: delivery.splits)
      have ok: "registry_ok t1" using q by (simp add: home_ok_def)
      show ?thesis
      proof (cases "code_of err = AlreadyExists \<and> (\<exists>nodes. q2 = Inr nodes \<and> reattach ?h nodes \<noteq> [])")
        case True
        then obtain nodes where n: "q2 = Inr nodes" "reattach ?h nodes \<noteq> []" by blast
        have "map nr_id (nodes_named c ?h t1) = [reattach ?h nodes]"
          by (rule reattach_found [OF get [OF n(1)] uu(2) cl ok perm n(2)])
        with run reg Inl True list n t2 q show ?thesis by (auto simp: register_attempt_def Let_def)
      next
        case False
        with run reg Inl list t2 have "r = None \<and> t' = t1"
          by (auto simp: register_attempt_def Let_def split: if_splits sum.splits)
        with q show ?thesis by simp
      qed
    qed
    then show "home_ok c t'"
      and "r = Some (nodeID, interval) \<Longrightarrow> interval = 5 \<and> map nr_id (nodes_named c ?h t') = [nodeID]" by blast+
  qed
qed

text \<open>An iteration in which nothing fails succeeds.\<close>

lemma attempt_succeeds:
  assumes "link_ok l (wc_cluster cfg) c" and "home_ok c t" and "wc_hostname cfg \<noteq> []"
    and up: "lk_reg l i = Delivered" "lk_list l i = Delivered" "env_fine (lk_pg l i)" "env_fine (lk_list_pg l i)"
    and fresh: "pg_new_id (lk_pg l i) \<notin> nr_id ` set (tb_nodes (lk_others l i t))"
  shows "fst (register_attempt (worker_link l) cfg i t) \<noteq> None"
proof -
  let ?t0 = "lk_others l i t" and ?h = "wc_hostname cfg" and ?cl = "wc_cluster cfg"
  have cl: "?cl \<noteq> []" and uu: "pg_uuid (lk_pg l i) ?cl = Some c" "pg_uuid (lk_list_pg l i) ?cl = Some c"
    and t0: "home_ok c ?t0" and perm: "mset (lk_order l i rows) = mset rows" for rows
    using assms(1,2) by (auto simp: link_ok_def)
  show ?thesis
  proof (cases "nodes_named c ?h ?t0")
    case Nil
    then have "\<not> (\<exists>n \<in> set (tb_nodes ?t0). nr_id n = pg_new_id (lk_pg l i) \<or> nr_cluster n = c \<and> nr_hostname n = ?h)"
      using fresh unfolding nodes_named_def filter_empty_conv by (metis imageI)
    moreover have "\<exists>k \<in> set (tb_clusters ?t0). ct_id k = c" using t0 by (auto simp: home_ok_def)
    ultimately show ?thesis
      using assms(3) cl uu(1) up(1,3)
      by (auto simp: register_attempt_def worker_link_def deliver_def RegisterNode_def round_trip_def env_fine_def
          insert_node_def as_uuid_def)
  next
    case (Cons n ns)
    then have n: "n \<in> set (tb_nodes ?t0)" "nr_cluster n = c" "nr_hostname n = ?h"
      using list.set_intros(1) [of n ns] unfolding Cons [symmetric] nodes_named_def by simp_all
    then have reg: "RegisterNode (lk_pg l i) ?cl ?h ?t0 = (Inl (Status AlreadyExists (''node with hostname '' @ quoted ?h @
        '' already exists in cluster '' @ quoted ?cl)), ?t0)"
      using assms(3) cl uu(1) up(3)
      by (auto simp: RegisterNode_def round_trip_def env_fine_def insert_node_def as_uuid_def)
    let ?nodes = "map (node_message ?t0) (lk_order l i (filter (\<lambda>n. nr_cluster n = c) (tb_nodes ?t0)))"
    have get: "GetNodes (lk_order l i) (lk_list_pg l i) ?cl ?t0 = Inr ?nodes"
      using cl uu(2) up(4) by (simp add: GetNodes_def round_trip_def env_fine_def as_uuid_def delivered_def)
    have "find (\<lambda>n. nr_hostname n = ?h) (lk_order l i (filter (\<lambda>n. nr_cluster n = c) (tb_nodes ?t0))) \<noteq> None"
      using n mset_eq_setD [OF perm] by (auto simp: find_None_iff)
    then obtain m where m: "find (\<lambda>n. nr_hostname n = ?h) (lk_order l i (filter (\<lambda>n. nr_cluster n = c) (tb_nodes ?t0))) = Some m"
      by blast
    then have "m \<in> set (tb_nodes ?t0)" using mset_eq_setD [OF perm] by (auto simp: find_Some_iff dest!: nth_mem)
    then have "nr_id m \<noteq> []" using t0 unfolding home_ok_def by (metis imageI)
    then have "reattach ?h ?nodes \<noteq> []" using m by (simp add: reattach_map)
    then show ?thesis using up(1,2) reg get by (simp add: register_attempt_def worker_link_def deliver_def Let_def)
  qed
qed

text \<open>An iteration in which neither the network nor the database fails and a fresh identifier is drawn.\<close>

definition link_up :: "link \<Rightarrow> nat \<Rightarrow> tables \<Rightarrow> bool" where
  "link_up l i t \<longleftrightarrow> lk_reg l i = Delivered \<and> lk_list l i = Delivered \<and> env_fine (lk_pg l i) \<and> env_fine (lk_list_pg l i) \<and>
     pg_new_id (lk_pg l i) \<notin> nr_id ` set (tb_nodes (lk_others l i t))"

interpretation registry: registry_service "worker_link l" cfg
    "\<lambda>t. link_ok l (wc_cluster cfg) c \<and> wc_hostname cfg \<noteq> [] \<and> home_ok c t"
    "\<lambda>nodeID t. map nr_id (nodes_named c (wc_hostname cfg) t) = [nodeID]" "link_up l" for l cfg c
proof unfold_locales
  fix s i r s'
  assume inv: "link_ok l (wc_cluster cfg) c \<and> wc_hostname cfg \<noteq> [] \<and> home_ok c s"
  show "link_ok l (wc_cluster cfg) c \<and> wc_hostname cfg \<noteq> [] \<and> home_ok c s'"
    if "register_attempt (worker_link l) cfg i s = (r, s')" using inv attempt_home(1) [OF _ _ that] by blast
  show "interval = 5 \<and> map nr_id (nodes_named c (wc_hostname cfg) s') = [nodeID]"
    if "register_attempt (worker_link l) cfg i s = (Some (nodeID, interval), s')" for nodeID interval
    using inv attempt_home(2) [OF _ _ that refl] by blast
  show "fst (register_attempt (worker_link l) cfg i s) \<noteq> None" if "link_up l i s"
    using inv that attempt_succeeds [of l cfg c s i] unfolding link_up_def by blast
qed

text \<open>
  C8. The registration loop ends: once one iteration meets no failure, at the latest it is left
  there, whatever was lost before. It is left with the identifier under which the registry
  holds the host, exactly once, even when an earlier request was served and only its answer
  lost; the interval is that of the service. It is left without one only when told to stop.
\<close>

theorem registration_terminates:
  assumes "link_ok l (wc_cluster cfg) c" and "home_ok c t" and "wc_hostname cfg \<noteq> []"
    and "link_up l k (attempts (worker_link l) cfg 0 k t)"
  shows "\<exists>m \<le> k. \<exists>r t'. register_loop (worker_link l) cfg stop 0 t = Some (r, t') \<and> registry_ok t' \<and>
    (case r of
       Registered nodeID interval \<Rightarrow> interval = 5 \<and> map nr_id (nodes_named c (wc_hostname cfg) t') = [nodeID]
     | Aborted \<Rightarrow> stop m)"
  using registry.loop_returns [of l cfg c t k stop] assms unfolding home_ok_def by blast

text \<open>
  A worker whose cluster the registry does not hold never gets beyond the loop, although each
  refusal says that the cluster does not exist: the loop retries every error alike.
\<close>

theorem registration_retries_for_ever:
  assumes "\<And>i. pg_uuid (lk_pg l i) (wc_cluster cfg) = Some c \<and> pg_uuid (lk_list_pg l i) (wc_cluster cfg) = Some c"
    and "wc_cluster cfg \<noteq> []" and "\<And>i rows. mset (lk_order l i rows) = mset rows"
    and "\<And>i t. registry_ok t \<and> c \<notin> ct_id ` set (tb_clusters t) \<Longrightarrow>
      registry_ok (lk_others l i t) \<and> c \<notin> ct_id ` set (tb_clusters (lk_others l i t))"
    and "registry_ok t" and "c \<notin> ct_id ` set (tb_clusters t)" and "\<And>i. \<not> stop i"
  shows "register_loop (worker_link l) cfg stop i t = None"
proof (rule register_loop_diverges [where Q = "\<lambda>t. registry_ok t \<and> c \<notin> ct_id ` set (tb_clusters t)"])
  fix i t assume "registry_ok t \<and> c \<notin> ct_id ` set (tb_clusters t)"
  then have t0: "registry_ok (lk_others l i t)" "c \<notin> ct_id ` set (tb_clusters (lk_others l i t))"
    using assms(4) by blast+
  let ?t0 = "lk_others l i t" and ?cl = "wc_cluster cfg"
  have none: "nodes_named c h ?t0 = []" for h
    using t0 unfolding registry_defs nodes_named_def filter_empty_conv by blast
  obtain e where rn: "RegisterNode (lk_pg l i) ?cl (wc_hostname cfg) ?t0 = (Inl e, ?t0)"
  proof (cases "fst (RegisterNode (lk_pg l i) ?cl (wc_hostname cfg) ?t0)")
    case (Inl e)
    then show ?thesis using that RegisterNode_error by (metis prod.collapse)
  next
    case (Inr res)
    then have "insert_node (lk_pg l i) ?cl (wc_hostname cfg) ?t0 =
        Inr (rs_node res, snd (RegisterNode (lk_pg l i) ?cl (wc_hostname cfg) ?t0))"
      using RegisterNode_success by (metis prod.collapse)
    then have False using t0(2) assms(1) [of i] by (auto simp: insert_node_def as_uuid_def split: if_splits)
    then show ?thesis ..
  qed
  have re: "reattach h nodes = []" if "GetNodes (lk_order l i) (lk_list_pg l i) ?cl ?t0 = Inr nodes" for h nodes
    using reattach_found [OF that _ assms(2) t0(1) assms(3), of c h] assms(1) [of i] none by auto
  obtain e' where reg: "mc_register (worker_link l) i ?cl (wc_hostname cfg) t = (Inl e', ?t0)"
    by (cases "lk_reg l i") (auto simp: worker_link_def deliver_def rn)
  obtain q where list: "mc_nodes (worker_link l) i ?cl ?t0 = (q, ?t0)"
    and q: "q = Inr nodes \<Longrightarrow> reattach h nodes = []" for h nodes
    by (cases "lk_list l i") (auto simp: worker_link_def deliver_def dest: re)
  have "register_attempt (worker_link l) cfg i t = (None, ?t0)"
    using q by (auto simp: register_attempt_def reg list Let_def split: sum.splits)
  then show "fst (register_attempt (worker_link l) cfg i t) = None \<and> registry_ok (snd (register_attempt (worker_link l) cfg i t)) \<and>
      c \<notin> ct_id ` set (tb_clusters (snd (register_attempt (worker_link l) cfg i t)))"
    using t0 by simp
qed (use assms(5-7) in auto)

section \<open>Simulated load\<close>

definition pct_ok :: "go_float \<Rightarrow> bool" where
  "pct_ok v \<longleftrightarrow> fle (Fin 0) v \<and> fle v (Fin 100)"

lemma fround_small_ints:
  assumes "- 1000 \<le> a" and "b \<le> 1000" and "of_int a \<le> x" and "x \<le> of_int b"
  shows "\<exists>y. fround F32 x = Fin y \<and> of_int a \<le> y \<and> y \<le> of_int b"
proof (rule fround_between)
  have "a \<le> b" using assms(3,4) by (metis of_int_le_iff order_trans)
  then have ab: "\<bar>a\<bar> < 2 ^ 24" "\<bar>b\<bar> < 2 ^ 24" using assms(1,2) by simp_all
  show "representable F32 (of_int a)" "representable F32 (of_int b)"
    by (rule representable_int; use ab in \<open>simp add: F32_def\<close>)+
  have "pow2 (emax F32) = 2 ^ 128" by (simp add: F32_def pow2_def)
  moreover have "(1001 :: rat) \<le> 2 ^ 128" by simp
  moreover have "- 1000 \<le> (of_int a :: rat)" "(of_int b :: rat) \<le> 1000" using assms(1,2) by simp_all
  ultimately show "- pow2 (emax F32) < of_int a" "of_int b < pow2 (emax F32)" by linarith+
qed (use assms in \<open>simp_all add: F32_def\<close>)

text \<open>A step of the walk stays within the percentages.\<close>

lemma randomWalk_pct:
  assumes "0 \<le> x" and "x < 1" and "pct_ok val"
  shows "pct_ok (randomWalk (Fin x) val)"
proof -
  obtain v where v: "val = Fin v" "0 \<le> v" "v \<le> 100"
    using assms(3) by (cases val) (auto simp: pct_ok_def fle_def)
  obtain y where y: "fround F32 (x * 4) = Fin y" "0 \<le> y" "y \<le> 4"
    using fround_small_ints [of 0 4 "x * 4"] assms(1,2) by auto
  obtain z where z: "fround F32 (y - 2) = Fin z" "- 2 \<le> z" "z \<le> 2"
    using fround_small_ints [of "- 2" 2 "y - 2"] y(2,3) by auto
  obtain u where u: "fround F32 (v + z) = Fin u"
    using fround_small_ints [of "- 2" 102 "v + z"] z(2,3) v(2,3) by auto
  have "randomWalk (Fin x) val = (let n = (if u < 0 then Fin 0 else Fin u) in if flt (Fin 100) n then Fin 100 else n)"
    by (simp add: randomWalk_def fsub_def v(1) y(1) z(1) u Let_def)
  then show ?thesis by (auto simp: pct_ok_def Let_def)
qed

text \<open>What reaches the worker: ticks of its timer and requests to its debug server.\<close>

datatype worker_event = Tick "go_float \<times> go_float \<times> go_float" | Debug string debug_path

fun worker_step :: "worker_event \<Rightarrow> worker \<Rightarrow> heartbeat list \<times> worker" where
  "worker_step (Tick rnd) w = (case heartbeat_tick rnd w of (None, w') \<Rightarrow> ([], w') | (Some hb, w') \<Rightarrow> ([hb], w'))"
| "worker_step (Debug method p) w = ([], snd (debug_request method p w))"

fun worker_run :: "worker_event list \<Rightarrow> worker \<Rightarrow> heartbeat list \<times> worker" where
  "worker_run [] w = ([], w)"
| "worker_run (e # es) w =
     (let (sent, w1) = worker_step e w; (later, w2) = worker_run es w1 in (sent @ later, w2))"

definition unit_draw :: "go_float \<Rightarrow> bool" where
  "unit_draw r \<longleftrightarrow> fle (Fin 0) r \<and> flt r (Fin 1)"

fun draws_ok :: "worker_event \<Rightarrow> bool" where
  "draws_ok (Tick (r1, r2, r3)) \<longleftrightarrow> unit_draw r1 \<and> unit_draw r2 \<and> unit_draw r3"
| "draws_ok (Debug method p) \<longleftrightarrow> True"

definition worker_ok :: "string \<Rightarrow> worker \<Rightarrow> bool" where
  "worker_ok nodeID w \<longleftrightarrow> wk_node w = nodeID \<and> pct_ok (wk_cpu w) \<and> pct_ok (wk_mem w) \<and> pct_ok (wk_disk w)"

definition heartbeat_ok :: "string \<Rightarrow> heartbeat \<Rightarrow> bool" where
  "heartbeat_ok nodeID hb \<longleftrightarrow>
     hb_node hb = nodeID \<and> hb_healthy hb \<and> pct_ok (hb_cpu hb) \<and> pct_ok (hb_mem hb) \<and> pct_ok (hb_disk hb)"

lemma walk_ok: "unit_draw r \<Longrightarrow> pct_ok v \<Longrightarrow> pct_ok (randomWalk r v)"
  by (cases r) (auto simp: unit_draw_def fle_def intro: randomWalk_pct)

lemma worker_step_ok:
  assumes "worker_ok i w" and "draws_ok e" and "worker_step e w = (sent, w')"
  shows "worker_ok i w' \<and> list_all (heartbeat_ok i) sent"
  using assms
  by (cases e)
    (auto simp: heartbeat_tick_def debug_request_def worker_ok_def heartbeat_ok_def Let_def walk_ok
      split: if_splits debug_path.splits)

text \<open>
  C36. Every heartbeat of a worker, whatever the events and the draws, names its node, claims
  health and reports percentages: the walk neither leaves \<open>[0, 100]\<close> nor produces a NaN.
\<close>

theorem heartbeats_are_percentages:
  assumes "list_all draws_ok es"
  shows "list_all (heartbeat_ok nodeID) (fst (worker_run es (start_worker cfg nodeID)))"
proof -
  have "worker_ok nodeID w \<Longrightarrow> list_all (heartbeat_ok nodeID) (fst (worker_run es w))" for w
    using assms
  proof (induction es arbitrary: w)
    case (Cons e es)
    obtain sent w1 where e: "worker_step e w = (sent, w1)" by (metis surj_pair)
    have "worker_ok nodeID w1 \<and> list_all (heartbeat_ok nodeID) sent"
      by (rule worker_step_ok [OF Cons.prems(1) _ e]) (use Cons.prems(2) in simp)
    with Cons show ?case by (simp add: e split: prod.split) (metis fst_conv)
  qed simp
  then show ?thesis by (simp add: start_worker_def worker_ok_def pct_ok_def)
qed

section \<open>Heartbeats and the health manager\<close>

text \<open>A tick whose heartbeat goes to the metadata service; a failure is only logged.\<close>

definition beat_service :: "delivery \<Rightarrow> pg_env \<Rightarrow> go_float \<times> go_float \<times> go_float \<Rightarrow> worker \<times> tables \<Rightarrow> worker \<times> tables" where
  "beat_service d env rnd st =
     (case st of (w, t) \<Rightarrow>
       (case heartbeat_tick rnd w of
          (None, w') \<Rightarrow> (w', t)
        | (Some hb, w') \<Rightarrow>
            (w', snd (deliver d (SendHeartbeat env (hb_node hb) (hb_cpu hb) (hb_mem hb) (hb_disk hb) (hb_healthy hb)) t))))"

lemma paused_beat: "wk_paused w \<Longrightarrow> beat_service d env rnd (w, t) = (w, t)"
  by (simp add: beat_service_def heartbeat_tick_def)

text \<open>The rows after a heartbeat that reached the service.\<close>

lemma beat_service_nodes:
  assumes "\<not> wk_paused w" and "wk_node w = i" and "i \<noteq> []" and "d \<noteq> Not_Delivered" and "env_fine env"
    and "pg_uuid env i = Some i" and "find_row nr_id i (tb_nodes t) \<noteq> None"
  shows "\<exists>c m k. tb_nodes (snd (beat_service d env rnd (w, t))) =
    update_rows nr_id i (beat_row env c m k True) (tb_nodes t)"
proof -
  obtain hb w' where hb: "heartbeat_tick rnd w = (Some hb, w')" "hb_node hb = i" "hb_healthy hb"
    using assms(1,2) by (cases rnd) (simp add: heartbeat_tick_def Let_def)
  have "\<not> rows_affected nr_id i (tb_nodes t) = 0" using assms(7) unfolding rows_affected_pos [symmetric] by simp
  then have "tb_nodes (snd (SendHeartbeat env i (hb_cpu hb) (hb_mem hb) (hb_disk hb) True t)) =
      update_rows nr_id i (beat_row env (hb_cpu hb) (hb_mem hb) (hb_disk hb) True) (tb_nodes t)"
    using assms(3,5-7) by (auto simp: SendHeartbeat_def round_trip_def env_fine_def insert_heartbeat_def update_node_def as_uuid_def)
  moreover have "snd (beat_service d env rnd (w, t)) = snd (SendHeartbeat env i (hb_cpu hb) (hb_mem hb) (hb_disk hb) True t)"
    using hb assms(4) by (auto simp: beat_service_def deliver_def split: delivery.splits)
  ultimately show ?thesis by auto
qed

lemma beat_service_ok: "registry_ok t \<Longrightarrow> registry_ok (snd (beat_service d env rnd (w, t)))"
  by (auto simp: beat_service_def deliver_def split: prod.split option.split delivery.split)
    (metis SendHeartbeat_ok prod.collapse)+

lemma same_uuids:
  assumes "tb_nodes t' = update_rows nr_id i f (tb_nodes t)" and "\<And>r. nr_id (f r) = nr_id r"
    and "\<And>n. n \<in> set (tb_nodes t) \<Longrightarrow> P (nr_id n)" and "n \<in> set (tb_nodes t')"
  shows "P (nr_id n)"
  using assms by (auto simp: update_rows_def)

text \<open>
  C12. What the next check makes of a worker depends only on the age of its last heartbeat that
  reached the service (its answer may be lost): dead from 60 seconds, unhealthy from 15, below
  that healthy or overloaded. A worker that beats every five seconds thus survives the loss of
  single heartbeats; a node that was dead is back with the next one, a draining one drains on.
\<close>

theorem heartbeat_decides_status:
  assumes "registry_ok t" and "n \<in> set (tb_nodes t)" and "wk_node w = nr_id n" and "nr_id n \<noteq> []" and "\<not> wk_paused w"
    and "d \<noteq> Not_Delivered" and "env_fine env" and "pg_uuid env (nr_id n) = Some (nr_id n)"
    and "env_fine env'" and "\<And>n. n \<in> set (tb_nodes t) \<Longrightarrow> pg_uuid env' (nr_id n) = Some (nr_id n)"
    and "\<And>rows. mset (rng rows) = mset rows"
  shows "\<exists>n' \<in> set (tb_nodes (snd (CheckHealth srt rng env' clock (snd (beat_service d env rnd (w, t)))))).
    nr_id n' = nr_id n \<and> nr_last n' = Some (pg_now env) \<and>
    (let age = clock (nr_id n) - pg_now env
     in if nr_status n = ''draining'' then nr_status n' = ''draining''
        else if 60 * second \<le> age then nr_status n' = ''dead''
        else if 15 * second \<le> age then nr_status n' = ''unhealthy''
        else nr_status n' = ''healthy'' \<or> nr_status n' = ''overloaded'')"
proof -
  let ?t = "snd (beat_service d env rnd (w, t))"
  have found: "find_row nr_id (nr_id n) (tb_nodes t) \<noteq> None" using assms(2) by (auto simp: find_row_None)
  obtain c m k where rows: "tb_nodes ?t = update_rows nr_id (nr_id n) (beat_row env c m k True) (tb_nodes t)"
    using beat_service_nodes [OF assms(5,3,4,6-8) found] by blast
  let ?n = "beat_row env c m k True n"
  have inn: "?n \<in> set (tb_nodes ?t)" unfolding rows update_rows_def using assms(2) by force
  have check: "CheckHealth srt rng env' clock ?t =
      (None, ?t\<lparr>tb_nodes := map (\<lambda>n. n\<lparr>nr_status := classify srt (clock (nr_id n)) ?t n\<rparr>) (tb_nodes ?t)\<rparr>)"
  proof (rule CheckHealth_eq)
    show "registry_ok ?t" by (rule beat_service_ok [OF assms(1)])
    show "pg_uuid env' (nr_id x) = Some (nr_id x)" if "x \<in> set (tb_nodes ?t)" for x
      using same_uuids [where P = "\<lambda>i. pg_uuid env' i = Some i", OF rows _ assms(10) that] by (simp add: beat_row_def)
  qed (rule assms)+
  have keys: "nr_id ?n = nr_id n" "nr_last ?n = Some (pg_now env)"
    "nr_status ?n = ''draining'' \<longleftrightarrow> nr_status n = ''draining''"
    by (simp_all add: beat_row_def beat_status_def)
  define n' where "n' = ?n\<lparr>nr_status := classify srt (clock (nr_id ?n)) ?t ?n\<rparr>"
  have "n' \<in> set (tb_nodes (snd (CheckHealth srt rng env' clock ?t)))" using inn by (simp add: check n'_def)
  moreover have "nr_id n' = nr_id n" "nr_last n' = Some (pg_now env)" by (simp_all add: n'_def keys)
  moreover have "nr_status n' = classify srt (clock (nr_id n)) ?t ?n" by (simp add: n'_def keys)
  then have "let age = clock (nr_id n) - pg_now env
     in if nr_status n = ''draining'' then nr_status n' = ''draining''
        else if 60 * second \<le> age then nr_status n' = ''dead''
        else if 15 * second \<le> age then nr_status n' = ''unhealthy''
        else nr_status n' = ''healthy'' \<or> nr_status n' = ''overloaded''"
    unfolding Let_def classify_def keys option.case by simp
  ultimately show ?thesis by blast
qed

text \<open>A run of the worker against the service: each event with the fate of its heartbeat.\<close>

fun service_run :: "(delivery \<times> pg_env \<times> worker_event) list \<Rightarrow> worker \<times> tables \<Rightarrow> worker \<times> tables" where
  "service_run [] st = st"
| "service_run ((d, env, Tick rnd) # es) st = service_run es (beat_service d env rnd st)"
| "service_run ((d, env, Debug method p) # es) (w, t) = service_run es (snd (debug_request method p w), t)"

definition resumes :: "worker_event \<Rightarrow> bool" where
  "resumes e \<longleftrightarrow> e = Debug ''POST'' Resume"

lemma debug_paused: "wk_paused w \<Longrightarrow> \<not> resumes (Debug method p) \<Longrightarrow> wk_paused (snd (debug_request method p w))"
  by (auto simp: debug_request_def resumes_def split: debug_path.splits)

lemma paused_run:
  assumes "wk_paused w" and "list_all (\<lambda>(d, env, e). \<not> resumes e) es"
  shows "wk_paused (fst (service_run es (w, t))) \<and> snd (service_run es (w, t)) = t"
  using assms
proof (induction es arbitrary: w)
  case (Cons e es)
  obtain d env ev where e: "e = (d, env, ev)" by (metis surj_pair)
  show ?case using Cons e by (cases ev) (auto simp: paused_beat debug_paused)
qed simp

text \<open>
  C13. A worker paused by its debug endpoint, and not resumed, sends nothing whatever else
  happens to it: the registry stays as it was, and the first check 60 seconds after its last
  heartbeat marks its node dead, unless it is draining.
\<close>

theorem paused_worker_dies:
  assumes "list_all (\<lambda>(d, env, e). \<not> resumes e) es"
    and "registry_ok t" and "n \<in> set (tb_nodes t)" and "nr_last n = Some h" and "nr_status n \<noteq> ''draining''"
    and "env_fine env" and "\<And>n. n \<in> set (tb_nodes t) \<Longrightarrow> pg_uuid env (nr_id n) = Some (nr_id n)"
    and "\<And>rows. mset (rng rows) = mset rows" and "60 * second \<le> clock (nr_id n) - h"
  shows "snd (service_run es (snd (debug_request ''POST'' Pause w), t)) = t \<and>
    n\<lparr>nr_status := ''dead''\<rparr> \<in> set (tb_nodes (snd (CheckHealth srt rng env clock
      (snd (service_run es (snd (debug_request ''POST'' Pause w), t))))))"
proof -
  have "wk_paused (snd (debug_request ''POST'' Pause w))" by (simp add: debug_request_def)
  then have same: "snd (service_run es (snd (debug_request ''POST'' Pause w), t)) = t"
    using paused_run [OF _ assms(1)] by blast
  have "CheckHealth srt rng env clock t =
      (None, t\<lparr>tb_nodes := map (\<lambda>n. n\<lparr>nr_status := classify srt (clock (nr_id n)) t n\<rparr>) (tb_nodes t)\<rparr>)"
    by (rule CheckHealth_eq; fact assms)
  moreover have "classify srt (clock (nr_id n)) t n = ''dead''"
    using assms(4,5,9) by (simp add: classify_def)
  ultimately have "n\<lparr>nr_status := ''dead''\<rparr> \<in> set (tb_nodes (snd (CheckHealth srt rng env clock t)))"
    using assms(3) by (auto intro: rev_image_eqI)
  then show ?thesis unfolding same by simp
qed

section \<open>Concrete workers\<close>

definition demo_cfg :: worker_config where
  "demo_cfg = \<lparr>wc_metadata = ''meta:50051'', wc_cluster = ''C1'', wc_hostname = ''worker-7'', wc_debug = ''8081'', wc_agent = ''50053''\<rparr>"

text \<open>The first request is served but its answer lost; the second finds the node registered.\<close>

definition demo_link :: link where
  "demo_link = \<lparr>lk_pg = (\<lambda>i. demo_pg (''n-'' @ itoa (int i)) 5), lk_list_pg = (\<lambda>i. demo_pg ''x'' 5),
     lk_reg = (\<lambda>i. if i = 0 then Response_Lost else Delivered), lk_list = (\<lambda>i. Delivered),
     lk_others = (\<lambda>i t. t), lk_order = (\<lambda>i. go_range i)\<rparr>"

lemma demo_link_ok: "link_ok demo_link (wc_cluster demo_cfg) ''c1''"
proof -
  have "pg_uuid (demo_pg new now) ''C1'' = Some ''c1''" for new now
    by (simp add: demo_pg_def) code_simp
  moreover have "mset (go_range i rows) = mset rows" for i and rows :: "node_row list" by (rule ranged.rng_mset)
  ultimately show ?thesis by (simp add: link_ok_def demo_link_def demo_cfg_def demo_pg_def)
qed

lemma demo_home_ok: "home_ok ''c1'' demo_tables"
proof -
  have "''c1'' \<in> ct_id ` set (tb_clusters demo_tables) \<and> [] \<notin> nr_id ` set (tb_nodes demo_tables)" by code_simp
  then show ?thesis by (simp add: home_ok_def demo_tables_ok)
qed

theorem registration_terminates_witness:
  "\<exists>m \<le> (1 :: nat). \<exists>r t'. register_loop (worker_link demo_link) demo_cfg (\<lambda>_. False) 0 demo_tables = Some (r, t') \<and> registry_ok t' \<and>
    (case r of
       Registered nodeID interval \<Rightarrow> interval = 5 \<and> map nr_id (nodes_named ''c1'' (wc_hostname demo_cfg) t') = [nodeID]
     | Aborted \<Rightarrow> False)"
proof (rule registration_terminates [where stop = "\<lambda>_. False", OF demo_link_ok demo_home_ok])
  have "pg_new_id (lk_pg demo_link 1) \<notin> nr_id ` set (tb_nodes (lk_others demo_link 1 (attempts (worker_link demo_link) demo_cfg 0 1 demo_tables)))"
    by code_simp
  then show "link_up demo_link 1 (attempts (worker_link demo_link) demo_cfg 0 1 demo_tables)"
    by (simp add: link_up_def demo_link_def demo_pg_def env_fine_def)
qed (simp_all add: demo_cfg_def)

text \<open>It is the second iteration that ends the loop, with the node of the first.\<close>

lemma demo_registration:
  "map_option fst (register_loop (worker_link demo_link) demo_cfg (\<lambda>_. False) 0 demo_tables) = Some (Registered ''n-0'' 5)"
proof -
  let ?at = "register_attempt (worker_link demo_link) demo_cfg"
  have "fst (?at 0 demo_tables) = None" "fst (?at 1 (snd (?at 0 demo_tables))) = Some (''n-0'', 5)"
    by code_simp+
  then show ?thesis
    by (simp add: register_loop.simps [of _ _ _ 0] register_loop.simps [of _ _ _ "Suc 0"] case_prod_unfold)
qed

definition demo_strayed :: worker_config where
  "demo_strayed = demo_cfg\<lparr>wc_cluster := ''C9''\<rparr>"

theorem registration_retries_for_ever_witness:
  "register_loop (worker_link demo_link) demo_strayed (\<lambda>_. False) 0 demo_tables = None"
proof (rule registration_retries_for_ever [where c = "''c9''", OF _ _ _ _ demo_tables_ok])
  have "pg_uuid (demo_pg new now) ''C9'' = Some ''c9''" for new now by (simp add: demo_pg_def) code_simp
  then show "pg_uuid (lk_pg demo_link i) (wc_cluster demo_strayed) = Some ''c9'' \<and>
    pg_uuid (lk_list_pg demo_link i) (wc_cluster demo_strayed) = Some ''c9''" for i
    by (simp add: demo_link_def demo_strayed_def demo_cfg_def)
  show "mset (lk_order demo_link i rows) = mset rows" for i rows by (simp add: demo_link_def ranged.rng_mset)
  show "''c9'' \<notin> ct_id ` set (tb_clusters demo_tables)" by code_simp
qed (simp_all add: demo_strayed_def demo_link_def)

definition demo_draw :: "go_float \<times> go_float \<times> go_float" where
  "demo_draw = (Fin (1 / 2), Fin (1 / 4), Fin (3 / 4))"

definition demo_worker :: worker where
  "demo_worker = start_worker demo_cfg ''n1''"

theorem heartbeats_are_percentages_witness:
  "list_all (heartbeat_ok ''n1'') (fst (worker_run [Tick demo_draw, Debug ''POST'' Pause, Tick demo_draw, Debug ''POST'' Resume, Tick demo_draw]
     (start_worker demo_cfg ''n1'')))"
  by (rule heartbeats_are_percentages) code_simp

lemma demo_uuids: "n \<in> set (tb_nodes demo_tables) \<Longrightarrow> pg_uuid (demo_pg new now) (nr_id n) = Some (nr_id n)"
proof -
  have "list_all (\<lambda>n. nr_id n \<noteq> [] \<and> to_lower (nr_id n) = nr_id n) (tb_nodes demo_tables)" by code_simp
  then show "n \<in> set (tb_nodes demo_tables) \<Longrightarrow> pg_uuid (demo_pg new now) (nr_id n) = Some (nr_id n)"
    by (simp add: list_all_iff demo_pg_def)
qed

lemma demo_env_fine: "env_fine (demo_pg new now)"
  by (simp add: env_fine_def demo_pg_def)

theorem heartbeat_decides_status_witness:
  "\<exists>n' \<in> set (tb_nodes (snd (CheckHealth go_isort (go_range 1) (demo_pg ''x'' 0) (\<lambda>_. 80 * second)
      (snd (beat_service Response_Lost (demo_pg ''x'' (20 * second)) demo_draw (demo_worker, demo_tables)))))).
    nr_id n' = ''n1'' \<and> nr_last n' = Some (20 * second) \<and> nr_status n' = ''dead''"
proof -
  define n where "n = demo_row ''n1'' ''healthy''"
  have n: "n \<in> set (tb_nodes demo_tables)" "nr_id n = ''n1''" "nr_status n = ''healthy''"
    by (simp_all add: n_def demo_tables_def demo_row_def)
  have "wk_node demo_worker = nr_id n" "nr_id n \<noteq> []" "\<not> wk_paused demo_worker"
    by (simp_all add: n(2) demo_worker_def start_worker_def)
  from heartbeat_decides_status [where srt = go_isort and rng = "go_range 1" and d = Response_Lost and rnd = demo_draw
      and clock = "\<lambda>_. 80 * second" and env = "demo_pg ''x'' (20 * second)" and env' = "demo_pg ''x'' 0",
      OF demo_tables_ok n(1) this _ demo_env_fine demo_uuids [OF n(1)] demo_env_fine demo_uuids ranged.rng_mset]
  have "\<exists>n' \<in> set (tb_nodes (snd (CheckHealth go_isort (go_range 1) (demo_pg ''x'' 0) (\<lambda>_. 80 * second)
      (snd (beat_service Response_Lost (demo_pg ''x'' (20 * second)) demo_draw (demo_worker, demo_tables)))))).
    nr_id n' = nr_id n \<and> nr_last n' = Some (pg_now (demo_pg ''x'' (20 * second))) \<and>
    (let age = 80 * second - pg_now (demo_pg ''x'' (20 * second))
     in if nr_status n = ''draining'' then nr_status n' = ''draining''
        else if 60 * second \<le> age then nr_status n' = ''dead''
        else if 15 * second \<le> age then nr_status n' = ''unhealthy''
        else nr_status n' = ''healthy'' \<or> nr_status n' = ''overloaded'')" by blast
  moreover have "pg_now (demo_pg ''x'' (20 * second)) = 20 * second" by (simp add: demo_pg_def)
  ultimately show ?thesis by (simp add: n(2,3) Let_def)
qed

theorem paused_worker_dies_witness:
  "snd (service_run [(Delivered, demo_pg ''x'' 9, Tick demo_draw)] (snd (debug_request ''POST'' Pause demo_worker), demo_tables)) = demo_tables \<and>
   (demo_row ''n1'' ''healthy'')\<lparr>nr_status := ''dead''\<rparr> \<in> set (tb_nodes (snd (CheckHealth go_isort (go_range 1) (demo_pg ''x'' 0) (\<lambda>_. 60 * second)
      (snd (service_run [(Delivered, demo_pg ''x'' 9, Tick demo_draw)] (snd (debug_request ''POST'' Pause demo_worker), demo_tables))))))"
proof (rule paused_worker_dies [OF _ demo_tables_ok _ _ _ demo_env_fine demo_uuids ranged.rng_mset])
  show "demo_row ''n1'' ''healthy'' \<in> set (tb_nodes demo_tables)" "nr_last (demo_row ''n1'' ''healthy'') = Some 0"
    "nr_status (demo_row ''n1'' ''healthy'') \<noteq> ''draining''"
    by (simp_all add: demo_tables_def demo_row_def)
qed (simp_all add: resumes_def)

end
