(* ===== verification/Webhook.thy ===== *)
theory Webhook
  imports Simulation
begin

text \<open>
  \<^verbatim>\<open>services/observability/webhook/webhook_receiver.go\<close>: the receiver of alerts and
  its in-memory log. The JSON decoder is an argument; a handler runs under the receiver's
  mutex where it touches the log, so a request is one step.
\<close>

section \<open>Messages\<close>

record alert_message =
  al_status :: string
  al_labels :: "string \<Rightarrow> string option"
  al_annotations :: "string \<Rightarrow> string option"
  al_starts :: string

record alert_payload =
  ap_receiver :: string
  ap_status :: string
  ap_alerts :: "alert_message list"

type_synonym decoder = "string \<Rightarrow> alert_payload option"

text \<open>The line logged for an alert: status, name, severity, summary; an absent key reads as empty.\<close>

definition entry :: "(string \<Rightarrow> string option) \<Rightarrow> string \<Rightarrow> string" where
  "entry m k = (case m k of Some v \<Rightarrow> v | None \<Rightarrow> [])"

definition alert_line :: "alert_message \<Rightarrow> string \<times> string \<times> string \<times> string" where
  "alert_line a =
     (al_status a, entry (al_labels a) ''alertname'', entry (al_labels a) ''severity'',
      entry (al_annotations a) ''summary'')"

section \<open>Handlers\<close>

record webhook_receiver =
  wr_alerts :: "alert_message list"
  wr_log :: "(string \<times> string \<times> string \<times> string) list"

definition NewWebhookReceiver :: webhook_receiver where
  "NewWebhookReceiver = \<lparr>wr_alerts = [], wr_log = []\<rparr>"

datatype webhook_answer = Text nat string | Alerts nat "alert_message list"

fun receive_loop :: "alert_message list \<Rightarrow> webhook_receiver \<Rightarrow> webhook_receiver" where
  "receive_loop [] s = s"
| "receive_loop (a # as) s =
     receive_loop as (s\<lparr>wr_log := wr_log s @ [alert_line a], wr_alerts := wr_alerts s @ [a]\<rparr>)"

text \<open>The body is what \<^verbatim>\<open>io.ReadAll\<close> read, or nothing when it failed.\<close>

definition handleWebhook ::
  "decoder \<Rightarrow> string \<Rightarrow> string option \<Rightarrow> webhook_receiver \<Rightarrow> webhook_answer \<times> webhook_receiver" where
  "handleWebhook dec method body s =
     (if method \<noteq> ''POST'' then (Text 405 ''method not allowed'', s)
      else case body of
        None \<Rightarrow> (Text 400 ''failed to read body'', s)
      | Some b \<Rightarrow>
          (case dec b of
             None \<Rightarrow> (Text 400 ''invalid json payload'', s)
           | Some payload \<Rightarrow> (Text 200 ''{\"status\":\"success\"}'', receive_loop (ap_alerts payload) s)))"

definition handleGetAlerts :: "webhook_receiver \<Rightarrow> webhook_answer \<times> webhook_receiver" where
  "handleGetAlerts s = (Alerts 200 (wr_alerts s), s)"

definition webhook_health :: "webhook_receiver \<Rightarrow> webhook_answer \<times> webhook_receiver" where
  "webhook_health s = (Text 200 ''{\"service\":\"webhook-receiver\",\"status\":\"UP\"}'', s)"

text \<open>The mux: three paths, whatever the method; anything else is not found.\<close>

record webhook_request =
  wq_path :: string
  wq_method :: string
  wq_body :: "string option"

definition webhook_serve :: "decoder \<Rightarrow> webhook_request \<Rightarrow> webhook_receiver \<Rightarrow> webhook_answer \<times> webhook_receiver" where
  "webhook_serve dec r s =
     (if wq_path r = ''/webhook'' then handleWebhook dec (wq_method r) (wq_body r) s
      else if wq_path r = ''/alerts'' then handleGetAlerts s
      else if wq_path r = ''/health'' then webhook_health s
      else (Text 404 ''404 page not found'', s))"

section \<open>The receiver as an append-only log\<close>

text \<open>The abstract receiver: the alerts a request delivers, and the answer from those delivered before.\<close>

definition delivers :: "decoder \<Rightarrow> webhook_request \<Rightarrow> alert_message list" where
  "delivers dec r =
     (if wq_path r = ''/webhook'' \<and> wq_method r = ''POST''
      then case Option.bind (wq_body r) dec of Some payload \<Rightarrow> ap_alerts payload | None \<Rightarrow> []
      else [])"

definition delivered_by :: "decoder \<Rightarrow> webhook_request list \<Rightarrow> alert_message list" where
  "delivered_by dec rs = concat (map (delivers dec) rs)"

definition log_append ::
  "decoder \<Rightarrow> webhook_request \<Rightarrow> webhook_answer \<Rightarrow> alert_message list \<Rightarrow> alert_message list" where
  "log_append dec r v as = as @ delivers dec r"

lemma receive_loop_eq:
  "receive_loop as s = s\<lparr>wr_alerts := wr_alerts s @ as, wr_log := wr_log s @ map alert_line as\<rparr>"
  by (induction as arbitrary: s) simp_all

lemma webhook_serve_state:
  "snd (webhook_serve dec r s) =
     s\<lparr>wr_alerts := wr_alerts s @ delivers dec r, wr_log := wr_log s @ map alert_line (delivers dec r)\<rparr>"
  by (simp add: webhook_serve_def handleWebhook_def handleGetAlerts_def webhook_health_def delivers_def
      receive_loop_eq split: option.split)

text \<open>The log lines are in step with the alerts, which is the invariant of the refinement.\<close>

interpretation alert_log: data_refinement "webhook_serve dec" "log_append dec" wr_alerts
    "\<lambda>s. wr_log s = map alert_line (wr_alerts s)" "\<lambda>_. True" for dec
  by unfold_locales (simp_all add: webhook_serve_state log_append_def)

lemma log_append_runs:
  "length vs = length rs \<Longrightarrow> spec_runs (log_append dec) rs vs as = as @ delivered_by dec rs"
  by (induction rs vs arbitrary: as rule: list_induct2') (simp_all add: log_append_def delivered_by_def)

lemma webhook_after:
  "wr_alerts (snd (runs (webhook_serve dec) rs NewWebhookReceiver)) = delivered_by dec rs \<and>
   wr_log (snd (runs (webhook_serve dec) rs NewWebhookReceiver)) = map alert_line (delivered_by dec rs)"
  using alert_log.runs_simulate [of NewWebhookReceiver rs dec] alert_log.runs_keep [of NewWebhookReceiver rs dec]
  by (simp add: NewWebhookReceiver_def log_append_runs list_all_iff)

text \<open>
  The receiver refines an append-only log: after any requests it holds, in order, exactly
  the alerts of the well-formed posts among them and has logged a line for each; every request
  is answered, and each read of the alerts shows precisely those delivered before it. Other
  methods, unreadable bodies and malformed JSON deliver nothing.
\<close>

theorem webhook_is_a_log:
  "length (fst (runs (webhook_serve dec) rs NewWebhookReceiver)) = length rs \<and>
   wr_alerts (snd (runs (webhook_serve dec) rs NewWebhookReceiver)) = delivered_by dec rs \<and>
   wr_log (snd (runs (webhook_serve dec) rs NewWebhookReceiver)) = map alert_line (delivered_by dec rs) \<and>
   (\<forall>i < length rs. wq_path (rs ! i) = ''/alerts'' \<longrightarrow>
      fst (runs (webhook_serve dec) rs NewWebhookReceiver) ! i = Alerts 200 (delivered_by dec (take i rs)))"
proof (intro conjI allI impI)
  fix i assume "i < length rs" and "wq_path (rs ! i) = ''/alerts''"
  then show "fst (runs (webhook_serve dec) rs NewWebhookReceiver) ! i = Alerts 200 (delivered_by dec (take i rs))"
    using webhook_after [of dec "take i rs"] by (simp add: nth_runs webhook_serve_def handleGetAlerts_def)
qed (simp_all add: webhook_after)

section \<open>A concrete receiver\<close>

definition demo_alert :: alert_message where
  "demo_alert = \<lparr>al_status = ''firing'', al_labels = [''alertname'' \<mapsto> ''NodeDown''], al_annotations = Map.empty,
     al_starts = ''2026-07-26T00:00:00Z''\<rparr>"

definition demo_decoder :: decoder where
  "demo_decoder b = (if b = ''A'' then Some \<lparr>ap_receiver = ''web'', ap_status = ''firing'', ap_alerts = [demo_alert, demo_alert]\<rparr> else None)"

definition demo_requests :: "webhook_request list" where
  "demo_requests =
     [\<lparr>wq_path = ''/webhook'', wq_method = ''POST'', wq_body = Some ''A''\<rparr>,
      \<lparr>wq_path = ''/webhook'', wq_method = ''POST'', wq_body = Some ''{''\<rparr>,
      \<lparr>wq_path = ''/alerts'', wq_method = ''GET'', wq_body = None\<rparr>,
      \<lparr>wq_path = ''/webhook'', wq_method = ''POST'', wq_body = Some ''A''\<rparr>]"

theorem webhook_is_a_log_witness:
  "fst (runs (webhook_serve demo_decoder) demo_requests NewWebhookReceiver) ! 2 = Alerts 200 [demo_alert, demo_alert]"
proof -
  have l: "2 < length demo_requests" and p: "wq_path (demo_requests ! 2) = ''/alerts''"
    by (simp_all add: demo_requests_def)
  have d: "delivered_by demo_decoder (take 2 demo_requests) = [demo_alert, demo_alert]"
    by (simp add: demo_requests_def delivered_by_def delivers_def demo_decoder_def)
  have "\<forall>i < length demo_requests. wq_path (demo_requests ! i) = ''/alerts'' \<longrightarrow>
      fst (runs (webhook_serve demo_decoder) demo_requests NewWebhookReceiver) ! i = Alerts 200 (delivered_by demo_decoder (take i demo_requests))"
    using webhook_is_a_log [of demo_decoder demo_requests] by blast
  then show ?thesis using l p d by metis
qed

end
