(* ===== verification/Telemetry.thy ===== *)
theory Telemetry
  imports Go_Strings
begin

text \<open>
  \<^verbatim>\<open>services/observability/telemetry/tracer.go\<close>: how trace context travels in gRPC
  metadata, and the structured log line. Contexts, spans and the propagator are those of the
  OpenTelemetry library and therefore arguments: what a propagator writes into a carrier for
  a context, and what it makes of a context and a carrier.
\<close>

section \<open>Trace context in metadata\<close>

type_synonym metadata = "string \<Rightarrow> string list"
type_synonym carrier = "(string \<times> string) list"

text \<open>
  \<^verbatim>\<open>propagation.MapCarrier\<close> is a Go map; the list gives its entries in the order in
  which the loop ranges over them. A context has outgoing and incoming metadata, or none, and
  the rest, \<open>'c\<close>.
\<close>

record 'c go_context =
  cx_out :: "metadata option"
  cx_in :: "metadata option"
  cx_rest :: 'c

record 'c propagator =
  pr_inject :: "'c \<Rightarrow> carrier"
  pr_extract :: "'c \<Rightarrow> (string \<Rightarrow> string option) \<Rightarrow> 'c"

text \<open>\<^verbatim>\<open>md.Set(k, v)\<close> lower-cases the key and replaces its values.\<close>

definition md_set :: "string \<times> string \<Rightarrow> metadata \<Rightarrow> metadata" where
  "md_set kv md = md(to_lower (fst kv) := [snd kv])"

definition InjectTraceContextToGRPC :: "'c propagator \<Rightarrow> 'c go_context \<Rightarrow> 'c go_context" where
  "InjectTraceContextToGRPC pr cx =
     (let md = (case cx_out cx of Some md \<Rightarrow> md | None \<Rightarrow> (\<lambda>_. []))
      in cx\<lparr>cx_out := Some (fold md_set (pr_inject pr (cx_rest cx)) md)\<rparr>)"

definition first_values :: "metadata \<Rightarrow> string \<Rightarrow> string option" where
  "first_values md k = (case md k of [] \<Rightarrow> None | v # vs \<Rightarrow> Some v)"

definition ExtractTraceContextFromGRPC :: "'c propagator \<Rightarrow> 'c go_context \<Rightarrow> 'c go_context" where
  "ExtractTraceContextFromGRPC pr cx =
     (case cx_in cx of
        None \<Rightarrow> cx
      | Some md \<Rightarrow> cx\<lparr>cx_rest := pr_extract pr (cx_rest cx) (first_values md)\<rparr>)"

text \<open>The server's context of a call: what the client put out comes in.\<close>

definition arrives :: "'c go_context \<Rightarrow> 'c \<Rightarrow> 'c go_context" where
  "arrives cx background = \<lparr>cx_out = None, cx_in = cx_out cx, cx_rest = background\<rparr>"

text \<open>
  What the library documents of a propagator: it reads and writes only its fields, which are
  lower case, each at most once.
\<close>

definition propagator_fields :: "'c propagator \<Rightarrow> string set \<Rightarrow> bool" where
  "propagator_fields pr keys \<longleftrightarrow>
     (\<forall>k \<in> keys. to_lower k = k) \<and>
     (\<forall>c. fst ` set (pr_inject pr c) \<subseteq> keys \<and> distinct (map fst (pr_inject pr c))) \<and>
     (\<forall>c m m'. (\<forall>k \<in> keys. m k = m' k) \<longrightarrow> pr_extract pr c m = pr_extract pr c m')"

lemma fold_md_set:
  assumes "\<And>kv. kv \<in> set kvs \<Longrightarrow> to_lower (fst kv) = fst kv" and "distinct (map fst kvs)"
  shows "fold md_set kvs md k = (case map_of kvs k of Some v \<Rightarrow> [v] | None \<Rightarrow> md k)"
  using assms
proof (induction kvs arbitrary: md)
  case (Cons kv kvs)
  have "map_of kvs (fst kv) = None" using Cons.prems(2) by (simp add: map_of_eq_None_iff)
  then show ?case using Cons by (cases "k = fst kv") (auto simp: md_set_def split: option.split)
qed simp

text \<open>
  Propagation round trip: when the outgoing metadata held none of the propagator's fields,
  the server extracts from the call exactly what the propagator makes of the carrier the
  client filled; all other metadata arrives as it was.
\<close>

theorem trace_context_roundtrip:
  assumes "propagator_fields pr keys" and "\<forall>md. cx_out cx = Some md \<longrightarrow> (\<forall>k \<in> keys. md k = [])"
  shows "cx_rest (ExtractTraceContextFromGRPC pr (arrives (InjectTraceContextToGRPC pr cx) background)) =
      pr_extract pr background (map_of (pr_inject pr (cx_rest cx))) \<and>
    (\<exists>md'. cx_out (InjectTraceContextToGRPC pr cx) = Some md' \<and>
      (\<forall>k. k \<notin> keys \<longrightarrow> md' k = (case cx_out cx of Some md \<Rightarrow> md k | None \<Rightarrow> [])))"
proof -
  let ?kvs = "pr_inject pr (cx_rest cx)" and ?md = "case cx_out cx of Some md \<Rightarrow> md | None \<Rightarrow> (\<lambda>_. [])"
  have sub: "fst ` set ?kvs \<subseteq> keys" and low: "\<And>kv. kv \<in> set ?kvs \<Longrightarrow> to_lower (fst kv) = fst kv"
    and dist: "distinct (map fst ?kvs)"
    using assms(1) unfolding propagator_fields_def by blast+
  note set = fold_md_set [OF low dist]
  have "first_values (fold md_set ?kvs ?md) k = map_of ?kvs k" if "k \<in> keys" for k
    using that assms(2) by (auto simp: first_values_def set split: option.splits)
  then have "pr_extract pr background (first_values (fold md_set ?kvs ?md)) = pr_extract pr background (map_of ?kvs)"
    using assms(1) unfolding propagator_fields_def by blast
  moreover have "fold md_set ?kvs ?md k = (case cx_out cx of Some md \<Rightarrow> md k | None \<Rightarrow> [])" if "k \<notin> keys" for k
  proof -
    have "map_of ?kvs k = None" using that sub by (auto simp: map_of_eq_None_iff)
    then show ?thesis by (simp add: set split: option.split)
  qed
  ultimately show ?thesis
    by (simp add: ExtractTraceContextFromGRPC_def InjectTraceContextToGRPC_def arrives_def Let_def)
qed

section \<open>Structured log lines\<close>

text \<open>The trace identifier of a span, when its context is valid.\<close>

definition ExtractTraceID :: "string option \<Rightarrow> string" where
  "ExtractTraceID valid_span = (case valid_span of Some traceID \<Rightarrow> traceID | None \<Rightarrow> [])"

text \<open>A value of the object: a string of the standard keys or a value of the caller.\<close>

datatype 'v log_value = Standard string | Given 'v

definition log_object ::
  "string option \<Rightarrow> string \<Rightarrow> string \<Rightarrow> string \<Rightarrow> string \<Rightarrow> (string \<Rightarrow> 'v option) \<Rightarrow> string \<Rightarrow> 'v log_value option" where
  "log_object span now service level event extra =
     [''timestamp'' \<mapsto> Standard now, ''service'' \<mapsto> Standard service, ''level'' \<mapsto> Standard level,
      ''event'' \<mapsto> Standard event, ''trace_id'' \<mapsto> Standard (ExtractTraceID span)] ++ (map_option Given \<circ> extra)"

datatype log_output = Stdout_Line string | Marshal_Failed string string

definition LogStructuredEvent ::
  "((string \<Rightarrow> 'v log_value option) \<Rightarrow> string + string) \<Rightarrow> string option \<Rightarrow> string \<Rightarrow> string \<Rightarrow> string \<Rightarrow> string \<Rightarrow>
   (string \<Rightarrow> 'v option) \<Rightarrow> log_output" where
  "LogStructuredEvent marshal span now service level event extra =
     (case marshal (log_object span now service level event extra) of
        Inr bytes \<Rightarrow> Stdout_Line bytes
      | Inl err \<Rightarrow> Marshal_Failed event err)"

text \<open>The standard keys are always there, but the caller's fields come last and win.\<close>

lemma log_object_keys:
  "{''timestamp'', ''service'', ''level'', ''event'', ''trace_id''} \<subseteq> dom (log_object span now service level event extra)"
  by (auto simp: log_object_def)

theorem fields_override_standard_keys:
  "extra k = Some v \<Longrightarrow> log_object span now service level event extra k = Some (Given v)"
  by (simp add: log_object_def)

section \<open>Setting up tracing\<close>

text \<open>
  The process-wide provider and propagators of the OpenTelemetry library; a process starts
  without. A provider keeps all spans; one with an exporter sends them in batches, described
  by a resource. What the constructors of the exporter and of the resource answer is an
  argument: for a collector address, and for a service name.
\<close>

datatype ('e, 'r) provider = Without_Exporter | Exporting 'e 'r

record ('e, 'r) tracing =
  tr_provider :: "('e, 'r) provider option"
  tr_propagators :: "string list"

definition untraced :: "('e, 'r) tracing" where
  "untraced = \<lparr>tr_provider = None, tr_propagators = []\<rparr>"

definition InitTracer ::
  "(string \<Rightarrow> string + 'e) \<Rightarrow> (string \<Rightarrow> string + 'r) \<Rightarrow> string \<Rightarrow> string \<Rightarrow> ('e, 'r) tracing \<Rightarrow>
   (string + ('e, 'r) provider) \<times> ('e, 'r) tracing" where
  "InitTracer new_exporter new_resource serviceName collectorAddr t =
     (let collector = (if collectorAddr = [] then ''localhost:4317'' else collectorAddr);
          install = (\<lambda>tp. (Inr tp, \<lparr>tr_provider = Some tp, tr_propagators = [''tracecontext'', ''baggage'']\<rparr>))
      in case new_exporter collector of
           Inl err \<Rightarrow> install Without_Exporter
         | Inr exporter \<Rightarrow>
             (case new_resource serviceName of
                Inl err \<Rightarrow> (Inl (''failed to create resource: '' @ err), t)
              | Inr res \<Rightarrow> install (Exporting exporter res)))"

text \<open>
  It reports an error only for a resource that cannot be made, and then leaves the process as
  it was. A collector that cannot be reached is no error: the spans are kept and dropped.
  Otherwise the provider it returns is the one installed, with both propagators.
\<close>

theorem InitTracer_outcome:
  assumes "InitTracer new_exporter new_resource serviceName collectorAddr t = (r, t')"
  shows "case r of
      Inl e \<Rightarrow> t' = t \<and> (\<exists>exporter. new_exporter (if collectorAddr = [] then ''localhost:4317'' else collectorAddr) = Inr exporter)
    | Inr tp \<Rightarrow> tr_provider t' = Some tp \<and> tr_propagators t' = [''tracecontext'', ''baggage''] \<and>
        (tp = Without_Exporter \<longleftrightarrow> (\<exists>e. new_exporter (if collectorAddr = [] then ''localhost:4317'' else collectorAddr) = Inl e))"
  using assms by (auto simp: InitTracer_def Let_def split: sum.splits)

section \<open>Spans around handlers\<close>

text \<open>
  The middleware starts a span with the context that the headers carry, runs the handler in
  it and ends it when the handler returns or panics (\<open>None\<close>). Spans are numbered as they
  are started; the library's context of a span is an argument, and so is what it makes of a
  context and the headers. The events are those the tracer sees.
\<close>

datatype 'c span_event = Span_Start nat string 'c | Span_End nat

definition TracingHTTPMiddleware ::
  "('c \<Rightarrow> (string \<Rightarrow> string option) \<Rightarrow> 'c) \<Rightarrow> (nat \<Rightarrow> 'c \<Rightarrow> 'c) \<Rightarrow>
   ('c \<Rightarrow> nat \<times> 's \<Rightarrow> 'r option \<times> 'c span_event list \<times> nat \<times> 's) \<Rightarrow>
   string \<Rightarrow> string \<Rightarrow> (string \<Rightarrow> string option) \<Rightarrow> 'c \<Rightarrow> nat \<times> 's \<Rightarrow> 'r option \<times> 'c span_event list \<times> nat \<times> 's" where
  "TracingHTTPMiddleware extract span_context next_handler method path headers ctx st =
     (case st of (n, s) \<Rightarrow>
       (let parent = extract ctx headers
        in case next_handler (span_context n parent) (Suc n, s) of
             (r, events, n', s') \<Rightarrow>
               (r, Span_Start n (''HTTP '' @ method @ '' '' @ path) parent # events @ [Span_End n], n', s')))"

text \<open>Events nest: every span that is started is ended, in the reverse order.\<close>

fun nested :: "nat list \<Rightarrow> 'c span_event list \<Rightarrow> bool" where
  "nested stack [] \<longleftrightarrow> stack = []"
| "nested stack (Span_Start n name ctx # es) \<longleftrightarrow> nested (n # stack) es"
| "nested stack (Span_End n # es) \<longleftrightarrow> (case stack of [] \<Rightarrow> False | m # ms \<Rightarrow> m = n \<and> nested ms es)"

lemma nested_append: "nested st es \<Longrightarrow> nested (st @ st') (es @ es') = nested st' es'"
  by (induction st es rule: nested.induct) (auto split: list.splits)

text \<open>
  A handler whose own spans nest has them inside the span of its request, whose parent is
  the context of the caller, also when the handler panics.
\<close>

theorem spans_nest:
  assumes "TracingHTTPMiddleware extract span_context next_handler method path headers ctx st = (r, events, st')"
    and "\<And>c s r es s'. next_handler c s = (r, es, s') \<Longrightarrow> nested [] es"
  shows "nested [] events \<and> (\<exists>es. events = Span_Start (fst st) (''HTTP '' @ method @ '' '' @ path) (extract ctx headers) # es)"
proof -
  obtain n s where st: "st = (n, s)" by (cases st)
  obtain r' es n' s' where run: "next_handler (span_context n (extract ctx headers)) (Suc n, s) = (r', es, n', s')"
    by (metis prod_cases4)
  have "events = Span_Start n (''HTTP '' @ method @ '' '' @ path) (extract ctx headers) # es @ [Span_End n]"
    using assms(1) by (simp add: TracingHTTPMiddleware_def st run)
  moreover have "nested [n] (es @ [Span_End n])"
    using nested_append [OF assms(2) [OF run], of "[n]" "[Span_End n]"] by simp
  ultimately show ?thesis by (simp add: st)
qed

section \<open>Concrete contexts\<close>

text \<open>A propagator of one field, whose contexts are trace identifiers, empty for none.\<close>

definition demo_propagator :: "string propagator" where
  "demo_propagator = \<lparr>pr_inject = (\<lambda>c. if c = [] then [] else [(''traceparent'', c)]),
     pr_extract = (\<lambda>c m. case m ''traceparent'' of Some v \<Rightarrow> v | None \<Rightarrow> c)\<rparr>"

lemma demo_propagator_fields: "propagator_fields demo_propagator {''traceparent''}"
proof -
  have "to_lower ''traceparent'' = ''traceparent''" by code_simp
  then show ?thesis by (simp add: propagator_fields_def demo_propagator_def)
qed

definition demo_context :: "string go_context" where
  "demo_context = \<lparr>cx_out = Some ((\<lambda>_. [])(''authorization'' := [''Bearer t''])), cx_in = None, cx_rest = ''00-ab-cd-01''\<rparr>"

theorem trace_context_roundtrip_witness:
  "cx_rest (ExtractTraceContextFromGRPC demo_propagator (arrives (InjectTraceContextToGRPC demo_propagator demo_context) [])) = ''00-ab-cd-01''"
proof -
  have "\<forall>md. cx_out demo_context = Some md \<longrightarrow> (\<forall>k \<in> {''traceparent''}. md k = [])"
    by (simp add: demo_context_def)
  from conjunct1 [OF trace_context_roundtrip [OF demo_propagator_fields this, of "[]"]]
  show ?thesis by (simp add: demo_propagator_def demo_context_def)
qed

end
