(* ===== verification/Recovery.thy ===== *)
theory Recovery
  imports Cluster
begin

text \<open>
  The control plane dies in the middle of its work and is started again: what the registry and
  the agents are left with, what the reconciler of the next process picks up
  (\<^verbatim>\<open>control-plane/reconciliation.go\<close>), and what nothing picks up.
\<close>

section \<open>A process that dies\<close>

text \<open>
  Services of a process that makes so many calls and no more: the number in the state is how
  many are left. A call made by a dead process has no effect; what it answers does not matter,
  an error keeps the run short.
\<close>

definition mortal_call :: "'a \<Rightarrow> ('w \<Rightarrow> 'a \<times> 'w) \<Rightarrow> 'w \<times> nat \<Rightarrow> 'a \<times> 'w \<times> nat" where
  "mortal_call dead f s =
     (case s of (w, n) \<Rightarrow>
        if n = 0 then (dead, w, 0) else (case f w of (r, w) \<Rightarrow> (r, w, n - 1)))"

definition killed :: "'a rpc" where "killed = Inl (Status Unavailable ''killed'')"

definition mortal :: "'w services \<Rightarrow> ('w \<times> nat) services" where
  "mortal sv =
     \<lparr>sv_schedule = (\<lambda>c. mortal_call killed (sv_schedule sv c)),
      sv_get_nodes = (\<lambda>c. mortal_call killed (sv_get_nodes sv c)),
      sv_update = (\<lambda>d st n ep k. mortal_call killed (sv_update sv d st n ep k)),
      sv_dial = (\<lambda>a. mortal_call (Some ''killed'') (sv_dial sv a)),
      sv_create = (\<lambda>a name d. mortal_call killed (sv_create sv a name d))\<rparr>"

text \<open>What a provisioning leaves that dies after so many calls.\<close>

definition dies_after :: "nat \<Rightarrow> 'w services \<Rightarrow> string \<Rightarrow> string \<Rightarrow> string \<Rightarrow> 'w \<Rightarrow> 'w" where
  "dies_after n sv d name c w = fst (ProvisionDatabase (mortal sv) d name c (w, n))"

lemma mortal_call_0 [simp]: "mortal_call dead f (w, 0) = (dead, w, 0)"
  by (simp add: mortal_call_def)

lemma mortal_call_Suc [simp]: "mortal_call dead f (w, Suc n) = (case f w of (r, w) \<Rightarrow> (r, w, n))"
  by (simp add: mortal_call_def)

lemma mortal_sel [simp]:
  "sv_schedule (mortal sv) c = mortal_call killed (sv_schedule sv c)"
  "sv_get_nodes (mortal sv) c = mortal_call killed (sv_get_nodes sv c)"
  "sv_update (mortal sv) d st n ep k = mortal_call killed (sv_update sv d st n ep k)"
  "sv_dial (mortal sv) a = mortal_call (Some ''killed'') (sv_dial sv a)"
  "sv_create (mortal sv) a name d = mortal_call killed (sv_create sv a name d)"
  by (simp_all add: mortal_def)

lemma dead_attempt: "provision_attempt (mortal sv) d name c k att (w, 0) = (False, att, w, 0)"
  by (simp add: provision_attempt_def killed_def)

lemma dead_loop: "k \<le> 3 \<Longrightarrow> provision_loop (mortal sv) d name c k att (w, 0) = (False, 3, w, 0)"
proof (induction "3 - k" arbitrary: k)
  case 0
  then have "k = 3" by simp
  then show ?case by (simp add: provision_loop.simps [of _ _ _ _ 3] maxAttempts_def)
next
  case (Suc m)
  then have "k < 3" "m = 3 - Suc k" by linarith+
  then show ?case using Suc.hyps(1) [of "Suc k"]
    by (simp add: provision_loop.simps [of _ _ _ _ k] dead_attempt maxAttempts_def)
qed

text \<open>A process whose first attempt fails for being dead leaves what that attempt left.\<close>

lemma dies_in_first:
  assumes "provision_attempt (mortal sv) d name c 1 {} (w, n) = (False, att, w', 0)"
  shows "dies_after n sv d name c w = w'"
  using assms
  by (simp add: dies_after_def ProvisionDatabase_def provision_loop.simps [of _ _ _ _ 0] maxAttempts_def
      dead_loop)

lemma dies_after_first:
  assumes "provision_attempt (mortal sv) d name c 1 {} (w, n) = (True, att, w', m)"
  shows "dies_after n sv d name c w = w'"
  using assms by (simp add: dies_after_def ProvisionDatabase_def provision_loop.simps [of _ _ _ _ 0] maxAttempts_def)

text \<open>
  An attempt makes at most six calls. A process that may make six attempts' worth of calls and
  one more, to mark the failure, does all of its work.
\<close>

lemma attempt_six:
  obtains m where "n \<le> m" and "provision_attempt (mortal sv) d name c k att (w, n + 6) =
     (case provision_attempt sv d name c k att w of (ok, att, w) \<Rightarrow> (ok, att, w, m))"
proof -
  note six = numeral_eq_Suc
  let ?goal = "\<exists>m \<ge> n. provision_attempt (mortal sv) d name c k att (w, n + 6) =
     (case provision_attempt sv d name c k att w of (ok, att, w) \<Rightarrow> (ok, att, w, m))"
  obtain r1 w1 where s1: "sv_schedule sv c w = (r1, w1)" by fastforce
  obtain r2 w2 where s2: "sv_get_nodes sv c w1 = (r2, w2)" by fastforce
  have ?goal
  proof (cases r1)
    case (Inl e)
    then show ?thesis by (intro exI [of _ "n + 5"]) (simp add: provision_attempt_def six s1)
  next
    case r1: (Inr sched)
    show ?thesis
    proof (cases r2)
      case (Inl e)
      with r1 show ?thesis
        by (cases "sr_node sched = []") (intro exI [of _ "n + 5"] exI [of _ "n + 4"]; simp add: provision_attempt_def six s1 s2)+
    next
      case r2: (Inr nodes)
      obtain node host where pick: "pick_target att nodes (sr_node sched) = (node, host)" by fastforce
      obtain r3 w3 where s3: "sv_update sv d ''provisioning'' node [] (int32 (int k)) w2 = (r3, w3)" by fastforce
      obtain r4 w4 where s4: "sv_dial sv (agent_address host) w3 = (r4, w4)" by fastforce
      obtain r5 w5 where s5: "sv_create sv (agent_address host) name d w4 = (r5, w5)" by fastforce
      note facts = provision_attempt_def six s1 s2 s3 s4 s5 r1 r2 pick
      consider (unplaced) "sr_node sched = []" | (unlisted) "sr_node sched \<noteq> []" "host = []"
        | (unreachable) e where "sr_node sched \<noteq> []" "host \<noteq> []" "r4 = Some e"
        | (refused) e where "sr_node sched \<noteq> []" "host \<noteq> []" "r4 = None" "r5 = Inl e"
        | (answered) res where "sr_node sched \<noteq> []" "host \<noteq> []" "r4 = None" "r5 = Inr res"
        by (cases r4; cases r5) auto
      then show ?thesis
      proof cases
        case unplaced
        then show ?thesis by (intro exI [of _ "n + 5"]) (simp add: facts)
      next
        case unlisted
        then show ?thesis by (intro exI [of _ "n + 4"]) (simp add: facts)
      next
        case unreachable
        then show ?thesis by (intro exI [of _ "n + 2"]) (simp add: facts)
      next
        case refused
        then show ?thesis by (intro exI [of _ "n + 1"]) (simp add: facts)
      next
        case answered
        obtain r6 w6 where "sv_update sv d ''active'' node (cr_endpoint res) (int32 (int k)) w5 = (r6, w6)" by fastforce
        with answered show ?thesis
          by (intro exI [of _ "if cr_success res then n else n + 1"]) (simp add: facts)
      qed
    qed
  qed
  then show thesis using that by blast
qed

lemma loop_enough:
  assumes "k \<le> 3" and "6 * (3 - k) \<le> n"
  obtains m where "n - 6 * (3 - k) \<le> m" and "provision_loop (mortal sv) d name c k att (w, n) =
     (case provision_loop sv d name c k att w of (ok, j, w) \<Rightarrow> (ok, j, w, m))"
  using assms
proof (induction "3 - k" arbitrary: k n att w thesis)
  case 0
  then have "k = 3" by simp
  then show ?case using "0.prems"(1) [of n] by (simp add: provision_loop.simps [of _ _ _ _ 3] maxAttempts_def)
next
  case (Suc i)
  then have k: "k < 3" "i = 3 - Suc k" by linarith+
  define n' where "n' = n - 6"
  have n: "n = n' + 6" using Suc.prems(3) k by (simp add: n'_def)
  obtain ok att' w' where a: "provision_attempt sv d name c (Suc k) att w = (ok, att', w')" by (metis prod_cases3)
  obtain m where m: "n' \<le> m" "provision_attempt (mortal sv) d name c (Suc k) att (w, n) = (ok, att', w', m)"
    using attempt_six [of n' sv d name c "Suc k" att w] a n by auto
  show ?case
  proof (cases ok)
    case True
    with m a k n show ?thesis
      by (intro Suc.prems(1) [of m]) (simp_all add: provision_loop.simps [of _ _ _ _ k] maxAttempts_def)
  next
    case False
    have "6 * (3 - Suc k) \<le> m" using Suc.prems(3) m(1) k n by linarith
    then obtain m' where "m - 6 * (3 - Suc k) \<le> m'" "provision_loop (mortal sv) d name c (Suc k) att' (w', m) =
       (case provision_loop sv d name c (Suc k) att' w' of (ok, j, w) \<Rightarrow> (ok, j, w, m'))"
      using Suc.hyps(1) [OF k(2), of m att' w'] k(1) by auto
    with False m a k n show ?thesis
      by (intro Suc.prems(1) [of m']) (simp_all add: provision_loop.simps [of _ _ _ _ k] maxAttempts_def)
  qed
qed

lemma dies_after_all:
  assumes "19 \<le> n"
  shows "dies_after n sv d name c w = ProvisionDatabase sv d name c w"
proof -
  obtain ok j w' where l: "provision_loop sv d name c 0 {} w = (ok, j, w')" by (metis prod_cases3)
  obtain m where "n - 18 \<le> m" "provision_loop (mortal sv) d name c 0 {} (w, n) = (ok, j, w', m)"
    using loop_enough [of 0 n sv d name c "{}" w] assms l by auto
  moreover from this assms obtain m' where "m = Suc m'" by (cases m) auto
  ultimately show ?thesis
    using l by (cases ok) (simp_all add: dies_after_def ProvisionDatabase_def case_prod_beta)
qed

section \<open>What is left can be taken up\<close>

text \<open>
  A promise about the states a provisioning passes through: \<open>resumable\<close> holds before it,
  and every call but the last keeps it.
\<close>

locale crash_contract = placement_contract +
  fixes resumable :: "string \<Rightarrow> string \<Rightarrow> string \<Rightarrow> 'a \<Rightarrow> bool"
  assumes keeps_schedule: "resumable d name c w \<Longrightarrow> resumable d name c (snd (sv_schedule sv c w))"
    and keeps_nodes: "resumable d name c w \<Longrightarrow> resumable d name c (snd (sv_get_nodes sv c w))"
    and keeps_dial: "resumable d name c w \<Longrightarrow> resumable d name c (snd (sv_dial sv addr w))"
    and keeps_announce: "resumable d name c w \<Longrightarrow> accepting d name node addr w \<Longrightarrow>
      resumable d name c (snd (sv_update sv d ''provisioning'' node [] k w))"
    and keeps_create: "resumable d name c w \<Longrightarrow> accepting d name node addr w \<Longrightarrow>
      resumable d name c (snd (sv_create sv addr name d w))"
begin

text \<open>Wherever the process dies, the database is hosted or can be taken up again.\<close>

lemma dies:
  assumes "ready d name c w" and "resumable d name c w"
  shows "resumable d name c (dies_after n sv d name c w) \<or> (\<exists>node ep. hosted d name node ep (dies_after n sv d name c w))"
proof -
  obtain r nodes w1 w2 where s: "sv_schedule sv c w = (Inr r, w1)" "sv_get_nodes sv c w1 = (Inr nodes, w2)"
    "sr_node r \<noteq> []" "host_of (sr_node r) nodes \<noteq> []"
    "accepting d name (sr_node r) (agent_address (host_of (sr_node r) nodes)) w2"
    using placed [OF assms(1)] by blast
  define host where "host = host_of (sr_node r) nodes"
  define w3 where "w3 = snd (sv_update sv d ''provisioning'' (sr_node r) [] 1 w2)"
  have acc3: "accepting d name (sr_node r) (agent_address host) w3"
    unfolding w3_def host_def by (rule announced) (rule s(5))
  obtain w4 where w4: "sv_dial sv (agent_address host) w3 = (None, w4)"
    "accepting d name (sr_node r) (agent_address host) w4" using dialed [OF acc3] by blast
  obtain res w5 where w5: "sv_create sv (agent_address host) name d w4 = (Inr res, w5)" "cr_success res"
    "hosted d name (sr_node r) (cr_endpoint res) (snd (sv_update sv d ''active'' (sr_node r) (cr_endpoint res) 1 w5))"
    using created [OF w4(2)] by blast
  have res: "resumable d name c w1" "resumable d name c w2" "resumable d name c w3"
      "resumable d name c w4" "resumable d name c w5"
  proof -
    show 1: "resumable d name c w1" using keeps_schedule [OF assms(2)] s(1) by simp
    show 2: "resumable d name c w2" using keeps_nodes [OF 1] s(2) by simp
    show 3: "resumable d name c w3" using keeps_announce [OF 2 s(5)] by (simp add: w3_def)
    show 4: "resumable d name c w4" using keeps_dial [OF 3, of "agent_address host"] w4(1) by simp
    show "resumable d name c w5" using keeps_create [OF 4 w4(2)] w5(1) by simp
  qed
  note run = provision_attempt_def pick_target_def s(1-4) w4(1) w5(1,2) host_def [symmetric]
  obtain v where upd: "sv_update sv d ''provisioning'' (sr_node r) [] 1 w2 = (v, w3)"
    using w3_def by (metis prod.collapse)
  have host: "host \<noteq> []" using s(4) by (simp add: host_def)
  have one: "int32 1 = 1" by code_simp
  have whole: "provision_attempt sv d name c 1 {} w =
      (True, {}, snd (sv_update sv d ''active'' (sr_node r) (cr_endpoint res) 1 w5))"
    by (simp add: run upd host one)
  show ?thesis
  proof (cases "6 \<le> n")
    case True
    then obtain m where n: "n = m + 6" by (metis add.commute le_Suc_ex)
    obtain m' where "provision_attempt (mortal sv) d name c 1 {} (w, n) =
        (case provision_attempt sv d name c 1 {} w of (ok, att, w) \<Rightarrow> (ok, att, w, m'))"
      unfolding n by (rule attempt_six)
    then have "dies_after n sv d name c w = snd (sv_update sv d ''active'' (sr_node r) (cr_endpoint res) 1 w5)"
      unfolding whole by (intro dies_after_first) simp
    with w5(3) show ?thesis by auto
  next
    case False
    have "provision_attempt (mortal sv) d name c 1 {} (w, 0) = (False, {}, w, 0)"
      "provision_attempt (mortal sv) d name c 1 {} (w, 1) = (False, {}, w1, 0)"
      "provision_attempt (mortal sv) d name c 1 {} (w, 2) = (False, {}, w2, 0)"
      "provision_attempt (mortal sv) d name c 1 {} (w, 3) = (False, {}, w3, 0)"
      "provision_attempt (mortal sv) d name c 1 {} (w, 4) = (False, {sr_node r}, w4, 0)"
      by (simp_all add: run upd host one killed_def numeral_eq_Suc)
    note early = this [THEN dies_in_first]
    have "provision_attempt (mortal sv) d name c 1 {} (w, 5) = (True, {}, w5, 0)"
      by (simp add: run upd host one killed_def numeral_eq_Suc)
    note late = this [THEN dies_after_first]
    have "n \<in> {0, 1, 2, 3, 4, 5}" using False by auto
    then have "dies_after n sv d name c w \<in> {w, w1, w2, w3, w4, w5}"
      by (elim insertE) (simp_all only: early late insert_iff simp_thms empty_iff)
    with res assms(2) show ?thesis by auto
  qed
qed

end

section \<open>The cluster keeps the promise\<close>

text \<open>
  A database under way: its row is in provisioning and was last written no later than
  \<open>T\<close>, and its cluster has nodes that take it.
\<close>

definition under_way ::
  "int \<Rightarrow> (node_row list \<Rightarrow> node_row list) \<Rightarrow> string \<Rightarrow> string \<Rightarrow> string \<Rightarrow> cluster_world \<Rightarrow> bool" where
  "under_way T rng d name c w \<longleftrightarrow> real_ready rng d name c w \<and> canonical w \<and> pg_now (cw_pg w) \<le> T \<and>
     row_holds (\<lambda>r. dr_status r = ''provisioning'' \<and> dr_name r = name \<and> dr_cluster r = Some c \<and> dr_updated r \<le> T) d w"

lemma canonical_ids:
  "canonical w \<longleftrightarrow> (\<forall>i \<in> dr_id ` set (tb_databases (cw_tables w)). i \<noteq> [] \<and> pg_uuid (cw_pg w) i = Some i)"
  by (auto simp: canonical_def)

lemma real_ready_hosts:
  assumes "real_ready rng d name c w" and "same_hosts w w'" and "world_ok w'"
  shows "real_ready rng d name c w'"
  using assms by (simp add: real_ready_def same_hosts_def has_record_def cluster_nodes_def)

lemma under_way_update:
  assumes "under_way T rng d name c w"
    and t: "UpdateDatabaseStatus (cw_pg w) d' ''provisioning'' node ep k (cw_tables w) = (Inr v, t)"
  shows "under_way T rng d name c (w\<lparr>cw_tables := t\<rparr>)"
proof -
  have w: "real_ready rng d name c w" "canonical w" "pg_now (cw_pg w) \<le> T" using assms(1) by (simp_all add: under_way_def)
  have frame: "tb_nodes t = tb_nodes (cw_tables w)" "dr_id ` set (tb_databases t) = dr_id ` set (tb_databases (cw_tables w))"
    using UpdateDatabaseStatus_frame [OF t] by simp_all
  have "world_ok (w\<lparr>cw_tables := t\<rparr>)" using w(1) by (intro world_ok_update [OF _ t]) (simp add: real_ready_def)
  moreover from this have "real_ready rng d name c (w\<lparr>cw_tables := t\<rparr>)"
    by (intro real_ready_hosts [OF w(1)]) (simp_all add: same_hosts_def frame)
  moreover have "canonical (w\<lparr>cw_tables := t\<rparr>)" using w(2) by (simp add: canonical_ids frame)
  moreover obtain d'' where d'': "pg_uuid (cw_pg w) d' = Some d''" "find_row dr_id d'' (tb_databases (cw_tables w)) \<noteq> None"
      "node_ref (cw_pg w) node \<in> insert None (Some ` nr_id ` set (tb_nodes (cw_tables w)))"
    and t': "t = (cw_tables w)\<lparr>tb_databases := update_rows dr_id d'' (updated_database (cw_pg w) ''provisioning'' (node_ref (cw_pg w) node) ep k) (tb_databases (cw_tables w)),
            tb_replicas := (case node_ref (cw_pg w) node of None \<Rightarrow> tb_replicas (cw_tables w)
              | Some n \<Rightarrow> filter (\<lambda>r. rr_database r \<noteq> d'') (tb_replicas (cw_tables w)) @
                  [\<lparr>rr_database = d'', rr_node = n, rr_role = ''leader''\<rparr>])\<rparr>"
    using t by (rule UpdateDatabaseStatus_success)
  have "row_holds (\<lambda>r. dr_status r = ''provisioning'' \<and> dr_name r = name \<and> dr_cluster r = Some c \<and> dr_updated r \<le> T) d
      (w\<lparr>cw_tables := t\<rparr>)"
  proof -
    obtain r where "find_row dr_id d (tb_databases (cw_tables w)) = Some r"
        "dr_status r = ''provisioning''" "dr_name r = name" "dr_cluster r = Some c" "dr_updated r \<le> T"
      using assms(1) by (auto simp: under_way_def row_holds_def)
    then show ?thesis
      using w(3) by (cases "d = d''") (simp_all add: row_holds_def t' find_update_rows updated_database_def)
  qed
  ultimately show ?thesis using w(3) by (simp add: under_way_def)
qed

lemma agent_takes_created:
  assumes "agent_takes d name (Some a)" and "CreateDatabase None None name d a = (Inr res, a')" and "d \<noteq> []" and "name \<noteq> []"
  shows "agent_takes d name (Some a')"
proof -
  have "\<not> ag_fail a > 0" "\<not> ag_hang a > 0" using assms(1) by (simp_all add: agent_takes_def no_faults_def)
  then have "register_db None name d a = (Inr res, a')" using assms(2-4) by (simp add: CreateDatabase_eq)
  with assms(1) show ?thesis
    by (auto simp: register_db_def agent_takes_def no_faults_def update_conv simp del: map_of_eq_Some_iff split: if_splits option.splits)
qed

text \<open>The contract of the cluster, with what a sweep needs of the world in every state.\<close>

definition ready_here ::
  "(node_row list \<Rightarrow> node_row list) \<Rightarrow> string \<Rightarrow> string \<Rightarrow> string \<Rightarrow> cluster_world \<Rightarrow> bool" where
  "ready_here rng d name c w \<longleftrightarrow> real_ready rng d name c w \<and> canonical w"

definition accepting_here :: "string \<Rightarrow> string \<Rightarrow> string \<Rightarrow> string \<Rightarrow> cluster_world \<Rightarrow> bool" where
  "accepting_here d name node addr w \<longleftrightarrow> real_accepting d name node addr w \<and> canonical w"

definition hosted_here :: "string \<Rightarrow> string \<Rightarrow> string \<Rightarrow> string \<Rightarrow> cluster_world \<Rightarrow> bool" where
  "hosted_here d name node ep w \<longleftrightarrow> real_hosted d name node ep w \<and> world_ok w \<and> canonical w"

lemma canonical_update:
  assumes "canonical w" and "UpdateDatabaseStatus (cw_pg w) d st node ep k (cw_tables w) = (Inr v, t)"
  shows "canonical (w\<lparr>cw_tables := t\<rparr>)"
  using assms(1) UpdateDatabaseStatus_frame [OF assms(2)] by (simp add: canonical_ids)

lemma announce_here:
  assumes "accepting_here d name node addr w"
  shows "accepting_here d name node addr (snd (sv_update (real_services rng) d ''provisioning'' node [] k w))"
proof -
  have acc: "real_accepting d name node addr w" and can: "canonical w" using assms by (simp_all add: accepting_here_def)
  obtain t where t: "UpdateDatabaseStatus (cw_pg w) d ''provisioning'' node [] k (cw_tables w) = (Inr True, t)"
    "real_accepting d name node addr (w\<lparr>cw_tables := t\<rparr>)"
    using update_accepting [OF acc, of "''provisioning''" "[]" k] by blast
  with canonical_update [OF can t(1)] show ?thesis by (simp add: accepting_here_def real_services_def on_tables_def)
qed

lemma create_here:
  assumes "accepting_here d name node addr w"
  shows "\<exists>res w1. sv_create (real_services rng) addr name d w = (Inr res, w1) \<and> cr_success res \<and>
     (\<forall>k. hosted_here d name node (cr_endpoint res)
        (snd (sv_update (real_services rng) d ''active'' node (cr_endpoint res) k w1)))"
proof -
  have acc: "real_accepting d name node addr w" and can: "canonical w" using assms by (simp_all add: accepting_here_def)
  obtain res w1 where cr: "sv_create (real_services rng) addr name d w = (Inr res, w1)" "cr_success res"
    and host: "\<And>k. real_hosted d name node (cr_endpoint res)
        (snd (sv_update (real_services rng) d ''active'' node (cr_endpoint res) k w1))"
    using real_created [OF acc] by blast
  have same: "cw_pg w1 = cw_pg w" "cw_tables w1 = cw_tables w"
    using cr(1) by (auto simp: real_services_def on_agent_def split: option.splits prod.splits)
  have "hosted_here d name node (cr_endpoint res)
        (snd (sv_update (real_services rng) d ''active'' node (cr_endpoint res) k w1))" for k
  proof -
    obtain t where t: "UpdateDatabaseStatus (cw_pg w) d ''active'' node (cr_endpoint res) k (cw_tables w) = (Inr True, t)"
      using update_accepting [OF acc, of "''active''" "cr_endpoint res" k] by blast
    have "world_ok (w\<lparr>cw_tables := t\<rparr>)" using acc by (intro world_ok_update [OF _ t]) (simp add: real_accepting_def)
    with canonical_update [OF can t] host [of k] t show ?thesis
      by (simp add: hosted_here_def real_services_def on_tables_def same world_ok_def canonical_def)
  qed
  with cr show ?thesis by blast
qed

interpretation crash: crash_contract "real_services rng" "ready_here rng" accepting_here hosted_here "under_way T rng" for rng T
proof
  show "\<exists>r nodes w1 w2. sv_schedule (real_services rng) c w = (Inr r, w1) \<and>
      sv_get_nodes (real_services rng) c w1 = (Inr nodes, w2) \<and> sr_node r \<noteq> [] \<and> host_of (sr_node r) nodes \<noteq> [] \<and>
      accepting_here d name (sr_node r) (agent_address (host_of (sr_node r) nodes)) w2"
    if "ready_here rng d name c w" for d name c w
    using that real_placed [of rng d name c w] by (auto simp: ready_here_def accepting_here_def real_services_def)
  show "\<exists>w1. sv_dial (real_services rng) addr w = (None, w1) \<and> accepting_here d name node addr w1"
    if "accepting_here d name node addr w" for d name node addr w
    using that by (simp add: real_services_def)
  show "under_way T rng d name c (snd (sv_update (real_services rng) d ''provisioning'' node [] k w))"
    if u: "under_way T rng d name c w" and acc: "accepting_here d name node addr w" for d name c node addr k w
  proof -
    obtain t where "UpdateDatabaseStatus (cw_pg w) d ''provisioning'' node [] k (cw_tables w) = (Inr True, t)"
      using update_accepting acc unfolding accepting_here_def by blast
    with under_way_update [OF u this] show ?thesis by (simp add: real_services_def on_tables_def)
  qed
  show "under_way T rng d name c (snd (sv_create (real_services rng) addr name d w))"
    if u: "under_way T rng d name c w" and acc: "accepting_here d name node addr w" for d name c node addr w
  proof -
    obtain a where a: "cw_agents w addr = Some a" "agent_takes d name (Some a)" "d \<noteq> []" "name \<noteq> []"
      using acc by (auto simp: accepting_here_def real_accepting_def has_record_def agent_takes_def split: option.splits)
    obtain res a' where cr: "CreateDatabase None None name d a = (Inr res, a')" using agent_takes_creates [OF a(2-4)] by blast
    let ?w = "w\<lparr>cw_agents := (cw_agents w)(addr \<mapsto> a')\<rparr>"
    have "agent_takes d name (Some a')" by (rule agent_takes_created [OF a(2) cr a(3,4)])
    then have "under_way T rng d name c ?w"
      using u by (auto simp: under_way_def real_ready_def world_ok_def has_record_def cluster_nodes_def canonical_def row_holds_def)
    with a(1) cr show ?thesis by (simp add: real_services_def on_agent_def)
  qed
qed (fact announce_here create_here | simp add: real_services_def)+

section \<open>Sweeps of the next processes\<close>

lemma sweep_spares:
  assumes "world_ok w" and "canonical w" and "\<And>rows. mset (rngd rows) = mset rows"
    and "row_holds (\<lambda>r. dr_status r \<noteq> ''provisioning'') d w"
  shows "d \<notin> fst ` set (fst (Reconcile (real_backends rng rngd) clock timeout w))"
proof
  assume dispatched: "d \<in> fst ` set (fst (Reconcile (real_backends rng rngd) clock timeout w))"
  obtain row where row: "find_row dr_id d (tb_databases (cw_tables w)) = Some row" "dr_status row \<noteq> ''provisioning''"
    using assms(4) by (auto simp: row_holds_def)
  have "touch_stable (cw_pg w) (\<lambda>r. dr_status r \<noteq> ''provisioning'') \<or>
      (\<forall>r. dr_status r \<noteq> ''provisioning'' \<longrightarrow> dr_status r \<noteq> ''provisioning'')" by simp
  from sweep [OF assms(1,2,4) this assms(3), of rng clock timeout] dispatched
  obtain r where r: "r \<in> set (rngd (tb_databases (cw_tables w)))" "di_id (projr (database_message r)) = d"
    "overdue (clock (di_id (projr (database_message r)))) timeout (projr (database_message r))" by auto
  have mem: "r \<in> set (tb_databases (cw_tables w))" using r(1) mset_eq_setD [OF assms(3)] by blast
  have "dr_cluster r \<noteq> None" "distinct (map dr_id (tb_databases (cw_tables w)))"
    using assms(1) mem by (auto simp: world_ok_def registry_ok_def database_keys_ok_def)
  moreover from this have "dr_id r = d" "dr_status r = ''provisioning''"
    using r(2,3) by (auto simp: database_message_def overdue_def)
  ultimately have "r = row" using find_row_Some [OF row(1)] mem by (metis distinct_map inj_onD)
  with row(2) \<open>dr_status r = ''provisioning''\<close> show False by simp
qed

lemma sweep_ids:
  assumes "world_ok w" and "canonical w" and "\<And>rows. mset (rngd rows) = mset rows" and "row_holds (\<lambda>_. True) d w"
  shows "fst ` set (fst (Reconcile (real_backends rng rngd) clock timeout w)) \<subseteq> dr_id ` set (tb_databases (cw_tables w))"
proof
  fix i assume "i \<in> fst ` set (fst (Reconcile (real_backends rng rngd) clock timeout w))"
  moreover have "touch_stable (cw_pg w) (\<lambda>_. True) \<or> (\<forall>r :: database_row. True \<longrightarrow> dr_status r \<noteq> ''provisioning'')"
    by (simp add: touch_stable_def)
  note sweep [OF assms(1,2,4) this assms(3), of rng clock timeout]
  ultimately obtain r where r: "r \<in> set (rngd (tb_databases (cw_tables w)))" "di_id (projr (database_message r)) = i" by auto
  have mem: "r \<in> set (tb_databases (cw_tables w))" using r(1) mset_eq_setD [OF assms(3)] by blast
  then have "dr_cluster r \<noteq> None" using assms(1) by (auto simp: world_ok_def registry_ok_def database_keys_ok_def)
  then have "dr_id r = i" using r(2) by (auto simp: database_message_def)
  with mem show "i \<in> dr_id ` set (tb_databases (cw_tables w))" by blast
qed

lemma sweep_under_way:
  assumes "under_way T rng d name c w" and "\<And>rows. mset (rngd rows) = mset rows" and "clock d - T > timeout"
  obtains jobs w' where "Reconcile (real_backends rng rngd) clock timeout w = (jobs, w')"
    "(d, name, c) \<in> set jobs" "under_way T rng d name c w'"
proof -
  let ?P = "\<lambda>r. dr_status r = ''provisioning'' \<and> dr_name r = name \<and> dr_cluster r = Some c \<and> dr_updated r \<le> T"
  have w: "world_ok w" "canonical w" "row_holds ?P d w" "pg_now (cw_pg w) \<le> T" "real_ready rng d name c w"
    using assms(1) by (simp_all add: under_way_def real_ready_def)
  then have "touch_stable (cw_pg w) ?P" by (simp add: touch_stable_def updated_database_def)
  from sweep [OF w(1-3) disjI1 [OF this] assms(2), of rng clock timeout] obtain jobs w'
    where r: "Reconcile (real_backends rng rngd) clock timeout w = (jobs, w')"
      "world_ok w'" "canonical w'" "row_holds ?P d w'" "same_hosts w w'" by blast
  obtain row where "find_row dr_id d (tb_databases (cw_tables w)) = Some row" "?P row"
    using w(3) by (auto simp: row_holds_def)
  with sweep_dispatches [where d = d and row = row and rng = rng and c = c and clock = clock and timeout = timeout,
      OF w(1,2) assms(2)] assms(3)
  have "(d, name, c) \<in> set jobs" by (auto simp: r(1))
  moreover have "under_way T rng d name c w'"
    using r real_ready_hosts [OF w(5) r(5,2)] w(4) by (simp add: under_way_def same_hosts_def)
  ultimately show thesis using that r(1) by blast
qed

lemma hosted_row:
  assumes "hosted_here d name node ep w"
  obtains d' row where "d \<noteq> []" "pg_uuid (cw_pg w) d = Some d'"
    "find_row dr_id d' (tb_databases (cw_tables w)) = Some row" "dr_status row = ''active''"
proof -
  obtain m where "GetDatabase (cw_pg w) d (cw_tables w) = Inr m" "di_status m = ''active''"
    using assms by (auto simp: hosted_here_def real_hosted_def)
  then show thesis
    using that by (auto simp: GetDatabase_def as_uuid_def round_trip_def database_message_def
        split: if_splits sum.splits option.splits)
qed

lemma GetDatabase_row:
  assumes "find_row dr_id d' (tb_databases t') = find_row dr_id d' (tb_databases t)" and "pg_uuid env d = Some d'"
  shows "GetDatabase env d t' = GetDatabase env d t"
  using assms by (simp add: GetDatabase_def as_uuid_def)

lemma sweep_hosted:
  assumes "hosted_here d name node ep w" and "\<And>rows. mset (rngd rows) = mset rows"
  obtains jobs w' where "Reconcile (real_backends rng rngd) clock timeout w = (jobs, w')"
    "d \<notin> fst ` set jobs" "hosted_here d name node ep w'"
proof -
  have w: "world_ok w" "canonical w" "real_hosted d name node ep w" using assms(1) by (simp_all add: hosted_here_def)
  obtain d' row where d': "d \<noteq> []" "pg_uuid (cw_pg w) d = Some d'"
    "find_row dr_id d' (tb_databases (cw_tables w)) = Some row" "dr_status row = ''active''"
    using assms(1) by (rule hosted_row)
  have "row_holds (\<lambda>r. r = row) d' w" "touch_stable (cw_pg w) (\<lambda>r. r = row) \<or> (\<forall>r. r = row \<longrightarrow> dr_status r \<noteq> ''provisioning'')"
    using d'(3,4) by (simp_all add: row_holds_def)
  from sweep [OF w(1,2) this assms(2), of rng clock timeout] obtain jobs w'
    where r: "Reconcile (real_backends rng rngd) clock timeout w = (jobs, w')"
      "world_ok w'" "canonical w'" "row_holds (\<lambda>r. r = row) d' w'" "same_hosts w w'"
    by blast
  have some_row: "row_holds (\<lambda>_. True) d' w" using d'(3) by (simp add: row_holds_def)
  have jobs: "fst ` set jobs \<subseteq> dr_id ` set (tb_databases (cw_tables w))"
    using sweep_ids [OF w(1,2) assms(2) some_row, of rng clock timeout] by (simp only: r(1) fst_conv)
  have "GetDatabase (cw_pg w') d (cw_tables w') = GetDatabase (cw_pg w) d (cw_tables w)"
  proof -
    have "find_row dr_id d' (tb_databases (cw_tables w')) = find_row dr_id d' (tb_databases (cw_tables w))"
      using r(4) d'(3) by (simp add: row_holds_def)
    from GetDatabase_row [OF this d'(2)] show ?thesis using r(5) by (simp add: same_hosts_def)
  qed
  then have "hosted_here d name node ep w'"
    using r w(3) by (simp add: hosted_here_def real_hosted_def same_hosts_def)
  moreover have "d \<notin> fst ` set jobs"
  proof
    assume "d \<in> fst ` set jobs"
    then have "d = d'" using jobs w(2) d'(2) by (auto simp: canonical_ids)
    then have "row_holds (\<lambda>r. dr_status r \<noteq> ''provisioning'') d w" using d'(3,4) by (simp add: row_holds_def)
    from sweep_spares [OF w(1,2) assms(2) this, of rng clock timeout] show False
      using \<open>d \<in> fst ` set jobs\<close> unfolding r(1) fst_conv by (rule notE)
  qed
  ultimately show thesis using that r(1) by blast
qed

section \<open>Lives of the control plane\<close>

text \<open>
  What a life does for one database: a sweep at a clock reading and, when the sweep dispatches
  the database, its job, which dies after so many calls. A life is the clock and the number;
  nineteen calls are all a job can make.
\<close>

definition life ::
  "(node_row list \<Rightarrow> node_row list) \<Rightarrow> (database_row list \<Rightarrow> database_row list) \<Rightarrow> int \<Rightarrow> string \<Rightarrow> string \<Rightarrow> string \<Rightarrow>
   (string \<Rightarrow> int) \<times> nat \<Rightarrow> cluster_world \<Rightarrow> cluster_world" where
  "life rng rngd timeout d name c l w =
     (case Reconcile (real_backends rng rngd) (fst l) timeout w of
        (jobs, w) \<Rightarrow> if (d, name, c) \<in> set jobs then dies_after (snd l) (real_services rng) d name c w else w)"

fun lives ::
  "(node_row list \<Rightarrow> node_row list) \<Rightarrow> (database_row list \<Rightarrow> database_row list) \<Rightarrow> int \<Rightarrow> string \<Rightarrow> string \<Rightarrow> string \<Rightarrow>
   ((string \<Rightarrow> int) \<times> nat) list \<Rightarrow> cluster_world \<Rightarrow> cluster_world" where
  "lives rng rngd timeout d name c [] w = w"
| "lives rng rngd timeout d name c (l # ls) w = lives rng rngd timeout d name c ls (life rng rngd timeout d name c l w)"

lemma life_hosted:
  assumes "hosted_here d name node ep w" and "\<And>rows. mset (rngd rows) = mset rows"
  shows "hosted_here d name node ep (life rng rngd timeout d name c l w)"
proof -
  obtain jobs w' where "Reconcile (real_backends rng rngd) (fst l) timeout w = (jobs, w')"
    "d \<notin> fst ` set jobs" "hosted_here d name node ep w'" using assms by (rule sweep_hosted)
  moreover from this have "(d, name, c) \<notin> set jobs" by force
  ultimately show ?thesis by (simp add: life_def)
qed

lemma life_under_way:
  assumes "under_way T rng d name c w" and "\<And>rows. mset (rngd rows) = mset rows" and "fst l d - T > timeout"
  shows "(under_way T rng d name c (life rng rngd timeout d name c l w) \<and> snd l < 19) \<or>
    (\<exists>node ep. hosted_here d name node ep (life rng rngd timeout d name c l w))"
proof -
  obtain jobs w' where r: "Reconcile (real_backends rng rngd) (fst l) timeout w = (jobs, w')"
    "(d, name, c) \<in> set jobs" "under_way T rng d name c w'" using assms by (rule sweep_under_way)
  then have life: "life rng rngd timeout d name c l w = dies_after (snd l) (real_services rng) d name c w'"
    by (simp add: life_def)
  have ready: "ready_here rng d name c w'" using r(3) by (simp add: ready_here_def under_way_def)
  show ?thesis
  proof (cases "snd l < 19")
    case True
    with crash.dies [OF ready r(3), of "snd l"] show ?thesis unfolding life by blast
  next
    case False
    then have "dies_after (snd l) (real_services rng) d name c w' = ProvisionDatabase (real_services rng) d name c w'"
      by (intro dies_after_all) simp
    with crash.provisions [OF ready] show ?thesis unfolding life by simp
  qed
qed

lemma lives_append: "lives rng rngd timeout d name c (ls @ ls') w =
    lives rng rngd timeout d name c ls' (lives rng rngd timeout d name c ls w)"
  by (induction ls arbitrary: w) simp_all

lemma lives_hosted:
  assumes "hosted_here d name node ep w" and "\<And>rows. mset (rngd rows) = mset rows"
  shows "hosted_here d name node ep (lives rng rngd timeout d name c ls w)"
  using assms(1) by (induction ls arbitrary: w) (simp_all add: life_hosted assms(2))

lemma life_keep:
  assumes "under_way T rng d name c w \<or> (\<exists>node ep. hosted_here d name node ep w)"
    and "\<And>rows. mset (rngd rows) = mset rows" and "fst l d - T > timeout"
  shows "(under_way T rng d name c (life rng rngd timeout d name c l w) \<and> snd l < 19) \<or>
    (\<exists>node ep. hosted_here d name node ep (life rng rngd timeout d name c l w))"
  using assms(1)
proof
  assume "under_way T rng d name c w"
  from life_under_way [OF this assms(2,3)] show ?thesis .
next
  assume "\<exists>node ep. hosted_here d name node ep w"
  with life_hosted [OF _ assms(2)] show ?thesis by blast
qed

lemma lives_keep:
  assumes "under_way T rng d name c w \<or> (\<exists>node ep. hosted_here d name node ep w)"
    and "\<And>rows. mset (rngd rows) = mset rows" and "\<And>l. l \<in> set ls \<Longrightarrow> fst l d - T > timeout"
  shows "under_way T rng d name c (lives rng rngd timeout d name c ls w) \<or>
    (\<exists>node ep. hosted_here d name node ep (lives rng rngd timeout d name c ls w))"
  using assms(1,3)
proof (induction ls arbitrary: w)
  case (Cons l ls)
  have "under_way T rng d name c (life rng rngd timeout d name c l w) \<or>
      (\<exists>node ep. hosted_here d name node ep (life rng rngd timeout d name c l w))"
    using life_keep [OF Cons.prems(1) assms(2) Cons.prems(2) [of l]] by auto
  from Cons.IH [OF this] Cons.prems(2) show ?case by simp
qed simp


lemma demo_under_way: "under_way 7 (go_range 0) ''d1'' ''orders'' ''c1'' demo_accepted"
proof -
  have "list_ex row_placeable (cluster_nodes ''c1'' demo_accepted)" by code_simp
  moreover have "list_all (\<lambda>n. row_placeable n \<longrightarrow> nr_hostname n \<noteq> [] \<and>
      agent_takes ''d1'' ''orders'' (cw_agents demo_accepted (agent_address (nr_hostname n)))) (cluster_nodes ''c1'' demo_accepted)"
    by code_simp
  moreover have "pg_uuid (cw_pg demo_accepted) ''d1'' = Some ''d1''" by code_simp
  moreover have "list_ex (\<lambda>r. dr_id r = ''d1'') (tb_databases (cw_tables demo_accepted))" by code_simp
  then obtain r where r: "r \<in> set (tb_databases (cw_tables demo_accepted))" "dr_id r = ''d1''" unfolding list_ex_iff by blast
  have "''d1'' \<in> dr_id ` set (tb_databases (cw_tables demo_accepted))" using imageI [OF r(1), of dr_id] by (simp only: r(2))
  moreover have "mset (go_range 0 rows) = mset rows" for rows :: "node_row list" by (rule ranged.rng_mset)
  ultimately have ready: "real_ready (go_range 0) ''d1'' ''orders'' ''c1'' demo_accepted"
    using demo_accepted_ok unfolding real_ready_def has_record_def list_ex_iff list_all_iff by simp
  have "list_all (\<lambda>r. dr_id r \<noteq> [] \<and> pg_uuid (cw_pg demo_accepted) (dr_id r) = Some (dr_id r))
      (tb_databases (cw_tables demo_accepted))" by code_simp
  then have "canonical demo_accepted" by (simp add: canonical_def list_all_iff)
  moreover have "pg_now (cw_pg demo_accepted) \<le> 7" by code_simp
  moreover have "case find_row dr_id ''d1'' (tb_databases (cw_tables demo_accepted)) of None \<Rightarrow> False
      | Some r \<Rightarrow> dr_status r = ''provisioning'' \<and> dr_name r = ''orders'' \<and> dr_cluster r = Some ''c1'' \<and> dr_updated r \<le> 7"
    by code_simp
  then have "row_holds (\<lambda>r. dr_status r = ''provisioning'' \<and> dr_name r = ''orders'' \<and> dr_cluster r = Some ''c1'' \<and>
      dr_updated r \<le> 7) ''d1'' demo_accepted"
    by (cases "find_row dr_id ''d1'' (tb_databases (cw_tables demo_accepted))") (simp_all only: row_holds_def option.case simp_thms ex_simps option.inject)
  ultimately show ?thesis using ready by (simp only: under_way_def simp_thms)
qed


section \<open>Deletions\<close>

text \<open>The jobs that sweeps at these clock readings dispatch, and the world after them.\<close>

fun sweeps ::
  "(node_row list \<Rightarrow> node_row list) \<Rightarrow> (database_row list \<Rightarrow> database_row list) \<Rightarrow> int \<Rightarrow>
   (string \<Rightarrow> int) list \<Rightarrow> cluster_world \<Rightarrow> job list \<times> cluster_world" where
  "sweeps rng rngd timeout [] w = ([], w)"
| "sweeps rng rngd timeout (clock # cs) w =
     (case Reconcile (real_backends rng rngd) clock timeout w of
        (jobs, w) \<Rightarrow> (case sweeps rng rngd timeout cs w of (jobs', w) \<Rightarrow> (jobs @ jobs', w)))"

lemma sweeps_spare:
  assumes "world_ok w" and "canonical w" and "\<And>rows. mset (rngd rows) = mset rows"
    and "row_holds (\<lambda>r. r = row) d w" and "dr_status row \<noteq> ''provisioning''"
  shows "d \<notin> fst ` set (fst (sweeps rng rngd timeout cs w)) \<and>
    row_holds (\<lambda>r. r = row) d (snd (sweeps rng rngd timeout cs w)) \<and> same_hosts w (snd (sweeps rng rngd timeout cs w))"
  using assms(1,2,4)
proof (induction cs arbitrary: w)
  case Nil
  then show ?case by (simp add: same_hosts_def)
next
  case (Cons clock cs)
  have "touch_stable (cw_pg w) (\<lambda>r. r = row) \<or> (\<forall>r. r = row \<longrightarrow> dr_status r \<noteq> ''provisioning'')" using assms(5) by simp
  from sweep [OF Cons.prems this assms(3), of rng clock timeout] obtain jobs w'
    where r: "Reconcile (real_backends rng rngd) clock timeout w = (jobs, w')"
      "world_ok w'" "canonical w'" "row_holds (\<lambda>r. r = row) d w'" "same_hosts w w'" by blast
  have "row_holds (\<lambda>r. dr_status r \<noteq> ''provisioning'') d w" using Cons.prems(3) assms(5) by (simp add: row_holds_def)
  from sweep_spares [OF Cons.prems(1,2) assms(3) this, of rng clock timeout] have "d \<notin> fst ` set jobs"
    unfolding r(1) fst_conv .
  with Cons.IH [OF r(2-4)] r(5) show ?case
    by (cases "sweeps rng rngd timeout cs w'") (auto simp: r(1) same_hosts_def)
qed

text \<open>
  C16. A deletion does not survive a crash. When the control plane dies after it has answered
  a delete request and before its background job runs, no later sweep dispatches anything for
  the database: its record stays, marked as being deleted, and every agent keeps what it has.
\<close>

theorem deletion_is_not_resumed:
  assumes "world_ok w" and "canonical w" and "pg_uuid (cw_pg w) d = Some d" and "\<And>rows. mset (rngd rows) = mset rows"
    and "handleDeleteDatabase (real_backends rng rngd) d w = (Http_Body 200 True, Some db, w1)"
  shows "d \<notin> fst ` set (fst (sweeps rng rngd timeout cs w1)) \<and>
    (\<exists>m. GetDatabase (cw_pg w) d (cw_tables (snd (sweeps rng rngd timeout cs w1))) = Inr m \<and> di_status m = ''deleting'') \<and>
    cw_agents (snd (sweeps rng rngd timeout cs w1)) = cw_agents w"
proof -
  have d: "d \<noteq> []" "has_record d w"
    using assms(5) by (auto simp: handleDeleteDatabase_def real_backends_def GetDatabase_def has_record_def as_uuid_def
        round_trip_def find_row_None split: if_splits sum.splits option.splits dest!: find_row_Some)
  obtain t where t: "UpdateDatabaseStatus (cw_pg w) d ''deleting'' [] [] 0 (cw_tables w) = (Inr True, t)"
    and t1: "world_ok (w\<lparr>cw_tables := t\<rparr>)" "has_record d (w\<lparr>cw_tables := t\<rparr>)" "tb_nodes t = tb_nodes (cw_tables w)"
    using assms(1) d(2) by (rule marking)
  have w1: "w1 = w\<lparr>cw_tables := t\<rparr>"
    using assms(5) d(1) t by (auto simp: handleDeleteDatabase_def real_backends_def on_tables_def split: sum.splits)
  obtain d' where d': "pg_uuid (cw_pg w) d = Some d'" "find_row dr_id d' (tb_databases (cw_tables w)) \<noteq> None"
      "node_ref (cw_pg w) [] \<in> insert None (Some ` nr_id ` set (tb_nodes (cw_tables w)))"
    and t': "t = (cw_tables w)\<lparr>tb_databases := update_rows dr_id d' (updated_database (cw_pg w) ''deleting'' (node_ref (cw_pg w) []) [] 0) (tb_databases (cw_tables w)),
            tb_replicas := (case node_ref (cw_pg w) [] of None \<Rightarrow> tb_replicas (cw_tables w)
              | Some n \<Rightarrow> filter (\<lambda>r. rr_database r \<noteq> d') (tb_replicas (cw_tables w)) @
                  [\<lparr>rr_database = d', rr_node = n, rr_role = ''leader''\<rparr>])\<rparr>"
    using t by (rule UpdateDatabaseStatus_success)
  obtain row where row: "find_row dr_id d (tb_databases t) = Some row" "dr_status row = ''deleting''"
    using d'(1,2) assms(3) by (auto simp: t' find_update_rows updated_database_def)
  have can: "canonical w1" using canonical_update [OF assms(2) t] by (simp add: w1)
  have holds: "row_holds (\<lambda>r. r = row) d w1" using row(1) by (simp add: row_holds_def w1)
  let ?w = "snd (sweeps rng rngd timeout cs w1)"
  have s: "d \<notin> fst ` set (fst (sweeps rng rngd timeout cs w1))" "row_holds (\<lambda>r. r = row) d ?w" "same_hosts w1 ?w"
    using sweeps_spare [OF t1(1) [folded w1] can assms(4) holds, of rng timeout cs] row(2) by simp_all
  have "dr_cluster row \<noteq> None"
    using t1(1) find_row_Some [OF row(1)] by (auto simp: world_ok_def registry_ok_def database_keys_ok_def)
  then have "\<exists>m. GetDatabase (cw_pg w) d (cw_tables ?w) = Inr m \<and> di_status m = ''deleting''"
    using s(2) row(2) d(1) assms(1,3)
    by (auto simp: GetDatabase_def row_holds_def as_uuid_def round_trip_def world_ok_def env_fine_def database_message_def)
  with s show ?thesis by (simp add: same_hosts_def w1)
qed

theorem deletion_is_not_resumed_witness:
  "\<exists>db w1. handleDeleteDatabase (real_backends (go_range 0) (go_range 0)) ''d1'' demo_accepted = (Http_Body 200 True, Some db, w1) \<and>
    ''d1'' \<notin> fst ` set (fst (sweeps (go_range 0) (go_range 0) (30 * second) [\<lambda>_. 60 * second, \<lambda>_. 120 * second] w1)) \<and>
    (\<exists>m. GetDatabase (cw_pg demo_accepted) ''d1''
        (cw_tables (snd (sweeps (go_range 0) (go_range 0) (30 * second) [\<lambda>_. 60 * second, \<lambda>_. 120 * second] w1))) = Inr m \<and>
      di_status m = ''deleting'') \<and>
    cw_agents (snd (sweeps (go_range 0) (go_range 0) (30 * second) [\<lambda>_. 60 * second, \<lambda>_. 120 * second] w1)) = cw_agents demo_accepted"
proof -
  let ?r = "handleDeleteDatabase (real_backends (go_range 0) (go_range 0)) ''d1'' demo_accepted"
  have "fst ?r = Http_Body 200 True" "fst (snd ?r) \<noteq> None" by code_simp+
  then obtain db w1 where del: "?r = (Http_Body 200 True, Some db, w1)" by (metis not_Some_eq prod.collapse)
  have can: "canonical demo_accepted" using demo_under_way by (simp add: under_way_def)
  have d: "pg_uuid (cw_pg demo_accepted) ''d1'' = Some ''d1''" by code_simp
  have perm: "mset (go_range 0 rows) = mset rows" for rows :: "database_row list" by (rule ranged.rng_mset)
  show ?thesis
    by (rule exI [of _ db], rule exI [of _ w1], rule conjI [OF del])
      (rule deletion_is_not_resumed [OF demo_accepted_ok can d perm del])
qed

end
