(* ===== verification/Metrics.thy ===== *)
theory Metrics
  imports Gateway Worker
begin

text \<open>
  \<^verbatim>\<open>services/observability/telemetry/metrics.go\<close>: the metric vectors, the places
  in the services that record something in them, and what the alert rules of
  \<^verbatim>\<open>deploy/observability/alert.rules.yml\<close> can see.
\<close>

section \<open>Vectors\<close>

text \<open>A kind, the bounds of the buckets of a histogram, and the names of the labels.\<close>

datatype metric_kind = Counter | Gauge | Histogram "rat list"

record metric =
  mt_name :: string
  mt_kind :: metric_kind
  mt_labels :: "string list"

definition RequestDurationSeconds :: metric where
  "RequestDurationSeconds =
     \<lparr>mt_name = ''request_duration_seconds'',
      mt_kind = Histogram [5/1000, 1/100, 25/1000, 5/100, 1/10, 1/4, 1/2, 1, 5/2, 5],
      mt_labels = [''service'', ''method'', ''code'']\<rparr>"

definition RequestsTotal :: metric where
  "RequestsTotal = \<lparr>mt_name = ''requests_total'', mt_kind = Counter, mt_labels = [''service'', ''method'', ''status'']\<rparr>"

definition ErrorsTotal :: metric where
  "ErrorsTotal = \<lparr>mt_name = ''errors_total'', mt_kind = Counter, mt_labels = [''service'', ''method'', ''error_type'']\<rparr>"

definition ActiveConnections :: metric where
  "ActiveConnections = \<lparr>mt_name = ''active_connections'', mt_kind = Gauge, mt_labels = [''service'']\<rparr>"

definition RegionHealth :: metric where
  "RegionHealth = \<lparr>mt_name = ''region_health'', mt_kind = Gauge, mt_labels = [''region'']\<rparr>"

definition CPUUsagePercent :: metric where
  "CPUUsagePercent = \<lparr>mt_name = ''cpu_usage_percent'', mt_kind = Gauge, mt_labels = [''node_id'', ''hostname'']\<rparr>"

definition MemoryUsagePercent :: metric where
  "MemoryUsagePercent = \<lparr>mt_name = ''memory_usage_percent'', mt_kind = Gauge, mt_labels = [''node_id'', ''hostname'']\<rparr>"

definition DiskUsagePercent :: metric where
  "DiskUsagePercent = \<lparr>mt_name = ''disk_usage_percent'', mt_kind = Gauge, mt_labels = [''node_id'', ''hostname'']\<rparr>"

definition ReplicationLagSeconds :: metric where
  "ReplicationLagSeconds =
     \<lparr>mt_name = ''replication_lag_seconds'', mt_kind = Gauge, mt_labels = [''database_id'', ''target_region'']\<rparr>"

text \<open>What \<^verbatim>\<open>init\<close> registers, in its order.\<close>

definition registered :: "metric list" where
  "registered = [RequestDurationSeconds, RequestsTotal, ErrorsTotal, ActiveConnections, RegionHealth,
     CPUUsagePercent, MemoryUsagePercent, DiskUsagePercent, ReplicationLagSeconds]"

section \<open>Recording\<close>

text \<open>
  The samples of one process, a value for each vector and tuple of label values. The client
  library panics when a vector is registered under a name that is taken, and when it is given
  another number of label values than it has labels.
\<close>

type_synonym series = "string \<times> string list"

record samples =
  sp_counts :: "series \<Rightarrow> nat"
  sp_levels :: "series \<Rightarrow> go_float option"

definition no_samples :: samples where
  "no_samples = \<lparr>sp_counts = (\<lambda>_. 0), sp_levels = (\<lambda>_. None)\<rparr>"

datatype metric_op = Inc metric "string list" | SetTo metric "string list" go_float

fun record_op :: "metric_op \<Rightarrow> samples \<Rightarrow> samples option" where
  "record_op (Inc m ls) s =
     (if length ls = length (mt_labels m)
      then Some (s\<lparr>sp_counts := (sp_counts s)((mt_name m, ls) := Suc (sp_counts s (mt_name m, ls)))\<rparr>) else None)"
| "record_op (SetTo m ls v) s =
     (if length ls = length (mt_labels m)
      then Some (s\<lparr>sp_levels := (sp_levels s)((mt_name m, ls) \<mapsto> v)\<rparr>) else None)"

fun record_ops :: "metric_op list \<Rightarrow> samples \<Rightarrow> samples option" where
  "record_ops [] s = Some s"
| "record_ops (op # ops) s = (case record_op op s of None \<Rightarrow> None | Some s \<Rightarrow> record_ops ops s)"

text \<open>What the creation handler of the gateway records beside its answer.\<close>

definition create_ops :: "create_answer http_answer \<Rightarrow> metric_op list" where
  "create_ops ans =
     (case ans of
        Http_Error code _ \<Rightarrow>
          if code = 503 then [Inc ErrorsTotal [''gateway'', ''create_database'', ''routing_failed'']]
          else if code = 500 then [Inc ErrorsTotal [''gateway'', ''create_database'', ''metadata_failed'']]
          else []
      | Http_Body _ _ \<Rightarrow> [Inc RequestsTotal [''gateway'', ''create_database'', ''202'']])"

text \<open>The middleware, beside its rejection: only a role that does not suffice is counted.\<close>

definition rbac_ops :: "http_reject + 'r \<Rightarrow> metric_op list" where
  "rbac_ops r =
     (case r of
        Inl (Reject code _) \<Rightarrow> if code = 403 then [Inc ErrorsTotal [''auth'', ''rbac'', ''forbidden'']] else []
      | Inr _ \<Rightarrow> [])"

text \<open>The worker, with each heartbeat it sends.\<close>

definition heartbeat_ops :: "string \<Rightarrow> heartbeat \<Rightarrow> metric_op list" where
  "heartbeat_ops hostname hb =
     [SetTo CPUUsagePercent [hb_node hb, hostname] (hb_cpu hb),
      SetTo MemoryUsagePercent [hb_node hb, hostname] (hb_mem hb),
      SetTo DiskUsagePercent [hb_node hb, hostname] (hb_disk hb)]"

definition program_op :: "metric_op \<Rightarrow> bool" where
  "program_op op \<longleftrightarrow> (\<exists>ans. op \<in> set (create_ops ans)) \<or> (\<exists>r :: http_reject + unit. op \<in> set (rbac_ops r)) \<or>
     (\<exists>hostname hb. op \<in> set (heartbeat_ops hostname hb))"

lemma record_ops_append:
  "record_ops (ops @ ops') s = (case record_ops ops s of None \<Rightarrow> None | Some s \<Rightarrow> record_ops ops' s)"
  by (induction ops arbitrary: s) (auto split: option.split)

lemma program_op_shape:
  assumes "program_op op"
  shows "case op of
      Inc m ls \<Rightarrow> (m = RequestsTotal \<or> m = ErrorsTotal) \<and> length ls = 3
    | SetTo m ls v \<Rightarrow> (m = CPUUsagePercent \<or> m = MemoryUsagePercent \<or> m = DiskUsagePercent) \<and> length ls = 2"
    (is "?shape op")
proof -
  have "?shape op" if "op \<in> set (create_ops ans)" for ans
    using that by (cases ans) (auto simp: create_ops_def split: if_splits)
  moreover have "?shape op" if "op \<in> set (rbac_ops r)" for r :: "http_reject + unit"
    using that by (auto simp: rbac_ops_def split: sum.splits http_reject.splits if_splits)
  moreover have "?shape op" if "op \<in> set (heartbeat_ops hostname hb)" for hostname hb
    using that by (auto simp: heartbeat_ops_def)
  ultimately show ?thesis using assms unfolding program_op_def by blast
qed

lemma program_op_cases:
  assumes "program_op op"
  obtains (requests) ls where "op = Inc RequestsTotal ls" "length ls = 3"
  | (errors) ls where "op = Inc ErrorsTotal ls" "length ls = 3"
  | (cpu) ls v where "op = SetTo CPUUsagePercent ls v" "length ls = 2"
  | (memory) ls v where "op = SetTo MemoryUsagePercent ls v" "length ls = 2"
  | (disk) ls v where "op = SetTo DiskUsagePercent ls v" "length ls = 2"
  using program_op_shape [OF assms] by (cases op) (auto intro: that)

text \<open>
  Recording never panics: the registered names are distinct, and every vector is given as
  many label values as it has labels, in whatever order the services record.
\<close>

lemma registered_names: "distinct (map mt_name registered)"
  by code_simp

lemma record_program_op: "program_op op \<Longrightarrow> record_op op s \<noteq> None"
  by (erule program_op_cases)
    (simp_all add: RequestsTotal_def ErrorsTotal_def CPUUsagePercent_def MemoryUsagePercent_def DiskUsagePercent_def)

theorem recording_never_panics:
  assumes "list_all program_op ops"
  shows "distinct (map mt_name registered) \<and> (\<exists>s'. record_ops ops s = Some s')"
proof
  show "\<exists>s'. record_ops ops s = Some s'"
    using assms
  proof (induction ops arbitrary: s)
    case (Cons op ops)
    then obtain s1 where "record_op op s = Some s1" using record_program_op [of op s] by auto
    with Cons show ?case by simp
  qed simp
qed (rule registered_names)

section \<open>Counting creations\<close>

text \<open>Creation requests served one after the other.\<close>

fun serve_creates ::
  "gateway_env \<Rightarrow> 'w gateway \<Rightarrow> (string + create_body) list \<Rightarrow> 'w \<Rightarrow> create_answer http_answer list \<times> 'w" where
  "serve_creates ge gw [] w = ([], w)"
| "serve_creates ge gw (b # bs) w =
     (case gateway_create ge gw b w of
        (ans, w) \<Rightarrow> (case serve_creates ge gw bs w of (anss, w) \<Rightarrow> (ans # anss, w)))"

fun accepted :: "'a http_answer \<Rightarrow> bool" where
  "accepted (Http_Body code _) = True"
| "accepted (Http_Error code _) = False"

fun server_error :: "'a http_answer \<Rightarrow> bool" where
  "server_error (Http_Body code _) = False"
| "server_error (Http_Error code _) \<longleftrightarrow> code \<ge> 500"

lemma gateway_create_codes:
  assumes "gateway_create ge gw b w = (ans, w')"
  obtains msg where "ans = Http_Error 400 msg" | msg where "ans = Http_Error 503 msg"
  | msg where "ans = Http_Error 500 msg" | a where "ans = Http_Body 202 a"
  using assms by (auto simp: gateway_create_def Let_def split: sum.splits if_splits prod.splits)

definition accepted_series :: series where
  "accepted_series = (''requests_total'', [''gateway'', ''create_database'', ''202''])"

definition failed_series :: "string \<Rightarrow> series" where
  "failed_series what = (''errors_total'', [''gateway'', ''create_database'', what])"

lemma series_distinct [simp]:
  "accepted_series \<noteq> failed_series what" "failed_series what \<noteq> accepted_series"
  "failed_series what = failed_series what' \<longleftrightarrow> what = what'"
  by (simp_all add: accepted_series_def failed_series_def)

lemma record_create:
  "record_ops (create_ops (Http_Error 400 msg)) s = Some s"
  "record_ops (create_ops (Http_Error 503 msg)) s =
     Some (s\<lparr>sp_counts := (sp_counts s)(failed_series ''routing_failed'' := Suc (sp_counts s (failed_series ''routing_failed'')))\<rparr>)"
  "record_ops (create_ops (Http_Error 500 msg)) s =
     Some (s\<lparr>sp_counts := (sp_counts s)(failed_series ''metadata_failed'' := Suc (sp_counts s (failed_series ''metadata_failed'')))\<rparr>)"
  "record_ops (create_ops (Http_Body 202 a)) s =
     Some (s\<lparr>sp_counts := (sp_counts s)(accepted_series := Suc (sp_counts s accepted_series))\<rparr>)"
  by (simp_all add: create_ops_def ErrorsTotal_def RequestsTotal_def accepted_series_def failed_series_def)

text \<open>
  The counters of the gateway say what it answered: after any sequence of creation requests
  the counter of accepted requests has grown by the number of accepted ones and the two error
  counters together by the number of server errors. Requests it refuses as malformed, and all
  requests of other routes, are counted nowhere.
\<close>

theorem creations_are_counted:
  assumes "serve_creates ge gw bs w = (anss, w')"
  shows "\<exists>s'. record_ops (concat (map create_ops anss)) s = Some s' \<and>
    sp_counts s' accepted_series = sp_counts s accepted_series + length (filter accepted anss) \<and>
    sp_counts s' (failed_series ''routing_failed'') + sp_counts s' (failed_series ''metadata_failed'') =
      sp_counts s (failed_series ''routing_failed'') + sp_counts s (failed_series ''metadata_failed'') +
      length (filter server_error anss) \<and>
    sp_levels s' = sp_levels s"
  using assms
proof (induction bs arbitrary: w anss s w')
  case (Cons b bs)
  obtain ans w1 where a: "gateway_create ge gw b w = (ans, w1)" by fastforce
  obtain rest w2 where r: "serve_creates ge gw bs w1 = (rest, w2)" by fastforce
  have anss: "anss = ans # rest" using Cons.prems a r by simp
  obtain s1 where s1: "record_ops (create_ops ans) s = Some s1" "sp_levels s1 = sp_levels s"
    "sp_counts s1 accepted_series = sp_counts s accepted_series + length (filter accepted [ans])"
    "sp_counts s1 (failed_series ''routing_failed'') + sp_counts s1 (failed_series ''metadata_failed'') =
      sp_counts s (failed_series ''routing_failed'') + sp_counts s (failed_series ''metadata_failed'') +
      length (filter server_error [ans])"
    using a by (rule gateway_create_codes) (auto simp: record_create)
  from Cons.IH [OF r, of s1] obtain s' where "record_ops (concat (map create_ops rest)) s1 = Some s'"
    "sp_counts s' accepted_series = sp_counts s1 accepted_series + length (filter accepted rest)"
    "sp_counts s' (failed_series ''routing_failed'') + sp_counts s' (failed_series ''metadata_failed'') =
      sp_counts s1 (failed_series ''routing_failed'') + sp_counts s1 (failed_series ''metadata_failed'') +
      length (filter server_error rest)"
    "sp_levels s' = sp_levels s1" by blast
  then show ?case
    using s1 by (intro exI [of _ s']) (simp add: anss record_ops_append)
qed simp

section \<open>What the alert rules see\<close>

text \<open>
  The conditions of the rules on the samples of a process. A comparison of a gauge holds of
  the series of that name whose value satisfies it, so it needs a series. The rule on latency
  needs observations of the histogram, and there is no operation that makes one: its series
  are among those a process has under the name of the vector.
\<close>

definition has_series :: "string \<Rightarrow> samples \<Rightarrow> bool" where
  "has_series name s \<longleftrightarrow> (\<exists>ls. sp_counts s (name, ls) > 0 \<or> sp_levels s (name, ls) \<noteq> None)"

definition NodeDown :: "samples \<Rightarrow> bool" where
  "NodeDown s \<longleftrightarrow> (\<exists>ls v. sp_levels s (''cpu_usage_percent'', ls) = Some v \<and> feq v (Fin 0))"

definition RegionDown :: "samples \<Rightarrow> bool" where
  "RegionDown s \<longleftrightarrow> (\<exists>ls v. sp_levels s (''region_health'', ls) = Some v \<and> feq v (Fin 0))"

definition HighReplicationLag :: "samples \<Rightarrow> bool" where
  "HighReplicationLag s \<longleftrightarrow> (\<exists>ls v. sp_levels s (''replication_lag_seconds'', ls) = Some v \<and> flt (Fin 5) v)"

definition HighLatency_possible :: "samples \<Rightarrow> bool" where
  "HighLatency_possible s \<longleftrightarrow> has_series ''request_duration_seconds'' s"

lemma record_program_series:
  assumes "program_op op" and "record_op op s = Some s'"
    and "name \<notin> {''requests_total'', ''errors_total'', ''cpu_usage_percent'', ''memory_usage_percent'', ''disk_usage_percent''}"
  shows "sp_counts s' (name, ls) = sp_counts s (name, ls) \<and> sp_levels s' (name, ls) = sp_levels s (name, ls)"
  using assms(1)
  by (cases rule: program_op_cases)
    (use assms(2,3) in \<open>auto simp: RequestsTotal_def ErrorsTotal_def CPUUsagePercent_def MemoryUsagePercent_def DiskUsagePercent_def
       split: if_splits\<close>)

lemma recorded_series:
  assumes "list_all program_op ops" and "record_ops ops s = Some s'"
    and "name \<notin> {''requests_total'', ''errors_total'', ''cpu_usage_percent'', ''memory_usage_percent'', ''disk_usage_percent''}"
  shows "has_series name s' = has_series name s"
  using assms(1,2)
proof (induction ops arbitrary: s)
  case (Cons op ops)
  then obtain s1 where s1: "record_op op s = Some s1" "record_ops ops s1 = Some s'" by (auto split: option.splits)
  have "has_series name s1 = has_series name s"
    using record_program_series [OF _ s1(1) assms(3)] Cons.prems(1) by (simp add: has_series_def)
  with Cons s1(2) show ?case by simp
qed simp

text \<open>
  Three of the five rules can never fire: whatever the services record, in whatever order and
  number, no series of the region health, of the replication lag or of the request durations
  ever exists.
\<close>

theorem alerts_that_never_fire:
  assumes "list_all program_op ops" and "record_ops ops no_samples = Some s"
  shows "\<not> RegionDown s \<and> \<not> HighReplicationLag s \<and> \<not> HighLatency_possible s"
proof -
  have none: "\<not> has_series name s"
    if "name \<notin> {''requests_total'', ''errors_total'', ''cpu_usage_percent'', ''memory_usage_percent'', ''disk_usage_percent''}" for name
    using recorded_series [OF assms that] by (simp add: has_series_def no_samples_def)
  have "\<not> has_series ''region_health'' s" "\<not> has_series ''replication_lag_seconds'' s"
    "\<not> has_series ''request_duration_seconds'' s"
    by (rule none; simp)+
  then show ?thesis
    unfolding RegionDown_def HighReplicationLag_def HighLatency_possible_def has_series_def by (metis option.distinct(1))
qed

text \<open>What a worker's process has recorded after some events.\<close>

definition worker_ops :: "worker_config \<Rightarrow> string \<Rightarrow> worker_event list \<Rightarrow> metric_op list" where
  "worker_ops cfg nodeID es =
     concat (map (heartbeat_ops (wc_hostname cfg)) (fst (worker_run es (start_worker cfg nodeID))))"

lemma worker_run_append:
  "worker_run (es @ es') w =
     (let (sent, w1) = worker_run es w; (later, w2) = worker_run es' w1 in (sent @ later, w2))"
  by (induction es arbitrary: w) (auto simp: Let_def split: prod.split)

lemma paused_ticks: "wk_paused w \<Longrightarrow> worker_run (map Tick rnds) w = ([], w)"
  by (induction rnds) (simp_all add: heartbeat_tick_def)

lemma heartbeat_node: "worker_step e w = (sent, w') \<Longrightarrow>
    wk_node w' = wk_node w \<and> (\<forall>hb \<in> set sent. hb_node hb = wk_node w)"
  by (cases e) (auto simp: heartbeat_tick_def debug_request_def Let_def split: if_splits debug_path.splits prod.splits)

lemma run_node: "\<forall>hb \<in> set (fst (worker_run es w)). hb_node hb = wk_node w"
proof (induction es arbitrary: w)
  case (Cons e es)
  obtain sent w1 where e: "worker_step e w = (sent, w1)" by fastforce
  with Cons [of w1] heartbeat_node [OF e] show ?case by (auto simp: Let_def split: prod.splits)
qed simp

text \<open>The gauge is that of the last heartbeat, and the worker has no other.\<close>

lemma heartbeat_levels:
  assumes "\<forall>hb \<in> set hbs. hb_node hb = n"
  shows "\<exists>s'. record_ops (concat (map (heartbeat_ops host) hbs)) s = Some s' \<and>
    (\<forall>ls. sp_levels s' (''cpu_usage_percent'', ls) =
       (if hbs \<noteq> [] \<and> ls = [n, host] then Some (hb_cpu (last hbs)) else sp_levels s (''cpu_usage_percent'', ls)))"
  using assms
proof (induction hbs arbitrary: s)
  case (Cons hb hbs)
  obtain s1 where s1: "record_ops (heartbeat_ops host hb) s = Some s1"
    "\<And>ls. sp_levels s1 (''cpu_usage_percent'', ls) =
       (if ls = [n, host] then Some (hb_cpu hb) else sp_levels s (''cpu_usage_percent'', ls))"
    using Cons.prems by (auto simp: heartbeat_ops_def CPUUsagePercent_def MemoryUsagePercent_def DiskUsagePercent_def)
  from Cons.IH [of s1] Cons.prems obtain s' where "record_ops (concat (map (heartbeat_ops host) hbs)) s1 = Some s'"
    "\<forall>ls. sp_levels s' (''cpu_usage_percent'', ls) =
       (if hbs \<noteq> [] \<and> ls = [n, host] then Some (hb_cpu (last hbs)) else sp_levels s1 (''cpu_usage_percent'', ls))" by auto
  with s1 show ?case by (intro exI [of _ s']) (auto simp: record_ops_append)
qed simp

text \<open>
  The alert for a lost node watches the simulated load, not the heartbeats. On the
  samples of a worker it holds exactly when the load in the last heartbeat sent was zero; a
  worker whose heartbeats stop changes nothing about it, however many ticks pass.
\<close>

theorem NodeDown_watches_load:
  assumes "es' = es @ Debug ''POST'' Pause # map Tick rnds"
  shows "\<exists>s. record_ops (worker_ops cfg nodeID es) no_samples = Some s \<and>
    record_ops (worker_ops cfg nodeID es') no_samples = Some s \<and>
    (let sent = fst (worker_run es (start_worker cfg nodeID))
     in NodeDown s \<longleftrightarrow> sent \<noteq> [] \<and> feq (hb_cpu (last sent)) (Fin 0))"
proof -
  let ?w = "start_worker cfg nodeID"
  obtain sent w1 where run: "worker_run es ?w = (sent, w1)" by fastforce
  have "wk_paused (snd (debug_request ''POST'' Pause w1))" by (simp add: debug_request_def)
  then have "fst (worker_run es' ?w) = sent"
    by (simp add: assms worker_run_append run paused_ticks)
  then have same: "worker_ops cfg nodeID es' = worker_ops cfg nodeID es" by (simp add: worker_ops_def run)
  have "wk_node ?w = nodeID" by (simp add: start_worker_def)
  with run_node [of es ?w] have "\<forall>hb \<in> set sent. hb_node hb = nodeID" by (simp only: run fst_conv)
  from heartbeat_levels [OF this, of "wc_hostname cfg" no_samples] obtain s
    where s: "record_ops (worker_ops cfg nodeID es) no_samples = Some s"
      "\<forall>ls. sp_levels s (''cpu_usage_percent'', ls) =
         (if sent \<noteq> [] \<and> ls = [nodeID, wc_hostname cfg] then Some (hb_cpu (last sent)) else None)"
    by (auto simp: worker_ops_def run no_samples_def)
  then have "NodeDown s \<longleftrightarrow> sent \<noteq> [] \<and> feq (hb_cpu (last sent)) (Fin 0)" by (auto simp: NodeDown_def)
  with s(1) same run show ?thesis by auto
qed

text \<open>
  Both ways round: a worker that is up, on the draws of which the load falls to zero, raises
  the alert, and one that has fallen silent with any other load does not.
\<close>

definition falling :: "worker_event list" where
  "falling = replicate 25 (Tick (Fin 0, Fin 0, Fin 0))"

lemma falling_draws: "list_all draws_ok falling"
  by code_simp

definition demo_worker :: worker_config where
  "demo_worker = Load_worker no_settings"

lemma fround_single_int: "- 1000 \<le> k \<Longrightarrow> k \<le> 1000 \<Longrightarrow> fround F32 (of_int k) = Fin (of_int k)"
  using fround_small_ints [of k k "of_int k"] by force

lemma walk_down:
  assumes "2 \<le> k" and "k \<le> 100"
  shows "randomWalk (Fin 0) (Fin (of_int k)) = Fin (of_int (k - 2))"
proof -
  have "fround F32 0 = Fin 0" "fround F32 (- 2) = Fin (- 2)" "fround F32 (of_int k - 2) = Fin (of_int k - 2)"
    using fround_single_int [of 0] fround_single_int [of "- 2"] fround_single_int [of "k - 2"] assms by simp_all
  then show ?thesis using assms by (simp add: randomWalk_def fsub_def Let_def)
qed

lemma falling_run:
  assumes "n \<le> 25"
  shows "\<exists>hbs w. worker_run (replicate n (Tick (Fin 0, Fin 0, Fin 0))) (start_worker cfg nodeID) = (hbs, w) \<and>
    \<not> wk_paused w \<and> wk_cpu w = Fin (of_int (50 - 2 * int n)) \<and> (n \<noteq> 0 \<longrightarrow> hbs \<noteq> [] \<and> hb_cpu (last hbs) = wk_cpu w)"
  using assms
proof (induction n)
  case 0
  then show ?case by (simp add: start_worker_def)
next
  case (Suc n)
  then obtain hbs w where run: "worker_run (replicate n (Tick (Fin 0, Fin 0, Fin 0))) (start_worker cfg nodeID) = (hbs, w)"
    and w: "\<not> wk_paused w" "wk_cpu w = Fin (of_int (50 - 2 * int n))" by auto
  have "randomWalk (Fin 0) (wk_cpu w) = Fin (of_int (50 - 2 * int (Suc n)))"
    unfolding w(2) using Suc.prems walk_down [of "50 - 2 * int n"] by simp
  then show ?case
    using w unfolding replicate_Suc replicate_append_same [symmetric] worker_run_append run
    by (simp add: heartbeat_tick_def Let_def)
qed

lemma falling_to_zero:
  "fst (worker_run falling (start_worker cfg nodeID)) \<noteq> []"
  "feq (hb_cpu (last (fst (worker_run falling (start_worker cfg nodeID))))) (Fin 0)"
  using falling_run [of 25 cfg nodeID] by (auto simp: falling_def)

theorem live_worker_raises_NodeDown:
  "list_all draws_ok falling \<and>
   (\<exists>s. record_ops (worker_ops cfg nodeID falling) no_samples = Some s \<and> NodeDown s)"
proof
  show "\<exists>s. record_ops (worker_ops cfg nodeID falling) no_samples = Some s \<and> NodeDown s"
    using NodeDown_watches_load [OF refl, of cfg nodeID falling "[]"] falling_to_zero [of cfg nodeID]
    unfolding Let_def by blast
qed (rule falling_draws)

theorem NodeDown_watches_load_witness:
  "\<exists>s. record_ops (worker_ops demo_worker ''n1'' falling) no_samples = Some s \<and>
    record_ops (worker_ops demo_worker ''n1'' (falling @ Debug ''POST'' Pause # map Tick [(Fin 0, Fin 0, Fin 0)])) no_samples = Some s \<and>
    (let sent = fst (worker_run falling (start_worker demo_worker ''n1''))
     in NodeDown s \<longleftrightarrow> sent \<noteq> [] \<and> feq (hb_cpu (last sent)) (Fin 0))"
  by (rule NodeDown_watches_load [OF refl])

theorem alerts_that_never_fire_witness:
  "\<exists>s. record_ops [Inc RequestsTotal [''gateway'', ''create_database'', ''202'']] no_samples = Some s \<and>
     \<not> RegionDown s \<and> \<not> HighReplicationLag s \<and> \<not> HighLatency_possible s"
proof -
  let ?ops = "[Inc RequestsTotal [''gateway'', ''create_database'', ''202'']]"
  have "Inc RequestsTotal [''gateway'', ''create_database'', ''202''] \<in> set (create_ops (Http_Body 202 undefined))"
    by (simp add: create_ops_def)
  then have "program_op (Inc RequestsTotal [''gateway'', ''create_database'', ''202''])" unfolding program_op_def by blast
  then have ops: "list_all program_op ?ops" by (simp only: list.pred_inject simp_thms)
  then obtain s where "record_ops ?ops no_samples = Some s" using recording_never_panics by blast
  with alerts_that_never_fire [OF ops this] show ?thesis by blast
qed

end
