(* ===== verification/Shutdown.thy ===== *)
theory Shutdown
  imports Main
begin

text \<open>
  How the processes go down: what each \<^verbatim>\<open>main\<close> does after the signal, with the
  work in flight. Times are milliseconds after the signal. Work is what has begun by then:
  requests that come in while a server is still open are not followed.
\<close>

section \<open>Stopping\<close>

text \<open>
  A request of the HTTP server, a call of the gRPC server, or a background job; and the time
  it still needs, \<open>None\<close> when it never ends.
\<close>

datatype work = Http_Request | Rpc_Call | Background_Job

type_synonym in_flight = "(work \<times> nat option) list"

text \<open>
  \<^verbatim>\<open>server.Shutdown\<close> with a limit, which waits for the requests and gives up at
  the limit, after which one service closes the connections by force;
  \<^verbatim>\<open>GracefulStop\<close>, which waits for the calls without a limit; a deferred
  \<^verbatim>\<open>Close\<close> of a pool or connection.
\<close>

datatype stop_step = Shutdown_Http nat bool | Graceful_Stop | Close_Resource

definition ends_by :: "nat \<Rightarrow> nat option \<Rightarrow> bool" where
  "ends_by t need = (case need of None \<Rightarrow> False | Some k \<Rightarrow> k \<le> t)"

definition needs :: "work \<Rightarrow> in_flight \<Rightarrow> nat option list" where
  "needs k ws = map snd (filter (\<lambda>w. fst w = k) ws)"

definition latest :: "nat option list \<Rightarrow> nat \<Rightarrow> nat" where
  "latest ns t = fold max (map (case_option 0 id) ns) t"

text \<open>
  The steps from a time on: when the process exits, unless it never does, when HTTP
  connections are closed by force, and when the resources are closed.
\<close>

record shutdown =
  sd_exit :: "nat option"
  sd_forced :: "nat option"
  sd_closed :: "nat list"

fun stop_run :: "stop_step list \<Rightarrow> in_flight \<Rightarrow> nat \<Rightarrow> shutdown" where
  "stop_run [] ws t = \<lparr>sd_exit = Some t, sd_forced = None, sd_closed = []\<rparr>"
| "stop_run (Shutdown_Http limit force # steps) ws t =
     (if list_all (ends_by (t + limit)) (needs Http_Request ws)
      then stop_run steps ws (latest (needs Http_Request ws) t)
      else let r = stop_run steps ws (t + limit)
           in if force then r\<lparr>sd_forced := Some (t + limit)\<rparr> else r)"
| "stop_run (Graceful_Stop # steps) ws t =
     (if None \<in> set (needs Rpc_Call ws) then \<lparr>sd_exit = None, sd_forced = None, sd_closed = []\<rparr>
      else stop_run steps ws (latest (needs Rpc_Call ws) t))"
| "stop_run (Close_Resource # steps) ws t =
     (let r = stop_run steps ws t in r\<lparr>sd_closed := t # sd_closed r\<rparr>)"

text \<open>Work that is done before the process, or its connection, is gone.\<close>

definition completes :: "shutdown \<Rightarrow> work \<times> nat option \<Rightarrow> bool" where
  "completes r w \<longleftrightarrow>
     (case sd_exit r of None \<Rightarrow> snd w \<noteq> None | Some t \<Rightarrow> ends_by t (snd w)) \<and>
     (fst w = Http_Request \<longrightarrow> (case sd_forced r of None \<Rightarrow> True | Some t \<Rightarrow> ends_by t (snd w)))"

section \<open>The services\<close>

definition metadata_stop :: "stop_step list" where
  "metadata_stop = [Shutdown_Http 5000 True, Graceful_Stop, Close_Resource]"

definition scheduler_stop :: "stop_step list" where
  "scheduler_stop = [Graceful_Stop, Close_Resource]"

definition control_plane_stop :: "stop_step list" where
  "control_plane_stop = [Shutdown_Http 3000 False, Close_Resource, Close_Resource]"

definition gateway_stop :: "stop_step list" where
  "gateway_stop = [Shutdown_Http 5000 False, Close_Resource]"

definition worker_stop :: "stop_step list" where
  "worker_stop = [Shutdown_Http 2000 False, Graceful_Stop, Close_Resource]"

definition auth_stop :: "stop_step list" where
  "auth_stop = [Shutdown_Http 2000 False]"

definition deployment_stop :: "stop_step list" where
  "deployment_stop = [Shutdown_Http 2000 False, Graceful_Stop]"

definition planner_stop :: "stop_step list" where
  "planner_stop = [Shutdown_Http 2000 False, Graceful_Stop]"

definition sla_stop :: "stop_step list" where
  "sla_stop = [Shutdown_Http 2000 False, Graceful_Stop]"

definition stops :: "stop_step list list" where
  "stops = [metadata_stop, scheduler_stop, control_plane_stop, gateway_stop, worker_stop, auth_stop,
     deployment_stop, planner_stop, sla_stop]"

lemmas stop_defs = metadata_stop_def scheduler_stop_def control_plane_stop_def gateway_stop_def worker_stop_def
  auth_stop_def deployment_stop_def planner_stop_def sla_stop_def

section \<open>What is waited for\<close>

lemma latest_ge: "t \<le> latest ns t"
  unfolding latest_def by (induction ns arbitrary: t) (auto intro: order_trans [OF max.cobounded2])

lemma latest_ends: "n \<in> set ns \<Longrightarrow> n \<noteq> None \<Longrightarrow> ends_by (latest ns t) n"
proof (induction ns arbitrary: t)
  case (Cons m ns)
  have "case_option 0 id m \<le> latest (m # ns) t"
    using latest_ge [of "max (case_option 0 id m) t" ns] by (simp add: latest_def)
  then show ?case
    using Cons by (cases n) (auto simp: ends_by_def latest_def)
qed simp

lemma latest_le: "t \<le> u \<Longrightarrow> list_all (ends_by u) ns \<Longrightarrow> latest ns t \<le> u"
  unfolding latest_def by (induction ns arbitrary: t) (auto simp: ends_by_def split: option.splits)

lemma ends_by_mono: "ends_by t n \<Longrightarrow> t \<le> u \<Longrightarrow> ends_by u n"
  by (auto simp: ends_by_def split: option.splits)

lemma needs_iff: "n \<in> set (needs k ws) \<longleftrightarrow> (k, n) \<in> set ws"
  by (force simp: needs_def)

lemma stop_run_ge: "sd_exit (stop_run steps ws t) = Some u \<Longrightarrow> t \<le> u"
proof (induction steps ws t rule: stop_run.induct)
  case (2 limit force steps ws t)
  then show ?case by (auto simp: Let_def split: if_splits intro: order_trans [OF latest_ge])
next
  case (3 steps ws t)
  then show ?case by (auto split: if_splits intro: order_trans [OF latest_ge])
qed (auto simp: Let_def)

lemma graceful_waits:
  assumes "Graceful_Stop \<in> set steps" and "sd_exit (stop_run steps ws t) = Some u" and "(Rpc_Call, n) \<in> set ws"
  shows "ends_by u n"
  using assms
proof (induction steps ws t rule: stop_run.induct)
  case (3 steps ws t)
  then have "None \<notin> set (needs Rpc_Call ws)" "n \<in> set (needs Rpc_Call ws)" "sd_exit (stop_run steps ws (latest (needs Rpc_Call ws) t)) = Some u"
    by (auto simp: needs_iff split: if_splits)
  moreover from this have "n \<noteq> None" by metis
  ultimately show ?case using latest_ends stop_run_ge ends_by_mono by metis
qed (auto simp: Let_def split: if_splits)

lemma stop_run_blocks:
  "sd_exit (stop_run steps ws t) = None \<longleftrightarrow> Graceful_Stop \<in> set steps \<and> (Rpc_Call, None) \<in> set ws"
  by (induction steps ws t rule: stop_run.induct) (auto simp: Let_def needs_iff)

text \<open>
  A process that has a gRPC server finishes every call in flight; it does not exit at all
  exactly when one of them never ends, since nothing limits the wait.
\<close>

theorem rpc_calls_are_finished:
  assumes "steps \<in> set stops"
  shows "(sd_exit (stop_run steps ws 0) = None \<longleftrightarrow>
      steps \<notin> {control_plane_stop, gateway_stop, auth_stop} \<and> (Rpc_Call, None) \<in> set ws) \<and>
    (steps \<notin> {control_plane_stop, gateway_stop, auth_stop} \<longrightarrow>
      (\<forall>n. (Rpc_Call, Some n) \<in> set ws \<longrightarrow> completes (stop_run steps ws 0) (Rpc_Call, Some n)))"
proof
  have graceful: "Graceful_Stop \<in> set steps \<longleftrightarrow> steps \<notin> {control_plane_stop, gateway_stop, auth_stop}"
    using assms by (auto simp: stops_def stop_defs)
  then show "sd_exit (stop_run steps ws 0) = None \<longleftrightarrow>
      steps \<notin> {control_plane_stop, gateway_stop, auth_stop} \<and> (Rpc_Call, None) \<in> set ws"
    by (simp add: stop_run_blocks)
  show "steps \<notin> {control_plane_stop, gateway_stop, auth_stop} \<longrightarrow>
      (\<forall>n. (Rpc_Call, Some n) \<in> set ws \<longrightarrow> completes (stop_run steps ws 0) (Rpc_Call, Some n))"
    using graceful_waits [of steps ws 0] graceful by (auto simp: completes_def split: option.split)
qed

text \<open>The pool of the metadata service is closed after the last call has ended, and the last.\<close>

theorem pool_outlives_calls:
  assumes "sd_exit (stop_run metadata_stop ws 0) = Some u"
  shows "sd_closed (stop_run metadata_stop ws 0) = [u] \<and> (\<forall>n. (Rpc_Call, n) \<in> set ws \<longrightarrow> ends_by u n)"
proof
  show "sd_closed (stop_run metadata_stop ws 0) = [u]"
    using assms by (auto simp: metadata_stop_def Let_def split: if_splits)
  show "\<forall>n. (Rpc_Call, n) \<in> set ws \<longrightarrow> ends_by u n"
    using graceful_waits [OF _ assms] by (simp add: metadata_stop_def)
qed

text \<open>
  The control plane is gone three seconds after the signal at the latest, and at once when no
  request is in flight: the jobs its handlers and its reconciler have started are not waited
  for, and one that needs longer is cut off.
\<close>

theorem control_plane_cuts_jobs:
  obtains u where "sd_exit (stop_run control_plane_stop ws 0) = Some u" and "u \<le> 3000"
    and "needs Http_Request ws = [] \<Longrightarrow> u = 0"
    and "\<And>n. completes (stop_run control_plane_stop ws 0) (Background_Job, n) \<longleftrightarrow> ends_by u n"
proof -
  let ?r = "stop_run control_plane_stop ws 0"
  obtain u where u: "sd_exit ?r = Some u"
    using stop_run_blocks [of control_plane_stop ws 0] by (auto simp: control_plane_stop_def)
  moreover from u have "u \<le> 3000"
    using latest_le [of 0 3000 "needs Http_Request ws"] by (auto simp: control_plane_stop_def Let_def split: if_splits)
  moreover from u have "needs Http_Request ws = [] \<Longrightarrow> u = 0"
    by (simp add: control_plane_stop_def latest_def)
  moreover have "completes ?r (Background_Job, n) \<longleftrightarrow> ends_by u n" for n by (simp add: completes_def u)
  ultimately show thesis by (rule that)
qed

end
