(* ===== verification/Spec2Isabelle.thy ===== *)
theory Spec2Isabelle
  imports Region Router Election Placement Autoscaler RateLimit Api_Keys Jwt Middleware Access
    Tables Metadata Store Health Agent Vector_Search Provisioning Control_Plane Control_Routes Daemons
    Cluster Deployment Sla Planner Gateway Gateway_Flow Config Startup Worker Webhook Telemetry
    Recovery Metrics Shutdown
begin

text \<open>
  NimbusDB: a verification of its Go services (\<^verbatim>\<open>src/services\<close>).

  \<^bold>\<open>The program.\<close> A control plane provisions databases on worker nodes. The metadata
  service keeps the registry of nodes and databases in PostgreSQL and classifies nodes by the
  age of their heartbeats. The scheduler scores and places; the control plane takes REST
  requests, drives provisioning through scheduler, metadata service and node agents, and
  sweeps for databases that are stuck. Each worker node registers itself, sends heartbeats and
  runs an agent that holds databases and vectors. The gateway is the public REST API. A
  deployment controller rolls out versions, an SLA monitor and a capacity planner report, an
  auth service issues tokens and keys, and every service checks callers with one package.

  \<^bold>\<open>Shared theories.\<close> \<^verbatim>\<open>Prelude\<close>: RPC results as sums, the contracts of
  \<^verbatim>\<open>sort.Slice\<close> and of ranging over a Go map as the locales \<open>slice_sort\<close> and
  \<open>map_range\<close> (interpreted on insertion sort and on rotations), the keep-the-best loop.
  \<^verbatim>\<open>Go_Strings\<close>, \<^verbatim>\<open>Go_Float\<close> (float32 and float64 over the
  rationals, round to nearest even), \<^verbatim>\<open>Go_Time\<close> (64-bit durations, conversions,
  rounding errors), \<^verbatim>\<open>Proto\<close> (messages, time stamps, error texts),
  \<^verbatim>\<open>Simulation\<close> (runs of a machine that answers requests and the locale
  \<open>data_refinement\<close>, interpreted by the metadata service and by the alert receiver).

  \<^bold>\<open>Theories of the components\<close>, with the sources they model:
  \<^item> \<^verbatim>\<open>Region\<close>, \<^verbatim>\<open>Router\<close>, \<^verbatim>\<open>Election\<close>:
    \<^verbatim>\<open>metadata-service/region\<close>, \<^verbatim>\<open>gateway/router\<close>,
    \<^verbatim>\<open>control-plane/election\<close>. Health roll-up, latency matrix, fallback order; the
    region a request goes to is the nearest that serves; the promoted follower is the best.
  \<^item> \<^verbatim>\<open>Placement\<close>, \<^verbatim>\<open>Autoscaler\<close>:
    \<^verbatim>\<open>scheduler/placement\<close>. Scores in float32 with their bounds and monotonicity,
    safety and optimality of the choice, regional fallback, spacing of scaling decisions.
  \<^item> \<^verbatim>\<open>RateLimit\<close>, \<^verbatim>\<open>Api_Keys\<close>, \<^verbatim>\<open>Jwt\<close>,
    \<^verbatim>\<open>Middleware\<close>, \<^verbatim>\<open>Access\<close>: \<^verbatim>\<open>auth-service\<close> and
    the \<^verbatim>\<open>main.go\<close> files that install role maps. Budgets of a client, permanence of
    revocation, round trip and exactness of tokens, the gate of the interceptor; a mux with a
    role per route, the state each process has of its own, and what services share.
  \<^item> \<^verbatim>\<open>Tables\<close>, \<^verbatim>\<open>Metadata\<close>, \<^verbatim>\<open>Store\<close>,
    \<^verbatim>\<open>Health\<close>, \<^verbatim>\<open>Daemons\<close>: \<^verbatim>\<open>metadata-service\<close>
    (and the reconciler's ticker). The rows and SQL statements with the constraints the database
    enforces; every RPC, each round trip of which may fail; atomicity and the registry invariant
    over all reachable registries; the refinement of two finite maps; round trips; what a health
    check does and that it has no memory.
  \<^item> \<^verbatim>\<open>Agent\<close>, \<^verbatim>\<open>Vector_Search\<close>:
    \<^verbatim>\<open>worker-node/agent\<close>. Name and ID maps, directories, drain, injected failures;
    filter, cosine similarity, top k.
  \<^item> \<^verbatim>\<open>Worker\<close>: \<^verbatim>\<open>worker-node/main.go\<close>. Registration against the
    model of the metadata service with lost calls (the locale \<open>registry_service\<close> is what the
    loop needs of it), its termination and its divergence; the
    random walk; heartbeats, pause and what the health manager makes of them.
  \<^item> \<^verbatim>\<open>Provisioning\<close>, \<^verbatim>\<open>Control_Plane\<close>,
    \<^verbatim>\<open>Control_Routes\<close>: \<^verbatim>\<open>control-plane\<close>. The orchestrator over a
    record of clients, the handlers, one sweep of the reconciler, the routes with their roles.
    A call's effects are recorded in a log, over which the final status, the number of
    schedule calls and the choice of fresh nodes are proved.
  \<^item> \<^verbatim>\<open>Cluster\<close>: the composition of control plane, scheduler, metadata service
    and node agents: the clients of the orchestrator are instantiated with the models of those
    services over one world of tables and agents, which satisfy the locale
    \<open>placement_contract\<close>. An accepted creation becomes active.
  \<^item> \<^verbatim>\<open>Recovery\<close>: the control plane dies in the middle of its work. A number in
    the state bounds the calls a process may still make, so a run under it leaves what a process
    that dies there leaves. The locale \<open>crash_contract\<close> extends the contract of the
    cluster by what every call keeps; provisioning survives any number of crashes, a deletion
    does not.
  \<^item> \<^verbatim>\<open>Deployment\<close>: \<^verbatim>\<open>deployment-controller/controller\<close>.
    Requests and the goroutines of running deployments interleave as the steps of an inductive
    relation; the invariant of records and goroutines; the sequential behaviour of a goroutine
    left alone.
  \<^item> \<^verbatim>\<open>Sla\<close>, \<^verbatim>\<open>Planner\<close>: \<^verbatim>\<open>sla-monitor/monitor\<close>,
    \<^verbatim>\<open>capacity-planner/planner\<close>. Reports and projections in float64 related to
    exact arithmetic.
  \<^item> \<^verbatim>\<open>Gateway\<close>, \<^verbatim>\<open>Gateway_Flow\<close>:
    \<^verbatim>\<open>gateway/handlers\<close>. Every route and handler over a record of clients, and
    the composition with metadata service, control plane and agents: creation, insertion and
    search, addresses.
  \<^item> \<^verbatim>\<open>Config\<close>, \<^verbatim>\<open>Webhook\<close>, \<^verbatim>\<open>Telemetry\<close>:
    environment settings, \<^verbatim>\<open>observability/webhook\<close>,
    \<^verbatim>\<open>observability/telemetry/tracer.go\<close>.
  \<^item> \<^verbatim>\<open>Metrics\<close>: \<^verbatim>\<open>observability/telemetry/metrics.go\<close>, the places
    of the gateway, the middleware and the worker that record in its vectors, and what the
    rules of \<^verbatim>\<open>deploy/observability/alert.rules.yml\<close> can see of them.
  \<^item> \<^verbatim>\<open>Startup\<close>: the listeners of the ten \<^verbatim>\<open>main\<close>
    functions and what a taken port does to each; \<^verbatim>\<open>metadata-service/db/db.go\<close> and
    \<^verbatim>\<open>migrate.go\<close> over the libraries they call, and the start of the metadata
    service.
  \<^item> \<^verbatim>\<open>Shutdown\<close>: what the nine \<^verbatim>\<open>main\<close> functions that catch the
    signal do with the requests, calls and jobs in flight; the jobs of the control plane that are
    cut off are those \<^verbatim>\<open>Recovery\<close> is about.

  \<^bold>\<open>Conventions.\<close> State is passed explicitly; what a mutex guards is one step. An
  RPC returns \<open>Inl\<close> a status error or \<open>Inr\<close> a value. What the program takes from outside
  is an argument: clock readings, random draws, identifiers the database draws, failures of
  round trips, orders of result rows and of map iteration, the digests, the JSON decoders,
  the trace propagator. Theorems state what they need of them as hypotheses (a decoder that
  reads back what was encoded, a sorting routine that sorts), each with an instance in a witness.

  \<^bold>\<open>Loops and bounds.\<close> Loops are structural recursions, or recursions with a measure
  (attempts left of at most three in \<^verbatim>\<open>provision_loop\<close>, the argument in
  \<^verbatim>\<open>int_log2\<close>); no fuel is used. The number of calls in \<^verbatim>\<open>Recovery\<close> is
  the point of a crash, and nineteen are shown to be all a provisioning can make. The
  registration loop may run for ever and is a \<^verbatim>\<open>partial_function\<close>: one theorem shows that it returns, another that for an
  unknown cluster it does not. Float results are exact within stated bounds: up to \<open>10^9\<close>
  requests and latencies below \<open>2^40\<close> for the SLA report, samples, days and units up to a
  thousand for the planner, percentages for the scheduler. Loads beyond them are covered by the
  definitions, not by these theorems.

  \<^bold>\<open>Not modelled.\<close> Generated protobuf and gRPC code (only its method names matter, in
  \<^verbatim>\<open>Middleware\<close>); scraping and the rate functions of
  the alert rules; of the \<^verbatim>\<open>main\<close>
  functions the dialing (which does not wait) and the routes to the metrics. The Rust node agent,
  the dashboard and the deployment files are not part of the Go services. The JSON text of
  answers is not modelled, their fields are.
\<close>

end
